(* ===== verification/Prelude.thy ===== *)
theory Prelude
  imports Main "HOL-Library.Word" "HOL-Library.AList"
begin

text \<open>
  What the components share: the machine integers of the Rust sources, the hash
  maps and hash sets of its standard library, its clocks and durations, and the
  operations on strings the parsers use.

  \<^item> A \<^verbatim>\<open>u64\<close> is a \<open>64 word\<close>: \<open>+\<close> wraps, as the release profile does
    (the workspace sets no overflow checks) and as \<^verbatim>\<open>AtomicU64::fetch_add\<close> always does.
  \<^item> A \<^verbatim>\<open>HashMap\<close> or \<^verbatim>\<open>DashMap\<close> is an association list with distinct keys.
    The order of the list stands for the iteration order of the hash table, which
    Rust leaves open: a statement about every list is a statement about every order.
  \<^item> A \<^verbatim>\<open>HashSet\<close> is a list without duplicates, read through \<open>set\<close>.
  \<^item> A \<^verbatim>\<open>Duration\<close> and an \<^verbatim>\<open>Instant\<close> count nanoseconds in \<open>nat\<close>; truncated
    subtraction is the saturation of \<^verbatim>\<open>Instant::elapsed\<close>.
  \<^item> A \<^verbatim>\<open>str\<close> is a list of code points below 256, one \<open>char\<close> each; \<open>str_len\<close>
    is its length in UTF-8 bytes.
\<close>

named_theorems hm_simps \<open>looking up in an updated hash map\<close>
named_theorems state_defs \<open>definitions of the state-changing operations\<close>

subsection \<open>Integers, clocks, durations\<close>

type_synonym u16 = "16 word"
type_synonym u32 = "32 word"
type_synonym u64 = "64 word"
type_synonym u128 = "128 word"
type_synonym usize = "64 word"
type_synonym node_id = u128
type_synonym actor_id = u128
type_synonym duration = nat
type_synonym instant = nat

definition saturating_sub :: "'a::len word \<Rightarrow> 'a word \<Rightarrow> 'a word" where
  "saturating_sub a b = (if a \<le> b then 0 else a - b)"

definition saturating_add :: "'a::len word \<Rightarrow> 'a word \<Rightarrow> 'a word" where
  "saturating_add a b = (if unat a + unat b < 2 ^ LENGTH('a) then a + b else - 1)"

definition saturating_mul :: "'a::len word \<Rightarrow> 'a word \<Rightarrow> 'a word" where
  "saturating_mul a b = (if unat a * unat b < 2 ^ LENGTH('a) then a * b else - 1)"

definition checked_add :: "'a::len word \<Rightarrow> 'a word \<Rightarrow> 'a word option" where
  "checked_add a b = (if unat a + unat b < 2 ^ LENGTH('a) then Some (a + b) else None)"

definition checked_mul :: "'a::len word \<Rightarrow> 'a word \<Rightarrow> 'a word option" where
  "checked_mul a b = (if unat a * unat b < 2 ^ LENGTH('a) then Some (a * b) else None)"

definition from_millis :: "nat \<Rightarrow> duration" where
  "from_millis n = n * 1000000"

definition from_secs :: "nat \<Rightarrow> duration" where
  "from_secs n = n * 1000000000"

definition as_millis_u64 :: "duration \<Rightarrow> u64" where
  "as_millis_u64 d = of_nat (d div 1000000)"

definition elapsed :: "instant \<Rightarrow> instant \<Rightarrow> duration" where
  "elapsed now t = now - t"

lemma unat_saturating_sub: "unat (saturating_sub a b) = unat a - unat b"
proof (cases "a \<le> b")
  case True
  then show ?thesis by (simp add: saturating_sub_def word_le_nat_alt)
next
  case False
  then have "b \<le> a" by simp
  with False show ?thesis by (simp add: saturating_sub_def unat_sub)
qed

lemma checked_add_Some_iff:
  "checked_add (a :: 'a::len word) b = Some c \<longleftrightarrow> unat c = unat a + unat b"
proof
  assume "checked_add a b = Some c"
  then show "unat c = unat a + unat b"
    by (auto simp: checked_add_def unat_word_ariths split: if_splits)
next
  assume eq: "unat c = unat a + unat b"
  moreover have "unat c < 2 ^ LENGTH('a)" by (rule unsigned_less)
  ultimately have lt: "unat a + unat b < 2 ^ LENGTH('a)" by simp
  then have "unat (a + b) = unat a + unat b" by (simp add: unat_word_ariths)
  with eq have "a + b = c" by (simp add: word_unat_eq_iff)
  with lt show "checked_add a b = Some c" by (simp add: checked_add_def)
qed

lemma less_inc_word: "e \<noteq> - 1 \<Longrightarrow> e < (e::'a::len word) + 1"
proof -
  assume "e \<noteq> - 1"
  then have "unat e \<noteq> unat (- 1 :: 'a word)" by (simp add: word_unat_eq_iff)
  then have "unat e \<noteq> 2 ^ LENGTH('a) - 1"
    by (simp add: unsigned_minus_1_eq_mask mask_eq_exp_minus_1)
  moreover have "unat e < 2 ^ LENGTH('a)" by (rule unsigned_less)
  ultimately have "unat e + 1 < 2 ^ LENGTH('a)" by linarith
  then have "unat (e + 1) = unat e + 1" by (simp add: unat_word_ariths)
  then show ?thesis by (simp add: word_less_nat_alt)
qed

subsection \<open>Hash maps\<close>

type_synonym ('k, 'v) hash_map = "('k \<times> 'v) list"
type_synonym 'a hash_set = "'a list"

abbreviation hm_get :: "('k, 'v) hash_map \<Rightarrow> 'k \<Rightarrow> 'v option" where
  "hm_get \<equiv> map_of"

abbreviation hm_insert :: "'k \<Rightarrow> 'v \<Rightarrow> ('k, 'v) hash_map \<Rightarrow> ('k, 'v) hash_map" where
  "hm_insert \<equiv> AList.update"

abbreviation hm_remove :: "'k \<Rightarrow> ('k, 'v) hash_map \<Rightarrow> ('k, 'v) hash_map" where
  "hm_remove \<equiv> AList.delete"

abbreviation hm_keys :: "('k, 'v) hash_map \<Rightarrow> 'k list" where
  "hm_keys m \<equiv> map fst m"

abbreviation hm_values :: "('k, 'v) hash_map \<Rightarrow> 'v list" where
  "hm_values m \<equiv> map snd m"

definition hm_ok :: "('k, 'v) hash_map \<Rightarrow> bool" where
  "hm_ok m \<longleftrightarrow> distinct (hm_keys m)"

definition hm_entry :: "'k \<Rightarrow> ('v \<Rightarrow> 'v) \<Rightarrow> 'v \<Rightarrow> ('k, 'v) hash_map \<Rightarrow> ('k, 'v) hash_map" where
  \<comment> \<open>\<^verbatim>\<open>entry(k).and_modify(f).or_insert(d)\<close>\<close>
  "hm_entry k f d m = hm_insert k (case hm_get m k of Some v \<Rightarrow> f v | None \<Rightarrow> d) m"

definition hm_modify :: "'k \<Rightarrow> ('v \<Rightarrow> 'v) \<Rightarrow> ('k, 'v) hash_map \<Rightarrow> ('k, 'v) hash_map" where
  \<comment> \<open>\<^verbatim>\<open>if let Some(v) = m.get_mut(k) { *v = f(v) }\<close>\<close>
  "hm_modify k f m = (case hm_get m k of None \<Rightarrow> m | Some v \<Rightarrow> hm_insert k (f v) m)"

definition hm_map_values :: "('v \<Rightarrow> 'v) \<Rightarrow> ('k, 'v) hash_map \<Rightarrow> ('k, 'v) hash_map" where
  "hm_map_values f m = map (\<lambda>(k, v). (k, f v)) m"

definition hm_retain :: "('k \<Rightarrow> 'v \<Rightarrow> bool) \<Rightarrow> ('k, 'v) hash_map \<Rightarrow> ('k, 'v) hash_map" where
  "hm_retain P m = filter (\<lambda>(k, v). P k v) m"

lemma find_SomeD: "find P xs = Some x \<Longrightarrow> x \<in> set xs \<and> P x"
  by (induction xs) (auto split: if_splits)

lemma find_Some_split:
  "find P xs = Some x \<Longrightarrow> \<exists>ys zs. xs = ys @ x # zs \<and> P x \<and> (\<forall>y \<in> set ys. \<not> P y)"
proof (induction xs)
  case (Cons a xs)
  show ?case
  proof (cases "P a")
    case True
    with Cons.prems show ?thesis by (intro exI [of _ "[]"] exI [of _ xs]) auto
  next
    case False
    with Cons obtain ys zs where "xs = ys @ x # zs" "P x" "\<forall>y \<in> set ys. \<not> P y" by auto
    with False show ?thesis by (intro exI [of _ "a # ys"] exI [of _ zs]) auto
  qed
qed simp

lemma Max_insert_max: "finite S \<Longrightarrow> Max (insert (max a b) S) = Max (insert a (insert b S))"
  by (cases "S = {}") (auto simp: ac_simps)

text \<open>The contract of a map that clients rely on, and what follows from it alone.\<close>

locale key_value =
  fixes get :: "'m \<Rightarrow> 'k \<Rightarrow> 'v option"
    and put :: "'k \<Rightarrow> 'v \<Rightarrow> 'm \<Rightarrow> 'm"
    and del :: "'k \<Rightarrow> 'm \<Rightarrow> 'm"
    and ok :: "'m \<Rightarrow> bool"
  assumes get_put: "ok m \<Longrightarrow> get (put k v m) = (get m)(k \<mapsto> v)"
    and get_del: "ok m \<Longrightarrow> get (del k m) = (get m)(k := None)"
    and ok_put: "ok m \<Longrightarrow> ok (put k v m)"
    and ok_del: "ok m \<Longrightarrow> ok (del k m)"
begin

lemma ok_fold_put: "ok m \<Longrightarrow> ok (fold (\<lambda>x. put (key x) (val x)) xs m)"
  by (induction xs arbitrary: m) (auto intro: ok_put)

lemma get_fold_put:
  "ok m \<Longrightarrow> get (fold (\<lambda>x. put (key x) (val x)) xs m) k =
     (case find (\<lambda>x. key x = k) (rev xs) of Some x \<Rightarrow> Some (val x) | None \<Rightarrow> get m k)"
proof (induction xs rule: rev_induct)
  case Nil
  then show ?case by simp
next
  case (snoc x xs)
  then show ?case by (auto simp: get_put ok_fold_put)
qed

lemma get_fold_put_distinct:
  assumes "ok m" and "distinct (map key xs)" and "x \<in> set xs"
  shows "get (fold (\<lambda>x. put (key x) (val x)) xs m) (key x) = Some (val x)"
proof -
  have "\<exists>y. find (\<lambda>y. key y = key x) (rev xs) = Some y"
    using assms(3) find_None_iff [of "\<lambda>y. key y = key x" "rev xs"] by auto
  then obtain y where y: "find (\<lambda>y. key y = key x) (rev xs) = Some y" by blast
  then have "y \<in> set xs" and "key y = key x" by (auto dest: find_SomeD)
  with assms(2,3) have "y = x" by (meson distinct_map inj_onD)
  with y assms(1) show ?thesis by (simp add: get_fold_put)
qed

lemma get_fold_del:
  "ok m \<Longrightarrow> get (fold del ks m) k = (if k \<in> set ks then None else get m k)"
  by (induction ks arbitrary: m) (auto simp: get_del ok_del)

lemma ok_fold_del: "ok m \<Longrightarrow> ok (fold del ks m)"
  by (induction ks arbitrary: m) (auto intro: ok_del)

end

lemma hm_ok_Nil [simp]: "hm_ok []"
  by (simp add: hm_ok_def)

interpretation hm: key_value map_of AList.update AList.delete hm_ok
  by unfold_locales
    (simp_all add: hm_ok_def update_conv' delete_conv' distinct_update distinct_delete)

lemma hm_get_entry [hm_simps]:
  "hm_get (hm_entry k f d m) =
     (hm_get m)(k \<mapsto> (case hm_get m k of Some v \<Rightarrow> f v | None \<Rightarrow> d))"
  by (simp add: hm_entry_def update_conv')

lemma hm_get_modify [hm_simps]:
  "hm_get (hm_modify k f m) = (hm_get m)(k := map_option f (hm_get m k))"
  by (auto simp: hm_modify_def update_conv' split: option.split)

lemma hm_get_map_values [hm_simps]:
  "hm_get (hm_map_values f m) k = map_option f (hm_get m k)"
  by (induction m) (auto simp: hm_map_values_def)

lemma hm_get_retain [hm_simps]:
  "hm_ok m \<Longrightarrow> hm_get (hm_retain P m) k =
     (case hm_get m k of Some v \<Rightarrow> if P k v then Some v else None | None \<Rightarrow> None)"
proof (induction m)
  case Nil
  then show ?case by (simp add: hm_retain_def)
next
  case (Cons p m)
  then have "hm_ok m" by (simp add: hm_ok_def)
  moreover have "fst p \<notin> fst ` set m" using Cons.prems by (auto simp: hm_ok_def)
  then have "hm_get m (fst p) = None" by (simp add: map_of_eq_None_iff)
  ultimately show ?case
    using Cons.IH by (cases p) (auto simp: hm_retain_def split: option.splits)
qed

lemmas hm_get_insert [hm_simps] = update_conv'
lemmas hm_get_remove [hm_simps] = delete_conv'

lemma hm_ok_insert [simp]: "hm_ok m \<Longrightarrow> hm_ok (hm_insert k v m)"
  by (rule hm.ok_put)

lemma hm_ok_remove [simp]: "hm_ok m \<Longrightarrow> hm_ok (hm_remove k m)"
  by (rule hm.ok_del)

lemma hm_ok_entry [simp]: "hm_ok m \<Longrightarrow> hm_ok (hm_entry k f d m)"
  by (simp add: hm_entry_def)

lemma hm_ok_modify [simp]: "hm_ok m \<Longrightarrow> hm_ok (hm_modify k f m)"
  by (simp add: hm_modify_def split: option.split)

lemma hm_ok_map_values [simp]: "hm_ok (hm_map_values f m) = hm_ok m"
  by (simp add: hm_ok_def hm_map_values_def case_prod_unfold comp_def)

lemma hm_ok_retain [simp]: "hm_ok m \<Longrightarrow> hm_ok (hm_retain P m)"
  by (induction m) (auto simp: hm_ok_def hm_retain_def)

lemma hm_in_set_iff: "hm_ok m \<Longrightarrow> (k, v) \<in> set m \<longleftrightarrow> hm_get m k = Some v"
  by (simp add: hm_ok_def)

lemma hm_values_iff: "hm_ok m \<Longrightarrow> v \<in> snd ` set m \<longleftrightarrow> (\<exists>k. hm_get m k = Some v)"
  by (force simp: hm_in_set_iff [symmetric])

lemma hm_rebuild:
  assumes "hm_ok m" and "\<And>k v. hm_get m k = Some v \<Longrightarrow> key v = k"
  shows "hm_get (fold (\<lambda>v. hm_insert (key v) (val v)) (hm_values m) []) k = map_option val (hm_get m k)"
proof -
  have keys: "map key (hm_values m) = hm_keys m"
    using assms by (auto simp: hm_in_set_iff [symmetric])
  have distinct: "distinct (map key (hm_values m))" using assms(1) unfolding keys by (simp add: hm_ok_def)
  show ?thesis
  proof (cases "hm_get m k")
    case None
    then have "k \<notin> set (map key (hm_values m))" unfolding keys by (simp add: map_of_eq_None_iff)
    then have "find (\<lambda>v. key v = k) (rev (hm_values m)) = None" by (auto simp: find_None_iff)
    with None show ?thesis by (simp only: hm.get_fold_put [OF hm_ok_Nil]) simp
  next
    case (Some v)
    then have "v \<in> set (hm_values m)" by (force dest: map_of_SomeD)
    from hm.get_fold_put_distinct [OF hm_ok_Nil distinct this, of val]
    show ?thesis using assms(2) [OF Some] Some by simp
  qed
qed

end
