(* ===== verification/RustStr.thy ===== *)
theory RustStr
  imports Prelude
begin

text \<open>
  The string operations of Rust's standard library the sources use, on strings of
  code points below 256: character classes, trimming, splitting at a character,
  joining, prefixes, substring search, decimal numerals. Each is the library's
  documented behaviour; the lemmas are the laws the parsers rest on.
\<close>

named_theorems str_simps \<open>splitting, joining and trimming of strings\<close>

subsection \<open>Characters\<close>

definition is_alphanumeric :: "char \<Rightarrow> bool" where
  \<comment> \<open>Unicode's Alphabetic or Numeric (Nd, Nl, No), on Latin-1\<close>
  "is_alphanumeric c =
     (let n = of_char c :: nat in
        (48 \<le> n \<and> n \<le> 57) \<or> (65 \<le> n \<and> n \<le> 90) \<or> (97 \<le> n \<and> n \<le> 122) \<or>
        n \<in> {170, 178, 179, 181, 185, 186, 188, 189, 190} \<or>
        (192 \<le> n \<and> n \<le> 255 \<and> n \<noteq> 215 \<and> n \<noteq> 247))"

definition is_whitespace :: "char \<Rightarrow> bool" where
  \<comment> \<open>Unicode's White_Space, on Latin-1\<close>
  "is_whitespace c =
     (let n = of_char c :: nat in (9 \<le> n \<and> n \<le> 13) \<or> n = 32 \<or> n = 133 \<or> n = 160)"

definition utf8_len :: "char \<Rightarrow> nat" where
  "utf8_len c = (if of_char c < (128::nat) then 1 else 2)"

definition str_len :: "string \<Rightarrow> nat" where
  "str_len s = sum_list (map utf8_len s)"

subsection \<open>Trimming, splitting, joining\<close>

definition trim_matches :: "('a \<Rightarrow> bool) \<Rightarrow> 'a list \<Rightarrow> 'a list" where
  "trim_matches P s = rev (dropWhile P (rev (dropWhile P s)))"

definition trim :: "string \<Rightarrow> string" where
  "trim = trim_matches is_whitespace"

definition trim_start :: "string \<Rightarrow> string" where
  "trim_start = dropWhile is_whitespace"

fun split_on :: "'a \<Rightarrow> 'a list \<Rightarrow> 'a list list" where
  "split_on c [] = [[]]"
| "split_on c (x # xs) =
     (if x = c then [] # split_on c xs
      else (case split_on c xs of [] \<Rightarrow> [[x]] | s # ss \<Rightarrow> (x # s) # ss))"

fun join_with :: "'a \<Rightarrow> 'a list list \<Rightarrow> 'a list" where
  "join_with c [] = []"
| "join_with c [s] = s"
| "join_with c (s # t # ss) = s @ c # join_with c (t # ss)"

fun split_once :: "'a \<Rightarrow> 'a list \<Rightarrow> ('a list \<times> 'a list) option" where
  "split_once c [] = None"
| "split_once c (x # xs) =
     (if x = c then Some ([], xs)
      else map_option (\<lambda>(a, b). (x # a, b)) (split_once c xs))"

definition rsplit_once :: "'a \<Rightarrow> 'a list \<Rightarrow> ('a list \<times> 'a list) option" where
  "rsplit_once c xs = map_option (\<lambda>(a, b). (rev b, rev a)) (split_once c (rev xs))"

definition strip_prefix :: "'a list \<Rightarrow> 'a list \<Rightarrow> 'a list option" where
  "strip_prefix p s =
     (if take (length p) s = p then Some (drop (length p) s) else None)"

fun str_find :: "'a list \<Rightarrow> 'a list \<Rightarrow> nat option" where
  \<comment> \<open>the first position at which the pattern starts, in characters\<close>
  "str_find p [] = (if p = [] then Some 0 else None)"
| "str_find p (x # xs) =
     (if take (length p) (x # xs) = p then Some 0 else map_option Suc (str_find p xs))"

definition str_contains :: "'a list \<Rightarrow> 'a list \<Rightarrow> bool" where
  "str_contains s p = (str_find p s \<noteq> None)"

subsection \<open>Decimal numerals\<close>

definition digit_char :: "nat \<Rightarrow> char" where
  "digit_char d = char_of (48 + d)"

fun nat_to_dec :: "nat \<Rightarrow> string" where
  "nat_to_dec n =
     (if n < 10 then [digit_char n] else nat_to_dec (n div 10) @ [digit_char (n mod 10)])"

declare nat_to_dec.simps [simp del]

definition is_digit :: "char \<Rightarrow> bool" where
  "is_digit c = (48 \<le> (of_char c :: nat) \<and> (of_char c :: nat) \<le> 57)"

fun parse_digits :: "nat \<Rightarrow> nat \<Rightarrow> string \<Rightarrow> nat option" where
  "parse_digits b acc [] = Some acc"
| "parse_digits b acc (c # cs) =
     (if is_digit c \<and> acc * 10 + (of_char c - 48) < b
      then parse_digits b (acc * 10 + (of_char c - 48)) cs else None)"

definition parse_uint :: "nat \<Rightarrow> string \<Rightarrow> nat option" where
  \<comment> \<open>\<^verbatim>\<open>str::parse\<close> for an unsigned type of \<open>b\<close> values: a leading plus is allowed,
    the empty string, any other character and a value out of range are errors\<close>
  "parse_uint b s =
     (case s of
        [] \<Rightarrow> None
      | c # cs \<Rightarrow>
          if c = CHR ''+'' then (if cs = [] then None else parse_digits b 0 cs)
          else parse_digits b 0 s)"

subsection \<open>Laws\<close>

lemma split_on_nonempty [simp]: "split_on c s \<noteq> []"
  by (induction s) (auto split: list.split)

lemma split_on_append_sep [str_simps]:
  "c \<notin> set s \<Longrightarrow> split_on c (s @ c # r) = s # split_on c r"
  by (induction s) auto

lemma split_on_no_sep [str_simps]: "c \<notin> set s \<Longrightarrow> split_on c s = [s]"
  by (induction s) auto

lemma split_on_parts_no_sep: "p \<in> set (split_on c s) \<Longrightarrow> c \<notin> set p"
  by (induction s arbitrary: p) (auto split: list.splits if_splits)

lemma split_join [str_simps]:
  "ss \<noteq> [] \<Longrightarrow> \<forall>s \<in> set ss. c \<notin> set s \<Longrightarrow> split_on c (join_with c ss) = ss"
  by (induction c ss rule: join_with.induct) (auto simp: str_simps)

lemma join_split: "join_with c (split_on c s) = s"
proof (induction s)
  case (Cons x xs)
  obtain t ts where t: "split_on c xs = t # ts" by (cases "split_on c xs") auto
  with Cons show ?case by (cases ts) auto
qed simp

lemma set_join_with: "set (join_with c ss) \<subseteq> insert c (\<Union>(set ` set ss))"
  by (induction c ss rule: join_with.induct) auto

lemma join_with_snoc: "ss \<noteq> [] \<Longrightarrow> join_with c (ss @ [s]) = join_with c ss @ c # s"
  by (induction c ss rule: join_with.induct) auto

lemma join_with_eq_Nil_iff: "join_with c ss = [] \<longleftrightarrow> ss = [] \<or> ss = [[]]"
  by (induction c ss rule: join_with.induct) auto

lemma split_once_None [simp]: "split_once c s = None \<longleftrightarrow> c \<notin> set s"
  by (induction s) auto

lemma split_once_no_sep [str_simps]: "c \<notin> set s \<Longrightarrow> split_once c s = None"
  by simp

lemma split_once_append [str_simps]:
  "c \<notin> set s \<Longrightarrow> split_once c (s @ c # r) = Some (s, r)"
  by (induction s) auto

lemma rsplit_once_None [simp]: "rsplit_once c s = None \<longleftrightarrow> c \<notin> set s"
  by (simp add: rsplit_once_def)

lemma rsplit_once_no_sep [str_simps]: "c \<notin> set s \<Longrightarrow> rsplit_once c s = None"
  by simp

lemma rsplit_once_append [str_simps]:
  "c \<notin> set r \<Longrightarrow> rsplit_once c (s @ c # r) = Some (s, r)"
  by (simp add: rsplit_once_def split_once_append)

lemma strip_prefix_append [simp]: "strip_prefix p (p @ s) = Some s"
  by (simp add: strip_prefix_def)

lemma trim_matches_id:
  assumes "s \<noteq> []" and "\<not> P (hd s)" and "\<not> P (last s)"
  shows "trim_matches P s = s"
proof -
  have "dropWhile P s = s" using assms by (cases s) auto
  moreover have "dropWhile P (rev s) = rev s"
    using assms by (cases "rev s") (auto simp: last_rev hd_rev)
  ultimately show ?thesis by (simp add: trim_matches_def)
qed

lemma trim_matches_none [str_simps]: "\<forall>c \<in> set s. \<not> P c \<Longrightarrow> trim_matches P s = s"
proof (cases "s = []")
  case True
  then show ?thesis by (simp add: trim_matches_def)
next
  case False
  moreover assume "\<forall>c \<in> set s. \<not> P c"
  ultimately show ?thesis by (intro trim_matches_id) auto
qed

lemma trim_matches_subset: "set (trim_matches P s) \<subseteq> set s"
  by (auto simp: trim_matches_def dest!: set_dropWhileD)

lemma alphanumeric_not_whitespace: "is_alphanumeric c \<Longrightarrow> \<not> is_whitespace c"
  by (auto simp: is_alphanumeric_def is_whitespace_def Let_def)

lemma str_len_append [simp]: "str_len (a @ b) = str_len a + str_len b"
  by (simp add: str_len_def)

lemma str_len_Nil [simp]: "str_len [] = 0"
  by (simp add: str_len_def)

lemma of_digit_char: "d < 10 \<Longrightarrow> of_char (digit_char d) = 48 + d"
  by (simp add: digit_char_def)

lemma is_digit_digit_char [simp]: "d < 10 \<Longrightarrow> is_digit (digit_char d)"
  by (simp add: is_digit_def of_digit_char)

lemma nat_to_dec_digits: "\<forall>c \<in> set (nat_to_dec n). is_digit c"
proof (induction n rule: nat_to_dec.induct)
  case (1 n)
  then show ?case by (subst nat_to_dec.simps) auto
qed

lemma nat_to_dec_nonempty [simp]: "nat_to_dec n \<noteq> []"
  by (subst nat_to_dec.simps) simp

lemma parse_digits_append:
  "parse_digits b acc (xs @ ys) = Option.bind (parse_digits b acc xs) (\<lambda>a. parse_digits b a ys)"
  by (induction xs arbitrary: acc) auto

lemma parse_digits_nat_to_dec: "n < b \<Longrightarrow> parse_digits b 0 (nat_to_dec n) = Some n"
proof (induction n rule: nat_to_dec.induct)
  case (1 n)
  show ?case
  proof (cases "n < 10")
    case True
    then show ?thesis using 1
      by (subst nat_to_dec.simps) (simp add: of_digit_char)
  next
    case False
    then have "parse_digits b 0 (nat_to_dec (n div 10)) = Some (n div 10)" using 1 by simp
    moreover have "n div 10 * 10 + n mod 10 = n" by simp
    ultimately show ?thesis using False 1(2)
      by (subst nat_to_dec.simps) (simp add: parse_digits_append of_digit_char)
  qed
qed

lemma parse_uint_nat_to_dec: "n < b \<Longrightarrow> parse_uint b (nat_to_dec n) = Some n"
proof -
  assume n: "n < b"
  obtain c cs where c: "nat_to_dec n = c # cs" by (cases "nat_to_dec n") auto
  then have "is_digit c" using nat_to_dec_digits [of n] by auto
  then have "c \<noteq> CHR ''+''" by (auto simp: is_digit_def)
  then show ?thesis using parse_digits_nat_to_dec [OF n] c by (simp add: parse_uint_def)
qed

end
