(* ===== verification/Address.thy ===== *)
theory Address
  imports RustStr
begin

text \<open>
  Actor addressing, \<^verbatim>\<open>actor/address.rs\<close> of the actor crate: validated actor paths,
  the three forms of actor URIs, their parser and printer. The UUID library
  (\<^verbatim>\<open>Uuid::parse_str\<close>, \<^verbatim>\<open>Uuid::simple\<close>, \<^verbatim>\<open>Uuid::new_v4\<close>) is a parameter.
\<close>

subsection \<open>Paths\<close>

datatype address_parse_error =
    InvalidScheme
  | InvalidFormat
  | MissingNamespace
  | EmptySegment
  | InvalidCharacter
  | PathTooLong
  | SegmentTooLong
  | ReservedNamespace

record actor_path =
  segments :: "string list"

definition SYSTEM_NAMESPACES :: "string list" where
  "SYSTEM_NAMESPACES = [''system'']"

definition MAX_PATH_LENGTH :: nat where
  "MAX_PATH_LENGTH = 256"

definition MAX_SEGMENT_LENGTH :: nat where
  "MAX_SEGMENT_LENGTH = 64"

definition is_valid_segment :: "string \<Rightarrow> bool" where
  "is_valid_segment s \<longleftrightarrow>
     s \<noteq> [] \<and> list_all (\<lambda>c. is_alphanumeric c \<or> c = CHR ''_'' \<or> c = CHR ''-'') s"

fun check_segments :: "string list \<Rightarrow> address_parse_error option" where
  \<comment> \<open>the loop of \<^verbatim>\<open>validate_path_components\<close>: the first error it returns\<close>
  "check_segments [] = None"
| "check_segments (segment # rest) =
     (if segment = [] then Some EmptySegment
      else if str_len segment > MAX_SEGMENT_LENGTH then Some SegmentTooLong
      else if \<not> is_valid_segment segment then Some InvalidCharacter
      else check_segments rest)"

definition validate_path_components :: "string \<Rightarrow> address_parse_error + string list" where
  "validate_path_components path0 =
     (let path = trim_matches (\<lambda>c. c = CHR ''/'') path0 in
        if str_len path > MAX_PATH_LENGTH then Inl PathTooLong
        else if path = [] then Inl MissingNamespace
        else
          let segs = map trim (split_on (CHR ''/'') path) in
            (case check_segments segs of
               Some e \<Rightarrow> Inl e
             | None \<Rightarrow> if length segs < 2 then Inl MissingNamespace else Inr segs))"

definition actor_path_new :: "string \<Rightarrow> address_parse_error + actor_path" where
  "actor_path_new path =
     (case validate_path_components path of
        Inl e \<Rightarrow> Inl e
      | Inr segs \<Rightarrow>
          if hd segs \<in> set SYSTEM_NAMESPACES then Inl ReservedNamespace
          else Inr \<lparr>segments = segs\<rparr>)"

definition actor_path_new_system :: "string \<Rightarrow> address_parse_error + actor_path" where
  "actor_path_new_system path =
     (case validate_path_components path of
        Inl e \<Rightarrow> Inl e
      | Inr segs \<Rightarrow> Inr \<lparr>segments = segs\<rparr>)"

text \<open>Indexing an empty segment list panics: the value \<open>None\<close>.\<close>

definition path_namespace :: "actor_path \<Rightarrow> string option" where
  "path_namespace p = (case segments p of [] \<Rightarrow> None | s # _ \<Rightarrow> Some s)"

definition path_name :: "actor_path \<Rightarrow> string option" where
  "path_name p = (if segments p = [] then None else Some (last (segments p)))"

definition path_as_str :: "actor_path \<Rightarrow> string" where
  "path_as_str p = join_with (CHR ''/'') (segments p)"

definition path_is_system :: "actor_path \<Rightarrow> bool option" where
  "path_is_system p = map_option (\<lambda>n. n \<in> set SYSTEM_NAMESPACES) (path_namespace p)"

definition path_parent :: "actor_path \<Rightarrow> string option" where
  "path_parent p =
     (if length (segments p) > 2 then Some (join_with (CHR ''/'') (butlast (segments p)))
      else None)"

definition path_child :: "actor_path \<Rightarrow> string \<Rightarrow> address_parse_error + actor_path" where
  "path_child p name =
     (if \<not> is_valid_segment name then Inl InvalidCharacter
      else Inr \<lparr>segments = segments p @ [name]\<rparr>)"

subsection \<open>Addresses\<close>

datatype actor_address =
    Named actor_path "node_id option"
  | Global actor_id

definition parse_u128 :: "string \<Rightarrow> u128 option" where
  "parse_u128 s = map_option of_nat (parse_uint (2 ^ 128) s)"

definition parse_u64 :: "string \<Rightarrow> u64 option" where
  "parse_u64 s = map_option of_nat (parse_uint (2 ^ 64) s)"

definition address_parse ::
  "(string \<Rightarrow> u128 option) \<Rightarrow> u128 \<Rightarrow> string \<Rightarrow> address_parse_error + actor_address" where
  \<comment> \<open>\<open>uuid_parse\<close> is \<^verbatim>\<open>Uuid::parse_str\<close> followed by \<^verbatim>\<open>as_u128\<close>; \<open>fresh\<close> the value of \<^verbatim>\<open>new_v4\<close>\<close>
  "address_parse uuid_parse fresh uri =
     (case strip_prefix ''actor://'' uri of
        None \<Rightarrow> Inl InvalidScheme
      | Some rest \<Rightarrow>
          (case strip_prefix ''/'' rest of
             Some path_part \<Rightarrow>
               if path_part = [] then Inl MissingNamespace
               else
                 (case rsplit_once (CHR ''@'') path_part of
                    Some (path, node) \<Rightarrow>
                      (case (case uuid_parse node of Some u \<Rightarrow> Some u | None \<Rightarrow> parse_u128 node) of
                         None \<Rightarrow> Inl InvalidFormat
                       | Some nid \<Rightarrow>
                           (case actor_path_new path of
                              Inl e \<Rightarrow> Inl e
                            | Inr p \<Rightarrow> Inr (Named p (Some nid))))
                  | None \<Rightarrow>
                      (case actor_path_new path_part of
                         Inl e \<Rightarrow> Inl e
                       | Inr p \<Rightarrow> Inr (Named p None)))
           | None \<Rightarrow>
               (case split_once (CHR ''/'') rest of
                  Some (node_s, actor_s) \<Rightarrow>
                    (case uuid_parse actor_s of
                       Some u \<Rightarrow> Inr (Global u)
                     | None \<Rightarrow>
                         if parse_u128 node_s \<noteq> None \<and> parse_u64 actor_s \<noteq> None
                         then Inr (Global fresh) else Inl InvalidFormat)
                | None \<Rightarrow>
                    (case uuid_parse rest of
                       None \<Rightarrow> Inl InvalidFormat
                     | Some u \<Rightarrow> Inr (Global u)))))"

definition address_to_uri :: "(u128 \<Rightarrow> string) \<Rightarrow> actor_address \<Rightarrow> string" where
  \<comment> \<open>\<open>uuid_simple\<close> is the \<^verbatim>\<open>Display\<close> of \<^verbatim>\<open>ActorId\<close>, \<^verbatim>\<open>Uuid::simple\<close>\<close>
  "address_to_uri uuid_simple a =
     (case a of
        Named p None \<Rightarrow> ''actor:///'' @ path_as_str p
      | Named p (Some n) \<Rightarrow> ''actor:///'' @ path_as_str p @ ''@'' @ nat_to_dec (unat n)
      | Global aid \<Rightarrow> ''actor://'' @ uuid_simple aid)"

definition address_with_instance :: "actor_address \<Rightarrow> node_id \<Rightarrow> actor_address" where
  "address_with_instance a n =
     (case a of Named p _ \<Rightarrow> Named p (Some n) | Global i \<Rightarrow> Global i)"

definition address_is_local :: "actor_address \<Rightarrow> bool" where
  "address_is_local a = (case a of Named _ _ \<Rightarrow> True | Global _ \<Rightarrow> False)"

definition address_is_named :: "actor_address \<Rightarrow> bool" where
  "address_is_named a = (case a of Named _ _ \<Rightarrow> True | Global _ \<Rightarrow> False)"

definition address_is_global :: "actor_address \<Rightarrow> bool" where
  "address_is_global a = (case a of Named _ _ \<Rightarrow> False | Global _ \<Rightarrow> True)"

definition address_path :: "actor_address \<Rightarrow> actor_path option" where
  "address_path a = (case a of Named p _ \<Rightarrow> Some p | Global _ \<Rightarrow> None)"

definition address_node_id :: "actor_address \<Rightarrow> node_id option" where
  "address_node_id a = (case a of Named _ i \<Rightarrow> i | Global _ \<Rightarrow> None)"

definition address_actor_id :: "actor_address \<Rightarrow> actor_id option" where
  "address_actor_id a = (case a of Named _ _ \<Rightarrow> None | Global i \<Rightarrow> Some i)"

subsection \<open>Well-formed paths\<close>

definition path_ok :: "actor_path \<Rightarrow> bool" where
  \<comment> \<open>the documented validation rules of \<^verbatim>\<open>ActorPath::new\<close>, the namespace check aside\<close>
  "path_ok p \<longleftrightarrow>
     2 \<le> length (segments p) \<and>
     list_all (\<lambda>s. is_valid_segment s \<and> str_len s \<le> MAX_SEGMENT_LENGTH) (segments p) \<and>
     str_len (path_as_str p) \<le> MAX_PATH_LENGTH"

lemma check_segments_None_iff:
  "check_segments ss = None \<longleftrightarrow>
     list_all (\<lambda>s. is_valid_segment s \<and> str_len s \<le> MAX_SEGMENT_LENGTH) ss"
  by (induction ss) (auto simp: is_valid_segment_def)

lemma valid_segment_chars:
  assumes "is_valid_segment s" and "c \<in> set s"
  shows "c \<noteq> CHR ''/'' \<and> c \<noteq> CHR ''@'' \<and> \<not> is_whitespace c"
  using assms
  by (auto simp: is_valid_segment_def list_all_iff is_alphanumeric_def is_whitespace_def Let_def)

lemma trim_valid_segment: "is_valid_segment s \<Longrightarrow> trim s = s"
  using valid_segment_chars by (auto simp: trim_def intro!: trim_matches_none)

lemma path_chars:
  assumes "path_ok p" and "c \<in> set (path_as_str p)"
  shows "c \<noteq> CHR ''@''"
proof -
  have "c = CHR ''/'' \<or> (\<exists>s \<in> set (segments p). c \<in> set s)"
    using assms(2) set_join_with [of "CHR ''/''" "segments p"] by (auto simp: path_as_str_def)
  then show ?thesis
    using assms(1) valid_segment_chars by (fastforce simp: path_ok_def list_all_iff)
qed

lemma hd_join_with: "ss \<noteq> [] \<Longrightarrow> hd ss \<noteq> [] \<Longrightarrow> hd (join_with c ss) = hd (hd ss)"
  by (induction c ss rule: join_with.induct) auto

lemma last_join_with: "ss \<noteq> [] \<Longrightarrow> last ss \<noteq> [] \<Longrightarrow> last (join_with c ss) = last (last ss)"
  by (induction c ss rule: join_with.induct) (auto simp: join_with_eq_Nil_iff)

lemma path_ok_segment:
  "path_ok p \<Longrightarrow> s \<in> set (segments p) \<Longrightarrow> is_valid_segment s"
  by (auto simp: path_ok_def list_all_iff)

lemma path_ok_ends:
  assumes "path_ok p"
  shows "path_as_str p \<noteq> []" and "hd (path_as_str p) \<noteq> CHR ''/''"
    and "last (path_as_str p) \<noteq> CHR ''/''"
proof -
  have ne: "segments p \<noteq> []" using assms by (auto simp: path_ok_def)
  then have h: "is_valid_segment (hd (segments p))" and l: "is_valid_segment (last (segments p))"
    using assms by (auto intro: path_ok_segment)
  then have hne: "hd (segments p) \<noteq> []" and lne: "last (segments p) \<noteq> []"
    by (auto simp: is_valid_segment_def)
  show "path_as_str p \<noteq> []"
    using ne hne by (auto simp: path_as_str_def join_with_eq_Nil_iff)
  show "hd (path_as_str p) \<noteq> CHR ''/''"
    using valid_segment_chars [OF h] hne ne by (auto simp: path_as_str_def hd_join_with)
  show "last (path_as_str p) \<noteq> CHR ''/''"
    using valid_segment_chars [OF l] lne ne by (auto simp: path_as_str_def last_join_with)
qed

lemma validate_as_str: "path_ok p \<Longrightarrow> validate_path_components (path_as_str p) = Inr (segments p)"
proof -
  assume ok: "path_ok p"
  let ?c = "CHR ''/''"
  have trimmed: "trim_matches (\<lambda>c. c = ?c) (path_as_str p) = path_as_str p"
    using path_ok_ends [OF ok] by (intro trim_matches_id) auto
  have "split_on ?c (path_as_str p) = segments p"
    unfolding path_as_str_def
  proof (rule split_join)
    show "segments p \<noteq> []" using ok by (auto simp: path_ok_def)
    show "\<forall>s \<in> set (segments p). ?c \<notin> set s"
      using ok path_ok_segment valid_segment_chars by blast
  qed
  moreover have "map trim (segments p) = segments p"
    using ok path_ok_segment trim_valid_segment by (intro map_idI) blast
  moreover have "check_segments (segments p) = None"
    using ok by (simp add: check_segments_None_iff path_ok_def)
  ultimately show ?thesis
    using ok path_ok_ends(1) [OF ok] trimmed
    by (auto simp: validate_path_components_def Let_def path_ok_def)
qed

lemma str_len_dropWhile: "str_len (dropWhile P s) \<le> str_len s"
  by (induction s) (auto simp: str_len_def)

lemma str_len_rev [simp]: "str_len (rev s) = str_len s"
  by (simp add: str_len_def rev_map [symmetric] sum_list_rev)

lemma str_len_trim: "str_len (trim s) \<le> str_len s"
  unfolding trim_def trim_matches_def
  by (metis str_len_dropWhile str_len_rev order_trans)

lemma str_len_join_map_trim: "str_len (join_with c (map trim ss)) \<le> str_len (join_with c ss)"
proof (induction c ss rule: join_with.induct)
  case (3 c s t ss)
  then show ?case using str_len_trim [of s] by (simp add: str_len_def)
qed (simp_all add: str_len_trim)

lemma validate_path_ok:
  assumes "validate_path_components path = Inr segs"
  shows "path_ok \<lparr>segments = segs\<rparr>"
proof -
  define q where "q = trim_matches (\<lambda>c. c = CHR ''/'') path"
  have "str_len q \<le> MAX_PATH_LENGTH"
    and segs: "segs = map trim (split_on (CHR ''/'') q)"
    and "check_segments segs = None" and "2 \<le> length segs"
    using assms unfolding validate_path_components_def q_def Let_def
    by (auto split: if_splits option.splits)
  moreover have "str_len (join_with (CHR ''/'') segs) \<le> str_len q"
    using str_len_join_map_trim [of "CHR ''/''" "split_on (CHR ''/'') q"] by (simp add: segs join_split)
  ultimately show ?thesis
    by (simp add: path_ok_def path_as_str_def check_segments_None_iff)
qed

lemma actor_path_new_iff:
  "actor_path_new (path_as_str p) = Inr p"
  if "path_ok p" and "hd (segments p) \<notin> set SYSTEM_NAMESPACES"
  using that by (simp add: actor_path_new_def validate_as_str)

lemma actor_path_new_ok:
  "actor_path_new s = Inr p \<Longrightarrow> path_ok p \<and> hd (segments p) \<notin> set SYSTEM_NAMESPACES"
  by (auto simp: actor_path_new_def dest: validate_path_ok split: sum.splits if_splits)

subsection \<open>A concrete UUID format\<close>

text \<open>
  The simple format of a UUID (32 hexadecimal digits), as a concrete function: it
  shows that what is asked of the UUID library can hold.
\<close>

definition hex_char :: "nat \<Rightarrow> char" where
  "hex_char d = (if d < 10 then char_of (48 + d) else char_of (87 + d))"

definition hex_value :: "char \<Rightarrow> nat option" where
  "hex_value c =
     (let n = of_char c in
        if 48 \<le> n \<and> n \<le> 57 then Some (n - 48)
        else if 97 \<le> n \<and> n \<le> 102 then Some (n - 87)
        else if 65 \<le> n \<and> n \<le> 70 then Some (n - 55) else None)"

fun hex_digits :: "nat \<Rightarrow> nat \<Rightarrow> string" where
  "hex_digits 0 n = []"
| "hex_digits (Suc k) n = hex_digits k (n div 16) @ [hex_char (n mod 16)]"

fun hex_parse :: "nat \<Rightarrow> string \<Rightarrow> nat option" where
  "hex_parse acc [] = Some acc"
| "hex_parse acc (c # cs) =
     (case hex_value c of None \<Rightarrow> None | Some d \<Rightarrow> hex_parse (acc * 16 + d) cs)"

definition simple_uuid :: "u128 \<Rightarrow> string" where
  "simple_uuid n = hex_digits 32 (unat n)"

definition parse_simple_uuid :: "string \<Rightarrow> u128 option" where
  "parse_simple_uuid s =
     (if length s = 32 then map_option of_nat (hex_parse 0 s) else None)"

lemma hex_value_hex_char: "d < 16 \<Longrightarrow> hex_value (hex_char d) = Some d"
  by (auto simp: hex_value_def hex_char_def Let_def)

lemma hex_parse_append:
  "hex_parse acc (xs @ ys) = Option.bind (hex_parse acc xs) (\<lambda>a. hex_parse a ys)"
  by (induction xs arbitrary: acc) (auto split: option.split)

lemma hex_parse_digits: "hex_parse 0 (hex_digits k n) = Some (n mod 16 ^ k)"
proof (induction k arbitrary: n)
  case (Suc k)
  have "n mod 16 ^ Suc k = n div 16 mod 16 ^ k * 16 + n mod 16"
    by (simp add: mod_mult2_eq mult.commute)
  then show ?case by (simp add: hex_parse_append Suc hex_value_hex_char)
qed simp

lemma length_hex_digits [simp]: "length (hex_digits k n) = k"
  by (induction k arbitrary: n) auto

lemma parse_simple_uuid_roundtrip: "parse_simple_uuid (simple_uuid n) = Some n"
proof -
  have "unat n < 2 ^ 128" using unsigned_less [of n, where 'a = nat] by simp
  then show ?thesis
    by (simp add: parse_simple_uuid_def simple_uuid_def hex_parse_digits)
qed

lemma hex_digits_no_slash: "CHR ''/'' \<notin> set (hex_digits k n)"
proof (induction k arbitrary: n)
  case (Suc k)
  have "hex_char (n mod 16) \<noteq> CHR ''/''"
    using hex_value_hex_char [of "n mod 16"] by (auto simp: hex_value_def)
  with Suc show ?case by simp
qed simp

subsection \<open>Properties\<close>

text \<open>
  A path \<^verbatim>\<open>ActorPath::new\<close> accepts satisfies every documented rule (at least
  two segments, each valid and at most 64 bytes, at most 256 bytes in all, no reserved
  namespace), its namespace and name can be read without a panic, and printing it with
  \<^verbatim>\<open>as_str\<close> and parsing the result gives the same path again.
\<close>

theorem actor_path_new_roundtrip:
  assumes "actor_path_new s = Inr p"
  shows "path_ok p \<and> path_is_system p = Some False \<and> path_name p \<noteq> None \<and>
         actor_path_new (path_as_str p) = Inr p"
proof -
  from actor_path_new_ok [OF assms]
  have ok: "path_ok p" and ns: "hd (segments p) \<notin> set SYSTEM_NAMESPACES" by auto
  have "segments p \<noteq> []" using ok by (auto simp: path_ok_def)
  then have "path_is_system p = Some False" and "path_name p \<noteq> None"
    using ns by (auto simp: path_is_system_def path_namespace_def path_name_def split: list.split)
  then show ?thesis using ok actor_path_new_iff [OF ok ns] by simp
qed

lemma actor_path_new_example:
  "actor_path_new ''/services/llm /router/'' = Inr \<lparr>segments = [''services'', ''llm'', ''router'']\<rparr>"
  by code_simp



text \<open>
  The decimal form \<^verbatim>\<open>to_uri\<close> prints for an instance is read as a hexadecimal UUID
  when it has 32 digits, because the parser tries the UUID format first: whatever UUID
  library reads that string as a value other than the decimal one, the address that
  comes back names another node.
\<close>

theorem instance_uri_clash:
  assumes "path_ok p" and "hd (segments p) \<notin> set SYSTEM_NAMESPACES"
    and "uuid_parse (nat_to_dec (unat n)) = Some m" and "m \<noteq> n"
  shows "address_parse uuid_parse fresh (address_to_uri uuid_simple (Named p (Some n))) =
         Inr (Named p (Some m)) \<and> Named p (Some m) \<noteq> Named p (Some n)"
proof -
  let ?d = "nat_to_dec (unat n)"
  have "CHR ''@'' \<notin> set ?d" using nat_to_dec_digits [of "unat n"] by (auto simp: is_digit_def)
  then have "rsplit_once (CHR ''@'') (path_as_str p @ CHR ''@'' # ?d) = Some (path_as_str p, ?d)"
    by (rule rsplit_once_append)
  then show ?thesis
    using assms actor_path_new_iff [OF assms(1,2)]
    by (simp add: address_parse_def address_to_uri_def strip_prefix_def)
qed

text \<open>
  \<^verbatim>\<open>child\<close> checks the characters of the new segment and nothing else. From a valid
  path and a valid name it yields a path with the new name last; that path satisfies the
  documented rules exactly when the name fits in a segment and the whole in a path, and
  when it does not, parsing its printed form is an error.
\<close>

theorem path_child_limits:
  assumes "path_ok p" and "is_valid_segment name"
  shows "\<exists>q. path_child p name = Inr q \<and> path_name q = Some name \<and>
           (path_ok q \<longleftrightarrow> str_len name \<le> MAX_SEGMENT_LENGTH \<and>
              str_len (path_as_str p) + 1 + str_len name \<le> MAX_PATH_LENGTH) \<and>
           (\<not> path_ok q \<longrightarrow> actor_path_new (path_as_str q) \<noteq> Inr q)"
proof -
  let ?q = "\<lparr>segments = segments p @ [name]\<rparr>"
  have ne: "segments p \<noteq> []" using assms(1) by (auto simp: path_ok_def)
  then have "path_as_str ?q = path_as_str p @ CHR ''/'' # name"
    by (simp add: path_as_str_def join_with_snoc)
  then have len: "str_len (path_as_str ?q) = str_len (path_as_str p) + 1 + str_len name"
    by (simp add: str_len_def utf8_len_def)
  have "path_ok ?q \<longleftrightarrow> str_len name \<le> MAX_SEGMENT_LENGTH \<and>
              str_len (path_as_str p) + 1 + str_len name \<le> MAX_PATH_LENGTH"
    using assms len by (auto simp: path_ok_def)
  moreover have "\<not> path_ok ?q \<Longrightarrow> actor_path_new (path_as_str ?q) \<noteq> Inr ?q"
    using actor_path_new_ok by blast
  moreover have "path_child p name = Inr ?q" and "path_name ?q = Some name"
    using assms(2) by (auto simp: path_child_def path_name_def)
  ultimately show ?thesis by blast
qed

end
