(* ===== verification/Member.thy ===== *)
theory Member
  imports Address "HOL-Library.Product_Lexorder"
begin

text \<open>
  The data of the cluster layer, \<^verbatim>\<open>cluster/member.rs\<close>: node and member status, node
  records with their epochs, and the registration records of named actors with their
  merge. The locale \<open>superseding\<close> is the contract of versioned records: the client's
  facts about last-writer merges are proved there once and reach the model through its
  interpretation on \<^verbatim>\<open>ClusterNode::supersedes\<close>.
\<close>

subsection \<open>Socket addresses\<close>

datatype ip_addr = V4 u32 | V6 u128

datatype socket_addr =
    SockV4 u32 u16
  | SockV6 u128 u16 u32 u32  \<comment> \<open>address, port, flow info, scope id\<close>

fun sa_ip :: "socket_addr \<Rightarrow> ip_addr" where
  "sa_ip (SockV4 a _) = V4 a"
| "sa_ip (SockV6 a _ _ _) = V6 a"

fun sa_port :: "socket_addr \<Rightarrow> u16" where
  "sa_port (SockV4 _ p) = p"
| "sa_port (SockV6 _ p _ _) = p"

fun sa_new :: "ip_addr \<Rightarrow> u16 \<Rightarrow> socket_addr" where
  "sa_new (V4 a) p = SockV4 a p"
| "sa_new (V6 a) p = SockV6 a p 0 0"

fun is_unspecified :: "ip_addr \<Rightarrow> bool" where
  "is_unspecified (V4 a) = (a = 0)"
| "is_unspecified (V6 a) = (a = 0)"

subsection \<open>Cluster nodes\<close>

datatype node_status = Online | PFail | Fail | Handshake | Tombstone

fun status_rank :: "node_status \<Rightarrow> nat" where
  \<comment> \<open>the discriminants the derived \<^verbatim>\<open>Ord\<close> compares\<close>
  "status_rank Online = 0"
| "status_rank PFail = 1"
| "status_rank Fail = 2"
| "status_rank Handshake = 3"
| "status_rank Tombstone = 4"

lemma status_rank_inject [simp]: "status_rank a = status_rank b \<longleftrightarrow> a = b"
  by (cases a; cases b) auto

instantiation node_status :: linorder
begin

definition less_eq_node_status :: "node_status \<Rightarrow> node_status \<Rightarrow> bool" where
  "a \<le> b \<longleftrightarrow> status_rank a \<le> status_rank b"

definition less_node_status :: "node_status \<Rightarrow> node_status \<Rightarrow> bool" where
  "a < b \<longleftrightarrow> status_rank a < status_rank b"

instance
  by standard (auto simp: less_eq_node_status_def less_node_status_def)

end

lemmas node_status_order = less_eq_node_status_def less_node_status_def

definition status_is_online :: "node_status \<Rightarrow> bool" where
  "status_is_online s \<longleftrightarrow> s = Online"

definition status_is_failed :: "node_status \<Rightarrow> bool" where
  "status_is_failed s \<longleftrightarrow> s = PFail \<or> s = Fail"

definition status_is_tombstoned :: "node_status \<Rightarrow> bool" where
  "status_is_tombstoned s \<longleftrightarrow> s = Tombstone"

definition can_recover :: "node_status \<Rightarrow> bool" where
  "can_recover s \<longleftrightarrow> s = PFail \<or> s = Fail \<or> s = Tombstone"

record cluster_node =
  cn_node_id :: node_id
  cn_addr :: socket_addr
  cn_status :: node_status
  cn_epoch :: u64
  cn_last_seen :: u64

definition cluster_node_new :: "node_id \<Rightarrow> socket_addr \<Rightarrow> u64 \<Rightarrow> u64 \<Rightarrow> cluster_node" where
  \<comment> \<open>the last argument is the wall clock in milliseconds\<close>
  "cluster_node_new nid a e now =
     \<lparr>cn_node_id = nid, cn_addr = a, cn_status = Online, cn_epoch = e, cn_last_seen = now\<rparr>"

definition cluster_node_supersedes :: "cluster_node \<Rightarrow> cluster_node \<Rightarrow> bool" where
  "cluster_node_supersedes self other =
     (if cn_epoch self \<noteq> cn_epoch other then cn_epoch self > cn_epoch other
      else cn_status self > cn_status other)"

record failure_info =
  fi_node_id :: node_id
  fi_status :: node_status
  fi_epoch :: u64
  fi_reported_by :: node_id

subsection \<open>Members\<close>

datatype member_status = Alive | Suspect | Dead | Leaving

definition member_is_alive :: "member_status \<Rightarrow> bool" where
  "member_is_alive s \<longleftrightarrow> s = Alive"

definition member_is_reachable :: "member_status \<Rightarrow> bool" where
  "member_is_reachable s \<longleftrightarrow> s = Alive \<or> s = Suspect"

record member_info =
  mi_node_id :: node_id
  mi_addr :: socket_addr
  mi_gossip_addr :: socket_addr
  mi_status :: member_status
  mi_incarnation :: u64
  mi_last_update :: "instant option"

definition member_new :: "node_id \<Rightarrow> socket_addr \<Rightarrow> socket_addr \<Rightarrow> instant \<Rightarrow> member_info" where
  "member_new nid a g now =
     \<lparr>mi_node_id = nid, mi_addr = a, mi_gossip_addr = g, mi_status = Alive,
      mi_incarnation = 0, mi_last_update = Some now\<rparr>"

definition member_refute :: "instant \<Rightarrow> member_info \<Rightarrow> member_info" where
  "member_refute now m =
     m\<lparr>mi_incarnation := mi_incarnation m + 1, mi_status := Alive, mi_last_update := Some now\<rparr>"

definition member_suspect :: "instant \<Rightarrow> member_info \<Rightarrow> member_info" where
  "member_suspect now m =
     (if mi_status m = Alive then m\<lparr>mi_status := Suspect, mi_last_update := Some now\<rparr> else m)"

definition member_mark_dead :: "instant \<Rightarrow> member_info \<Rightarrow> member_info" where
  "member_mark_dead now m = m\<lparr>mi_status := Dead, mi_last_update := Some now\<rparr>"

definition member_supersedes :: "member_info \<Rightarrow> member_info \<Rightarrow> bool" where
  "member_supersedes self other =
     (if mi_incarnation self \<noteq> mi_incarnation other
      then mi_incarnation self > mi_incarnation other
      else mi_status self = Dead \<or> (mi_status self = Suspect \<and> mi_status other = Alive))"

definition member_eq :: "member_info \<Rightarrow> member_info \<Rightarrow> bool" where
  "member_eq a b \<longleftrightarrow> mi_node_id a = mi_node_id b"

record actor_location =
  al_actor_id :: actor_id
  al_node_id :: node_id
  al_version :: u64

definition actor_location_new :: "actor_id \<Rightarrow> node_id \<Rightarrow> actor_location" where
  "actor_location_new aid nid = \<lparr>al_actor_id = aid, al_node_id = nid, al_version = 0\<rparr>"

subsection \<open>Named actors\<close>

type_synonym metadata = "(string, string) hash_map"

record named_actor_instance =
  ni_node_id :: node_id
  ni_actor_id :: actor_id
  ni_metadata :: metadata

definition instance_new :: "node_id \<Rightarrow> actor_id \<Rightarrow> named_actor_instance" where
  "instance_new nid aid = \<lparr>ni_node_id = nid, ni_actor_id = aid, ni_metadata = []\<rparr>"

definition instance_with_metadata ::
  "node_id \<Rightarrow> actor_id \<Rightarrow> metadata \<Rightarrow> named_actor_instance" where
  "instance_with_metadata nid aid md =
     \<lparr>ni_node_id = nid, ni_actor_id = aid, ni_metadata = md\<rparr>"

record named_actor_info =
  na_path :: actor_path
  na_instances :: "(node_id, named_actor_instance) hash_map"
  na_instance_nodes :: "node_id hash_set"
  na_version :: u64

definition info_new :: "actor_path \<Rightarrow> named_actor_info" where
  "info_new p = \<lparr>na_path = p, na_instances = [], na_instance_nodes = [], na_version = 0\<rparr>"

definition info_with_instance :: "actor_path \<Rightarrow> node_id \<Rightarrow> named_actor_info" where
  "info_with_instance p nid =
     \<lparr>na_path = p, na_instances = [], na_instance_nodes = List.insert nid [], na_version = 1\<rparr>"

definition info_with_full_instance ::
  "actor_path \<Rightarrow> named_actor_instance \<Rightarrow> named_actor_info" where
  "info_with_full_instance p i =
     \<lparr>na_path = p, na_instances = hm_insert (ni_node_id i) i [],
      na_instance_nodes = List.insert (ni_node_id i) [], na_version = 1\<rparr>"

definition add_instance :: "node_id \<Rightarrow> named_actor_info \<Rightarrow> named_actor_info" where
  \<comment> \<open>\<^verbatim>\<open>HashSet::insert\<close> is true when the value was not there\<close>
  "add_instance nid info =
     (let new = nid \<notin> set (na_instance_nodes info);
          info' = info\<lparr>na_instance_nodes := List.insert nid (na_instance_nodes info)\<rparr>
      in if new then info'\<lparr>na_version := na_version info' + 1\<rparr> else info')"

definition add_full_instance :: "named_actor_instance \<Rightarrow> named_actor_info \<Rightarrow> named_actor_info" where
  "add_full_instance i info =
     info\<lparr>na_instance_nodes := List.insert (ni_node_id i) (na_instance_nodes info),
          na_instances := hm_insert (ni_node_id i) i (na_instances info),
          na_version := na_version info + 1\<rparr>"

definition remove_instance :: "node_id \<Rightarrow> named_actor_info \<Rightarrow> bool \<times> named_actor_info" where
  "remove_instance nid info =
     (let removed_node = nid \<in> set (na_instance_nodes info);
          removed_instance = hm_get (na_instances info) nid \<noteq> None;
          info' = info\<lparr>na_instance_nodes := removeAll nid (na_instance_nodes info),
                       na_instances := hm_remove nid (na_instances info)\<rparr>
      in if removed_node \<or> removed_instance
         then (True, info'\<lparr>na_version := na_version info' + 1\<rparr>) else (False, info'))"

definition info_is_empty :: "named_actor_info \<Rightarrow> bool" where
  "info_is_empty info \<longleftrightarrow> na_instance_nodes info = [] \<and> na_instances info = []"

definition instance_count :: "named_actor_info \<Rightarrow> nat" where
  "instance_count info = length (na_instance_nodes info)"

definition info_get_instance :: "node_id \<Rightarrow> named_actor_info \<Rightarrow> named_actor_instance option" where
  "info_get_instance nid info = hm_get (na_instances info) nid"

definition info_merge :: "named_actor_info \<Rightarrow> named_actor_info \<Rightarrow> named_actor_info" where
  "info_merge self other =
     self\<lparr>na_instance_nodes := fold List.insert (na_instance_nodes other) (na_instance_nodes self),
          na_instances := fold (\<lambda>(k, i). hm_insert k i) (na_instances other) (na_instances self),
          na_version := max (na_version self) (na_version other) + 1\<rparr>"

definition select_instance ::
  "(node_id list \<Rightarrow> node_id option) \<Rightarrow> named_actor_info \<Rightarrow> node_id option" where
  \<comment> \<open>\<open>pick\<close> is \<^verbatim>\<open>IteratorRandom::choose\<close> of the random library\<close>
  "select_instance pick info = pick (na_instance_nodes info)"

subsection \<open>Versioned records\<close>

text \<open>
  A record carries a version (\<open>ver\<close>), \<open>sup a b\<close> says that \<open>a\<close> replaces \<open>b\<close>, and the
  contract is that this compares versions. Everything a last-writer merge relies on
  follows: the order laws, and that merging a collection of updates leaves the highest
  version whatever the order they arrive in.
\<close>

locale superseding =
  fixes ver :: "'n \<Rightarrow> 'v::linorder"
    and sup :: "'n \<Rightarrow> 'n \<Rightarrow> bool"
  assumes sup_iff: "sup a b \<longleftrightarrow> ver b < ver a"
begin

lemma sup_irrefl: "\<not> sup a a"
  by (simp add: sup_iff)

lemma sup_asym: "sup a b \<Longrightarrow> \<not> sup b a"
  by (simp add: sup_iff)

lemma sup_trans: "sup a b \<Longrightarrow> sup b c \<Longrightarrow> sup a c"
  by (simp add: sup_iff)

lemma sup_total: "ver a \<noteq> ver b \<Longrightarrow> sup a b \<or> sup b a"
  by (auto simp: sup_iff)

lemma ver_merge: "ver (if sup new old then new else old) = max (ver old) (ver new)"
  by (auto simp: sup_iff max_def)

lemma ver_fold_merge:
  "ver (fold (\<lambda>new old. if sup new old then new else old) xs x) =
     Max (insert (ver x) (ver ` set xs))"
proof (induction xs arbitrary: x)
  case (Cons y xs)
  have "Max (insert (max (ver x) (ver y)) (ver ` set xs)) =
        Max (insert (ver x) (insert (ver y) (ver ` set xs)))"
    by (rule Max_insert_max) simp
  with Cons [of "if sup y x then y else x"] show ?case by (simp add: ver_merge)
qed simp

lemma fold_merge_order:
  assumes "set xs = set ys"
  shows "ver (fold (\<lambda>new old. if sup new old then new else old) xs x) =
         ver (fold (\<lambda>new old. if sup new old then new else old) ys x)"
  using assms by (simp add: ver_fold_merge)

end

definition node_version :: "cluster_node \<Rightarrow> u64 \<times> node_status" where
  "node_version n = (cn_epoch n, cn_status n)"

interpretation cnode: superseding node_version cluster_node_supersedes
  by unfold_locales (auto simp: cluster_node_supersedes_def node_version_def less_prod_def)

subsection \<open>Registration records\<close>

definition info_ok :: "named_actor_info \<Rightarrow> bool" where
  \<comment> \<open>no node twice, details only for listed nodes, each filed under its own node\<close>
  "info_ok info \<longleftrightarrow>
     distinct (na_instance_nodes info) \<and> hm_ok (na_instances info) \<and>
     (\<forall>(k, i) \<in> set (na_instances info). ni_node_id i = k \<and> k \<in> set (na_instance_nodes info))"

abbreviation info_nodes :: "named_actor_info \<Rightarrow> node_id set" where
  "info_nodes info \<equiv> set (na_instance_nodes info)"

lemma info_ok_alt:
  "info_ok info \<longleftrightarrow>
     distinct (na_instance_nodes info) \<and> hm_ok (na_instances info) \<and>
     (\<forall>k i. hm_get (na_instances info) k = Some i \<longrightarrow> ni_node_id i = k \<and> k \<in> info_nodes info)"
  by (auto simp: info_ok_def hm_in_set_iff [symmetric])

lemma set_fold_insert: "set (fold List.insert xs ys) = set xs \<union> set ys"
  by (induction xs arbitrary: ys) auto

lemma distinct_fold_insert: "distinct ys \<Longrightarrow> distinct (fold List.insert xs ys)"
  by (induction xs arbitrary: ys) auto

lemma fold_hm_insert:
  "fold (\<lambda>(k, i). hm_insert k i) xs m = fold (\<lambda>x. hm_insert (fst x) (snd x)) xs m"
  by (simp add: case_prod_unfold)

lemma hm_get_fold_insert:
  assumes "hm_ok m" and "hm_ok xs"
  shows "hm_get (fold (\<lambda>(k, i). hm_insert k i) xs m) k =
           (case hm_get xs k of Some i \<Rightarrow> Some i | None \<Rightarrow> hm_get m k)"
proof (cases "hm_get xs k")
  case None
  then have "find (\<lambda>x. fst x = k) (rev xs) = None"
    by (auto simp: find_None_iff map_of_eq_None_iff image_iff)
  with None show ?thesis unfolding fold_hm_insert by (simp add: hm.get_fold_put [OF assms(1)])
next
  case (Some i)
  with assms(2) have "(k, i) \<in> set xs" by (simp add: hm_in_set_iff)
  then have "hm_get (fold (\<lambda>x. hm_insert (fst x) (snd x)) xs m) (fst (k, i)) = Some (snd (k, i))"
    using assms by (intro hm.get_fold_put_distinct) (auto simp: hm_ok_def)
  with Some show ?thesis unfolding fold_hm_insert by simp
qed

lemma hm_ok_fold_insert [simp]: "hm_ok m \<Longrightarrow> hm_ok (fold (\<lambda>(k, i). hm_insert k i) xs m)"
  unfolding fold_hm_insert by (rule hm.ok_fold_put)

lemma hm_get_info_merge:
  assumes "info_ok a" and "info_ok b"
  shows "hm_get (na_instances (info_merge a b)) k =
           (case hm_get (na_instances b) k of Some i \<Rightarrow> Some i | None \<Rightarrow> hm_get (na_instances a) k)"
  using assms by (simp add: info_merge_def info_ok_def hm_get_fold_insert)

lemma info_ok_new [simp]: "info_ok (info_new p)"
  by (simp add: info_ok_def info_new_def)

lemma info_ok_with_instance [simp]: "info_ok (info_with_instance p n)"
  by (simp add: info_ok_def info_with_instance_def)

lemma info_ok_with_full_instance [simp]: "info_ok (info_with_full_instance p i)"
  by (simp add: info_ok_def info_with_full_instance_def hm_ok_def)

lemma info_ok_add_instance [simp]: "info_ok info \<Longrightarrow> info_ok (add_instance n info)"
  by (auto simp: info_ok_def add_instance_def Let_def)

lemma info_ok_add_full_instance [simp]: "info_ok info \<Longrightarrow> info_ok (add_full_instance i info)"
  by (auto simp: info_ok_alt add_full_instance_def hm_simps split: if_splits)

lemma info_ok_remove_instance [simp]: "info_ok info \<Longrightarrow> info_ok (snd (remove_instance n info))"
  by (auto simp: info_ok_alt remove_instance_def Let_def hm_simps distinct_removeAll split: if_splits)

lemma info_ok_merge [simp]:
  assumes "info_ok a" and "info_ok b"
  shows "info_ok (info_merge a b)"
proof -
  have "distinct (na_instance_nodes (info_merge a b))" and "hm_ok (na_instances (info_merge a b))"
    using assms by (auto simp: info_ok_def info_merge_def distinct_fold_insert)
  moreover have "ni_node_id i = k \<and> k \<in> info_nodes (info_merge a b)"
    if "hm_get (na_instances (info_merge a b)) k = Some i" for k i
    using that assms
    by (auto simp: info_ok_alt info_merge_def set_fold_insert hm_get_fold_insert
          split: option.splits)
  ultimately show ?thesis by (simp add: info_ok_alt)
qed

lemma info_nodes_ops [simp]:
  "info_nodes (info_with_instance p n) = {n}"
  "info_nodes (info_with_full_instance p i) = {ni_node_id i}"
  "info_nodes (add_instance n info) = insert n (info_nodes info)"
  "info_nodes (add_full_instance i info) = insert (ni_node_id i) (info_nodes info)"
  "info_nodes (snd (remove_instance n info)) = info_nodes info - {n}"
  "info_nodes (info_merge a b) = info_nodes a \<union> info_nodes b"
  by (auto simp: info_with_instance_def info_with_full_instance_def add_instance_def
        add_full_instance_def remove_instance_def info_merge_def set_fold_insert Let_def)

lemma info_path_ops [simp]:
  "na_path (info_with_instance p n) = p"
  "na_path (info_with_full_instance p i) = p"
  "na_path (add_instance n info) = na_path info"
  "na_path (add_full_instance i info) = na_path info"
  "na_path (snd (remove_instance n info)) = na_path info"
  "na_path (info_merge a b) = na_path a"
  by (auto simp: info_with_instance_def info_with_full_instance_def add_instance_def
        add_full_instance_def remove_instance_def info_merge_def Let_def)

lemma hm_get_remove_instance [simp]:
  "hm_get (na_instances (snd (remove_instance n info))) = (hm_get (na_instances info))(n := None)"
  by (auto simp: remove_instance_def Let_def hm_simps)

lemma info_is_empty_iff: "info_ok info \<Longrightarrow> info_is_empty info \<longleftrightarrow> info_nodes info = {}"
  by (cases "na_instances info") (auto simp: info_is_empty_def info_ok_def)

end
