(* ===== verification/Gossip.thy ===== *)
theory Gossip
  imports Member
begin

text \<open>
  The gossip cluster, \<^verbatim>\<open>cluster/gossip.rs\<close>: the shared state, the atomic updates its
  locks protect, the message handler, the registries of actors, the failure detector and
  the rounds of the background loops. Wall-clock readings are arguments (\<open>now\<close>, in
  milliseconds); the random library, the serializer and the network are fields of
  \<open>gossip_env\<close>. The calls to \<^verbatim>\<open>members_store\<close> are recorded in the state, in order.
\<close>

type_synonym bytes = "8 word list"

subsection \<open>Configuration, messages, state\<close>

record swim_config =
  ping_interval :: duration
  ping_timeout :: duration
  indirect_probes :: nat
  suspicion_timeout :: duration

definition swim_config_default :: swim_config where
  "swim_config_default =
     \<lparr>ping_interval = from_millis 500, ping_timeout = from_secs 2, indirect_probes = 3,
      suspicion_timeout = from_secs 15\<rparr>"

record gossip_config =
  gossip_interval :: duration
  fanout :: nat
  seed_probe_count :: nat
  seed_probe_interval :: duration
  seed_rejoin_interval :: "duration option"
  failure_timeout :: duration
  cleanup_grace_period :: duration
  tombstone_retention :: duration
  recovery_observation_window :: duration
  swim :: swim_config

definition gossip_config_default :: gossip_config where
  "gossip_config_default =
     \<lparr>gossip_interval = from_millis 200, fanout = 3, seed_probe_count = 3,
      seed_probe_interval = from_millis 100, seed_rejoin_interval = Some (from_secs 15),
      failure_timeout = from_secs 15, cleanup_grace_period = from_secs 60,
      tombstone_retention = from_secs 300, recovery_observation_window = from_secs 30,
      swim = swim_config_default\<rparr>"

datatype gossip_message =
    Meet node_id socket_addr u64
  | Ping node_id u64 "cluster_node list" "failure_info list" "named_actor_info list option"
  | Pong node_id u64 "cluster_node list" "failure_info list" "named_actor_info list option"
  | ActorRegistered actor_location
  | ActorUnregistered actor_id
  | NamedActorRegistered actor_path node_id "actor_id option" metadata
  | NamedActorUnregistered actor_path node_id
  | NamedActorFailed actor_path node_id string

datatype store_call =
    UpsertMember node_id socket_addr node_status u64
  | RemoveMember node_id

record cluster_state =
  cs_local_node :: node_id
  cs_local_addr :: socket_addr
  cs_nodes :: "(node_id, cluster_node) hash_map"
  cs_named :: "(string, named_actor_info) hash_map"
  cs_actors :: "(actor_id, node_id) hash_map"
  cs_seeds :: "socket_addr list"
  cs_epoch :: u64
  cs_store :: "store_call list"

record gossip_env =
  ge_shuffle_nodes :: "cluster_node list \<Rightarrow> cluster_node list"
  ge_shuffle_actors :: "named_actor_info list \<Rightarrow> named_actor_info list"
  ge_choose :: "node_id list \<Rightarrow> node_id option"
  ge_choose_multiple :: "member_info list \<Rightarrow> nat \<Rightarrow> member_info list"
  ge_serialize :: "gossip_message \<Rightarrow> bytes option"
  ge_deserialize :: "bytes \<Rightarrow> gossip_message option"

definition fix_addr :: "socket_addr \<Rightarrow> ip_addr \<Rightarrow> socket_addr" where
  "fix_addr a peer_ip = (if is_unspecified (sa_ip a) then sa_new peer_ip (sa_port a) else a)"

definition cluster_state_new :: "node_id \<Rightarrow> socket_addr \<Rightarrow> u64 \<Rightarrow> cluster_state" where
  "cluster_state_new nid a now =
     \<lparr>cs_local_node = nid, cs_local_addr = a,
      cs_nodes = hm_insert nid (cluster_node_new nid a 0 now) [],
      cs_named = [], cs_actors = [], cs_seeds = [], cs_epoch = 0, cs_store = []\<rparr>"

subsection \<open>Atomic updates of the cluster state\<close>

definition log_call :: "store_call \<Rightarrow> cluster_state \<Rightarrow> cluster_state" where
  "log_call c st = st\<lparr>cs_store := cs_store st @ [c]\<rparr>"

definition increment_epoch :: "cluster_state \<Rightarrow> u64 \<times> cluster_state" where
  "increment_epoch st = (cs_epoch st + 1, st\<lparr>cs_epoch := cs_epoch st + 1\<rparr>)"

definition get_partial_view :: "gossip_env \<Rightarrow> nat \<Rightarrow> cluster_state \<Rightarrow> cluster_node list" where
  "get_partial_view env count st =
     take count (ge_shuffle_nodes env (filter (\<lambda>n. cn_status n \<noteq> Fail) (hm_values (cs_nodes st))))"

definition get_failures :: "cluster_state \<Rightarrow> failure_info list" where
  "get_failures st =
     map (\<lambda>n. \<lparr>fi_node_id = cn_node_id n, fi_status = cn_status n, fi_epoch = cn_epoch n,
               fi_reported_by = cs_local_node st\<rparr>)
       (filter (\<lambda>n. cn_status n = PFail \<or> cn_status n = Fail) (hm_values (cs_nodes st)))"

definition get_partial_named_actors ::
  "gossip_env \<Rightarrow> nat \<Rightarrow> cluster_state \<Rightarrow> named_actor_info list" where
  "get_partial_named_actors env count st =
     take count (ge_shuffle_actors env (hm_values (cs_named st)))"

definition merge_node :: "cluster_node \<Rightarrow> socket_addr \<Rightarrow> cluster_state \<Rightarrow> cluster_state" where
  "merge_node remote peer_addr st =
     (let fixed = fix_addr (cn_addr remote) (sa_ip peer_addr);
          nid = cn_node_id remote;
          fresh = \<lparr>cn_node_id = nid, cn_addr = fixed, cn_status = cn_status remote,
                   cn_epoch = cn_epoch remote, cn_last_seen = cn_last_seen remote\<rparr>;
          upsert = UpsertMember nid fixed (cn_status remote) (cn_epoch remote)
      in case hm_get (cs_nodes st) nid of
           Some existing \<Rightarrow>
             if cn_epoch remote > cn_epoch existing \<or>
                (cn_epoch remote = cn_epoch existing \<and> cn_status remote > cn_status existing)
             then
               let st' = st\<lparr>cs_nodes := hm_insert nid fresh (cs_nodes st)\<rparr>
               in if cn_status existing \<noteq> cn_status remote then log_call upsert st' else st'
             else st
         | None \<Rightarrow> log_call upsert (st\<lparr>cs_nodes := hm_insert nid fresh (cs_nodes st)\<rparr>))"

definition handle_failure :: "failure_info \<Rightarrow> cluster_state \<Rightarrow> cluster_state" where
  "handle_failure f st =
     (case hm_get (cs_nodes st) (fi_node_id f) of
        None \<Rightarrow> st
      | Some node \<Rightarrow>
          if fi_epoch f \<ge> cn_epoch node \<and> fi_status f > cn_status node
          then log_call (UpsertMember (fi_node_id f) (cn_addr node) (fi_status f) (fi_epoch f))
                 (st\<lparr>cs_nodes := hm_insert (fi_node_id f)
                       (node\<lparr>cn_status := fi_status f, cn_epoch := fi_epoch f\<rparr>) (cs_nodes st)\<rparr>)
          else st)"

definition merge_named_actor :: "named_actor_info \<Rightarrow> cluster_state \<Rightarrow> cluster_state" where
  "merge_named_actor info st =
     (let key = path_as_str (na_path info)
      in case hm_get (cs_named st) key of
           Some existing \<Rightarrow> st\<lparr>cs_named := hm_insert key (info_merge existing info) (cs_named st)\<rparr>
         | None \<Rightarrow> st\<lparr>cs_named := hm_insert key info (cs_named st)\<rparr>)"

definition merge_named_actors :: "named_actor_info list \<Rightarrow> cluster_state \<Rightarrow> cluster_state" where
  "merge_named_actors remote st = fold merge_named_actor remote st"

definition set_status :: "node_id \<Rightarrow> node_status \<Rightarrow> cluster_state \<Rightarrow> cluster_state" where
  \<comment> \<open>the common body of the status changes: new status, next epoch, one store call\<close>
  "set_status nid s st =
     (case hm_get (cs_nodes st) nid of
        None \<Rightarrow> st
      | Some node \<Rightarrow>
          let (e, st1) = increment_epoch st
          in log_call (UpsertMember nid (cn_addr node) s e)
               (st1\<lparr>cs_nodes := hm_insert nid (node\<lparr>cn_status := s, cn_epoch := e\<rparr>) (cs_nodes st1)\<rparr>))"

definition touch_node :: "u64 \<Rightarrow> node_id \<Rightarrow> cluster_state \<Rightarrow> cluster_state" where
  "touch_node now nid st =
     (case hm_get (cs_nodes st) nid of
        None \<Rightarrow> st
      | Some node \<Rightarrow>
          let st1 = st\<lparr>cs_nodes := hm_insert nid (node\<lparr>cn_last_seen := now\<rparr>) (cs_nodes st)\<rparr>
          in if can_recover (cn_status node) then set_status nid Online st1 else st1)"

definition meet_node :: "u64 \<Rightarrow> node_id \<Rightarrow> socket_addr \<Rightarrow> u64 \<Rightarrow> cluster_state \<Rightarrow> cluster_state" where
  \<comment> \<open>the update of \<^verbatim>\<open>handle_gossip\<close> for \<^verbatim>\<open>Meet\<close>, with the address already fixed\<close>
  "meet_node now from fixed current_epoch st =
     (case hm_get (cs_nodes st) from of
        Some n \<Rightarrow>
          let e = (if cn_epoch n < current_epoch then current_epoch else cn_epoch n);
              n' = n\<lparr>cn_addr := fixed, cn_last_seen := now, cn_epoch := e\<rparr>
          in if cn_status n \<noteq> Online
             then log_call (UpsertMember from fixed Online e)
                    (st\<lparr>cs_nodes := hm_insert from (n'\<lparr>cn_status := Online\<rparr>) (cs_nodes st)\<rparr>)
             else st\<lparr>cs_nodes := hm_insert from n' (cs_nodes st)\<rparr>
      | None \<Rightarrow>
          log_call (UpsertMember from fixed Online current_epoch)
            (st\<lparr>cs_nodes := hm_insert from
                  \<lparr>cn_node_id = from, cn_addr = fixed, cn_status = Online,
                   cn_epoch = current_epoch, cn_last_seen = now\<rparr> (cs_nodes st)\<rparr>))"

definition node_to_member :: "cluster_node \<Rightarrow> member_info" where
  "node_to_member node =
     \<lparr>mi_node_id = cn_node_id node, mi_addr = cn_addr node, mi_gossip_addr = cn_addr node,
      mi_status = (case cn_status node of
          Online \<Rightarrow> Alive | Handshake \<Rightarrow> Alive | Tombstone \<Rightarrow> Dead | PFail \<Rightarrow> Suspect | Fail \<Rightarrow> Dead),
      mi_incarnation = cn_epoch node, mi_last_update = None\<rparr>"

definition register_named ::
  "actor_path \<Rightarrow> node_id \<Rightarrow> actor_id option \<Rightarrow> metadata \<Rightarrow>
   (string, named_actor_info) hash_map \<Rightarrow> (string, named_actor_info) hash_map" where
  \<comment> \<open>the entry update every registration performs\<close>
  "register_named path nid aid md named =
     (case aid of
        Some a \<Rightarrow>
          let i = instance_with_metadata nid a md
          in hm_entry (path_as_str path) (add_full_instance i) (info_with_full_instance path i) named
      | None \<Rightarrow>
          hm_entry (path_as_str path) (add_instance nid) (info_with_instance path nid) named)"

definition unregister_named ::
  "actor_path \<Rightarrow> node_id \<Rightarrow>
   (string, named_actor_info) hash_map \<Rightarrow> (string, named_actor_info) hash_map" where
  \<comment> \<open>the removal every unregistration performs\<close>
  "unregister_named path nid named =
     (let key = path_as_str path
      in case hm_get named key of
           None \<Rightarrow> named
         | Some info \<Rightarrow>
             let info' = snd (remove_instance nid info)
             in if info_is_empty info' then hm_remove key named else hm_insert key info' named)"

subsection \<open>The message handler\<close>

definition merge_view ::
  "socket_addr \<Rightarrow> cluster_node list \<Rightarrow> failure_info list \<Rightarrow> named_actor_info list option \<Rightarrow>
   cluster_state \<Rightarrow> cluster_state" where
  "merge_view peer_addr view failures named st =
     (let st1 = fold (\<lambda>n. merge_node n peer_addr) view st;
          st2 = fold handle_failure failures st1
      in case named of Some actors \<Rightarrow> merge_named_actors actors st2 | None \<Rightarrow> st2)"

definition pong :: "gossip_env \<Rightarrow> named_actor_info list \<Rightarrow> cluster_state \<Rightarrow> gossip_message" where
  "pong env named st =
     Pong (cs_local_node st) (cs_epoch st) (get_partial_view env 10 st) (get_failures st) (Some named)"

fun handle_gossip ::
  "gossip_env \<Rightarrow> u64 \<Rightarrow> gossip_message \<Rightarrow> socket_addr \<Rightarrow> cluster_state \<Rightarrow>
   gossip_message option \<times> cluster_state" where
  "handle_gossip env now (Meet from from_addr current_epoch) peer_addr st =
     (let st' = meet_node now from (fix_addr from_addr (sa_ip peer_addr)) current_epoch st
      in (Some (pong env (hm_values (cs_named st')) st'), st'))"
| "handle_gossip env now (Ping from _ view failures named) peer_addr st =
     (let st' = merge_view peer_addr view failures named (touch_node now from st)
      in (Some (pong env (get_partial_named_actors env 10 st') st'), st'))"
| "handle_gossip env now (Pong from _ view failures named) peer_addr st =
     (None, merge_view peer_addr view failures named (touch_node now from st))"
| "handle_gossip env now (ActorRegistered loc) peer_addr st =
     (None, st\<lparr>cs_actors := hm_insert (al_actor_id loc) (al_node_id loc) (cs_actors st)\<rparr>)"
| "handle_gossip env now (ActorUnregistered aid) peer_addr st =
     (None, st\<lparr>cs_actors := hm_remove aid (cs_actors st)\<rparr>)"
| "handle_gossip env now (NamedActorRegistered path nid aid md) peer_addr st =
     (None, st\<lparr>cs_named := register_named path nid aid md (cs_named st)\<rparr>)"
| "handle_gossip env now (NamedActorUnregistered path nid) peer_addr st =
     (None, st\<lparr>cs_named := unregister_named path nid (cs_named st)\<rparr>)"
| "handle_gossip env now (NamedActorFailed path nid reason) peer_addr st =
     (None, st\<lparr>cs_named := unregister_named path nid (cs_named st)\<rparr>)"

subsection \<open>Members and lookups\<close>

definition all_members :: "cluster_state \<Rightarrow> member_info list" where
  "all_members st = map node_to_member (hm_values (cs_nodes st))"

definition alive_members :: "cluster_state \<Rightarrow> member_info list" where
  "alive_members st =
     map node_to_member
       (filter (\<lambda>n. cn_status n = Online \<and> cn_node_id n \<noteq> cs_local_node st) (hm_values (cs_nodes st)))"

definition get_member :: "node_id \<Rightarrow> cluster_state \<Rightarrow> member_info option" where
  "get_member nid st = map_option node_to_member (hm_get (cs_nodes st) nid)"

definition lookup_actor :: "actor_id \<Rightarrow> cluster_state \<Rightarrow> member_info option" where
  "lookup_actor aid st =
     (case hm_get (cs_actors st) aid of None \<Rightarrow> None | Some nid \<Rightarrow> get_member nid st)"

definition lookup_named_actor :: "actor_path \<Rightarrow> cluster_state \<Rightarrow> named_actor_info option" where
  "lookup_named_actor path st = hm_get (cs_named st) (path_as_str path)"

definition select_named_actor_instance ::
  "gossip_env \<Rightarrow> actor_path \<Rightarrow> cluster_state \<Rightarrow> member_info option" where
  "select_named_actor_instance env path st =
     (case lookup_named_actor path st of
        None \<Rightarrow> None
      | Some info \<Rightarrow>
          (case select_instance (ge_choose env) info of
             None \<Rightarrow> None
           | Some nid \<Rightarrow> get_member nid st))"

definition get_named_actor_instances :: "actor_path \<Rightarrow> cluster_state \<Rightarrow> member_info list" where
  "get_named_actor_instances path st =
     (case lookup_named_actor path st of
        None \<Rightarrow> []
      | Some info \<Rightarrow> List.map_filter (\<lambda>nid. get_member nid st) (na_instance_nodes info))"

definition get_named_actor_instances_detailed ::
  "actor_path \<Rightarrow> cluster_state \<Rightarrow> (member_info \<times> named_actor_instance option) list" where
  "get_named_actor_instances_detailed path st =
     (case lookup_named_actor path st of
        None \<Rightarrow> []
      | Some info \<Rightarrow>
          List.map_filter
            (\<lambda>nid. map_option (\<lambda>m. (m, hm_get (na_instances info) nid)) (get_member nid st))
            (na_instance_nodes info))"

definition all_named_actors :: "cluster_state \<Rightarrow> named_actor_info list" where
  "all_named_actors st = hm_values (cs_named st)"

subsection \<open>Registration and broadcast\<close>

type_synonym sends = "(socket_addr \<times> bytes) list"

definition broadcast :: "gossip_env \<Rightarrow> gossip_config \<Rightarrow> gossip_message \<Rightarrow> cluster_state \<Rightarrow> sends" where
  \<comment> \<open>what is sent; replies and send errors are ignored\<close>
  "broadcast env cfg msg st =
     (case ge_serialize env msg of
        None \<Rightarrow> []
      | Some payload \<Rightarrow>
          let members = alive_members st
          in map (\<lambda>m. (mi_addr m, payload))
               (ge_choose_multiple env members (min (fanout cfg) (length members))))"

definition register_actor ::
  "gossip_env \<Rightarrow> gossip_config \<Rightarrow> actor_id \<Rightarrow> cluster_state \<Rightarrow> sends \<times> cluster_state" where
  "register_actor env cfg aid st =
     (let st' = st\<lparr>cs_actors := hm_insert aid (cs_local_node st) (cs_actors st)\<rparr>
      in (broadcast env cfg (ActorRegistered (actor_location_new aid (cs_local_node st'))) st', st'))"

definition unregister_actor ::
  "gossip_env \<Rightarrow> gossip_config \<Rightarrow> actor_id \<Rightarrow> cluster_state \<Rightarrow> sends \<times> cluster_state" where
  "unregister_actor env cfg aid st =
     (let st' = st\<lparr>cs_actors := hm_remove aid (cs_actors st)\<rparr>
      in (broadcast env cfg (ActorUnregistered aid) st', st'))"

definition register_named_actor_full ::
  "gossip_env \<Rightarrow> gossip_config \<Rightarrow> actor_path \<Rightarrow> actor_id \<Rightarrow> metadata \<Rightarrow> cluster_state \<Rightarrow>
   sends \<times> cluster_state" where
  "register_named_actor_full env cfg path aid md st =
     (let st' = st\<lparr>cs_named := register_named path (cs_local_node st) (Some aid) md (cs_named st)\<rparr>
      in (broadcast env cfg (NamedActorRegistered path (cs_local_node st') (Some aid) md) st', st'))"

definition register_named_actor ::
  "gossip_env \<Rightarrow> gossip_config \<Rightarrow> actor_path \<Rightarrow> cluster_state \<Rightarrow> sends \<times> cluster_state" where
  "register_named_actor env cfg path st =
     (let st' = st\<lparr>cs_named := register_named path (cs_local_node st) None [] (cs_named st)\<rparr>
      in (broadcast env cfg (NamedActorRegistered path (cs_local_node st') None []) st', st'))"

definition unregister_named_actor ::
  "gossip_env \<Rightarrow> gossip_config \<Rightarrow> actor_path \<Rightarrow> cluster_state \<Rightarrow> sends \<times> cluster_state" where
  "unregister_named_actor env cfg path st =
     (let local = cs_local_node st;
          aid = (case lookup_named_actor path st of
                   None \<Rightarrow> None
                 | Some info \<Rightarrow> map_option ni_actor_id (hm_get (na_instances info) local));
          st1 = st\<lparr>cs_named := unregister_named path local (cs_named st)\<rparr>;
          (out, st2) = (case aid of
                          Some a \<Rightarrow> unregister_actor env cfg a st1
                        | None \<Rightarrow> ([], st1))
      in (out @ broadcast env cfg (NamedActorUnregistered path local) st2, st2))"

definition broadcast_named_actor_failed ::
  "gossip_env \<Rightarrow> gossip_config \<Rightarrow> actor_path \<Rightarrow> string \<Rightarrow> cluster_state \<Rightarrow> sends" where
  \<comment> \<open>the reason is the \<^verbatim>\<open>Display\<close> of the stop reason\<close>
  "broadcast_named_actor_failed env cfg path reason st =
     broadcast env cfg (NamedActorFailed path (cs_local_node st) reason) st"

subsection \<open>Joining and the gossip rounds\<close>

type_synonym network = "nat \<Rightarrow> socket_addr \<Rightarrow> bytes \<Rightarrow> bytes option"
  \<comment> \<open>the reply to a payload, by the number of the attempt; \<open>None\<close> for no or a failed reply\<close>

definition probe_seed ::
  "gossip_env \<Rightarrow> network \<Rightarrow> u64 \<Rightarrow> nat \<Rightarrow> bytes \<Rightarrow> socket_addr \<Rightarrow> cluster_state \<Rightarrow> cluster_state" where
  "probe_seed env net now probe payload a st =
     (case net probe a payload of
        None \<Rightarrow> st
      | Some resp \<Rightarrow>
          (case ge_deserialize env resp of
             None \<Rightarrow> st
           | Some msg \<Rightarrow> snd (handle_gossip env now msg a st)))"

fun probe_loop ::
  "gossip_env \<Rightarrow> gossip_config \<Rightarrow> network \<Rightarrow> (nat \<Rightarrow> u64) \<Rightarrow> bytes \<Rightarrow> socket_addr list \<Rightarrow>
   nat \<Rightarrow> nat \<Rightarrow> cluster_state \<Rightarrow> cluster_state" where
  \<comment> \<open>\<open>clock\<close> is the wall clock during each probe; the last number counts the probes left\<close>
  "probe_loop env cfg net clock payload seeds probe 0 st = st"
| "probe_loop env cfg net clock payload seeds probe (Suc left) st =
     (let st' = fold (probe_seed env net (clock probe) probe payload) seeds st
      in if length (cs_nodes st') \<ge> fanout cfg then st'
         else probe_loop env cfg net clock payload seeds (Suc probe) left st')"

definition join ::
  "gossip_env \<Rightarrow> gossip_config \<Rightarrow> network \<Rightarrow> (nat \<Rightarrow> u64) \<Rightarrow> socket_addr list \<Rightarrow> cluster_state \<Rightarrow>
   unit option \<times> cluster_state" where
  \<comment> \<open>\<open>None\<close> is the serialization error\<close>
  "join env cfg net clock seed_addrs st =
     (if seed_addrs = [] then (Some (), st)
      else
        let st1 = st\<lparr>cs_seeds := seed_addrs\<rparr>
        in case ge_serialize env (Meet (cs_local_node st1) (cs_local_addr st1) (cs_epoch st1)) of
             None \<Rightarrow> (None, st1)
           | Some payload \<Rightarrow>
               (Some (), probe_loop env cfg net clock payload seed_addrs 0
                           (max (seed_probe_count cfg) 1) st1))"

definition absorb_pong ::
  "gossip_env \<Rightarrow> socket_addr \<Rightarrow> bytes option \<Rightarrow> cluster_state \<Rightarrow> cluster_state" where
  \<comment> \<open>what a round does with the reply of one target: only a \<^verbatim>\<open>Pong\<close> counts\<close>
  "absorb_pong env a resp st =
     (case Option.bind resp (ge_deserialize env) of
        Some (Pong _ _ view failures named) \<Rightarrow> merge_view a view failures named st
      | _ \<Rightarrow> st)"

definition ping :: "gossip_env \<Rightarrow> cluster_state \<Rightarrow> gossip_message" where
  "ping env st =
     Ping (cs_local_node st) (cs_epoch st) (get_partial_view env 10 st) (get_failures st)
       (Some (get_partial_named_actors env 10 st))"

definition gossip_round ::
  "gossip_env \<Rightarrow> gossip_config \<Rightarrow> network \<Rightarrow> cluster_state \<Rightarrow> cluster_state" where
  "gossip_round env cfg net st =
     (let online = filter (\<lambda>n. cn_status n = Online \<and> cn_node_id n \<noteq> cs_local_node st)
                     (hm_values (cs_nodes st));
          targets = take (fanout cfg) (ge_shuffle_nodes env online)
      in if online = [] then st
         else case ge_serialize env (ping env st) of
                None \<Rightarrow> st
              | Some payload \<Rightarrow>
                  fold (\<lambda>(i, t). absorb_pong env (cn_addr t) (net i (cn_addr t) payload))
                    (zip [0..<length targets] targets) st)"

definition probe_seeds :: "gossip_env \<Rightarrow> network \<Rightarrow> cluster_state \<Rightarrow> cluster_state" where
  "probe_seeds env net st =
     (if cs_seeds st = [] then st
      else case ge_serialize env (ping env st) of
             None \<Rightarrow> st
           | Some payload \<Rightarrow>
               fold (\<lambda>(i, a). absorb_pong env a (net i a payload))
                 (zip [0..<length (cs_seeds st)] (cs_seeds st)) st)"

subsection \<open>The failure detector\<close>

definition mark_pfail :: "node_id \<Rightarrow> cluster_state \<Rightarrow> cluster_state" where
  "mark_pfail nid st =
     (case hm_get (cs_nodes st) nid of
        Some node \<Rightarrow> if cn_status node = Online then set_status nid PFail st else st
      | None \<Rightarrow> st)"

definition mark_fail :: "node_id \<Rightarrow> cluster_state \<Rightarrow> cluster_state" where
  "mark_fail nid st =
     (case hm_get (cs_nodes st) nid of
        Some node \<Rightarrow> if cn_status node \<noteq> Fail then set_status nid Fail st else st
      | None \<Rightarrow> st)"

definition check_pfail_to_fail :: "gossip_config \<Rightarrow> u64 \<Rightarrow> cluster_state \<Rightarrow> cluster_state" where
  "check_pfail_to_fail cfg now st =
     fold (\<lambda>(nid, seen). \<lambda>s.
         if saturating_sub now seen > as_millis_u64 (suspicion_timeout (swim cfg))
         then mark_fail nid s else s)
       (map (\<lambda>n. (cn_node_id n, cn_last_seen n))
         (filter (\<lambda>n. cn_status n = PFail) (hm_values (cs_nodes st)))) st"

datatype verdict = Keep | ToPFail | ToFail | ToTombstone | Recover | Remove

definition node_verdict :: "gossip_config \<Rightarrow> u64 \<Rightarrow> cluster_node \<Rightarrow> verdict" where
  \<comment> \<open>the \<^verbatim>\<open>match\<close> on the status of one node other than the local one\<close>
  "node_verdict cfg now node =
     (let el = saturating_sub now (cn_last_seen node)
      in case cn_status node of
           Online \<Rightarrow> if el > as_millis_u64 (failure_timeout cfg) then ToPFail else Keep
         | PFail \<Rightarrow> if el > as_millis_u64 (suspicion_timeout (swim cfg)) then ToFail else Keep
         | Fail \<Rightarrow>
             if el \<le> as_millis_u64 (recovery_observation_window cfg) then Recover
             else if el > as_millis_u64 (cleanup_grace_period cfg) then ToTombstone else Keep
         | Tombstone \<Rightarrow>
             if el \<le> as_millis_u64 (recovery_observation_window cfg) then Recover
             else if el > as_millis_u64 (tombstone_retention cfg) then Remove else Keep
         | Handshake \<Rightarrow> Keep)"

definition nodes_with_verdict ::
  "gossip_config \<Rightarrow> u64 \<Rightarrow> verdict \<Rightarrow> cluster_state \<Rightarrow> node_id list" where
  "nodes_with_verdict cfg now v st =
     map cn_node_id
       (filter (\<lambda>n. cn_node_id n \<noteq> cs_local_node st \<and> node_verdict cfg now n = v)
         (hm_values (cs_nodes st)))"

definition change_if :: "(node_status \<Rightarrow> bool) \<Rightarrow> node_status \<Rightarrow> node_id \<Rightarrow> cluster_state \<Rightarrow> cluster_state" where
  \<comment> \<open>re-read the node under the write lock, check its status again, then change it\<close>
  "change_if ok s nid st =
     (case hm_get (cs_nodes st) nid of
        Some node \<Rightarrow> if ok (cn_status node) then set_status nid s st else st
      | None \<Rightarrow> st)"

definition tombstone_node :: "node_id \<Rightarrow> cluster_state \<Rightarrow> cluster_state" where
  "tombstone_node nid st =
     (case hm_get (cs_nodes st) nid of
        Some node \<Rightarrow>
          if cn_status node = Fail
          then (set_status nid Tombstone st)
                 \<lparr>cs_named := hm_map_values (\<lambda>info. snd (remove_instance nid info)) (cs_named st)\<rparr>
          else st
      | None \<Rightarrow> st)"

definition remove_node :: "node_id \<Rightarrow> cluster_state \<Rightarrow> cluster_state" where
  "remove_node nid st =
     (case hm_get (cs_nodes st) nid of
        Some node \<Rightarrow>
          if cn_status node = Tombstone
          then (log_call (RemoveMember nid) st)\<lparr>cs_nodes := hm_remove nid (cs_nodes st)\<rparr>
          else st
      | None \<Rightarrow> st)"

definition detect_failures :: "gossip_config \<Rightarrow> u64 \<Rightarrow> cluster_state \<Rightarrow> cluster_state" where
  "detect_failures cfg now st =
     (let pick = (\<lambda>v. nodes_with_verdict cfg now v st);
          st1 = fold (change_if can_recover Online) (pick Recover) st;
          st2 = fold (change_if (\<lambda>s. s = Online) PFail) (pick ToPFail) st1;
          st3 = fold (change_if (\<lambda>s. s = PFail) Fail) (pick ToFail) st2;
          st4 = (if pick ToTombstone = [] then st3
                 else let t = fold tombstone_node (pick ToTombstone) st3
                      in t\<lparr>cs_named := hm_retain (\<lambda>_ info. \<not> info_is_empty info) (cs_named t)\<rparr>)
      in fold remove_node (pick Remove) st4)"

end
