(* ===== verification/GossipInv.thy ===== *)
theory GossipInv
  imports Gossip "HOL-Library.Multiset"
begin

text \<open>
  Invariants of the gossip cluster. The locale \<open>gossip_invariant\<close> states what a predicate
  has to survive, one law per atomic update, and derives once that every composite
  operation keeps it: the message handler, the rounds, joining, the registrations and
  the failure detector. It is interpreted twice: for the well-formedness of the state
  and for the agreement of the membership table with the calls made to
  \<^verbatim>\<open>members_store\<close>. The step relation \<open>world_step\<close> runs several nodes that exchange
  messages, which closes the hypothesis on received messages.
\<close>

subsection \<open>What no operation changes\<close>

lemma local_log [simp]: "cs_local_node (log_call c st) = cs_local_node st"
  by (simp add: log_call_def)

lemma local_set_status [simp]: "cs_local_node (set_status nid s st) = cs_local_node st"
  by (simp add: set_status_def increment_epoch_def split: option.split)

lemma local_atomic [simp]:
  "cs_local_node (merge_node n a st) = cs_local_node st"
  "cs_local_node (handle_failure f st) = cs_local_node st"
  "cs_local_node (merge_named_actor i st) = cs_local_node st"
  "cs_local_node (touch_node now nid st) = cs_local_node st"
  "cs_local_node (meet_node now nid fixed e st) = cs_local_node st"
  "cs_local_node (change_if P s nid st) = cs_local_node st"
  "cs_local_node (tombstone_node nid st) = cs_local_node st"
  "cs_local_node (remove_node nid st) = cs_local_node st"
  by (simp_all add: merge_node_def handle_failure_def merge_named_actor_def touch_node_def
        meet_node_def change_if_def tombstone_node_def remove_node_def Let_def split: option.split)

lemma fold_preserves: "(\<And>x s. x \<in> set xs \<Longrightarrow> P s \<Longrightarrow> P (f x s)) \<Longrightarrow> P s \<Longrightarrow> P (fold f xs s)"
  by (induction xs arbitrary: s) auto

lemma fold_same: "(\<And>x s. g (f x s) = g s) \<Longrightarrow> g (fold f xs s) = g s"
  by (induction xs arbitrary: s) auto

lemma local_merge_view [simp]: "cs_local_node (merge_view a view fs named st) = cs_local_node st"
  by (simp add: merge_view_def merge_named_actors_def Let_def fold_same [of cs_local_node] split: option.split)

lemma local_handle_gossip [simp]:
  "cs_local_node (snd (handle_gossip env now msg peer st)) = cs_local_node st"
  by (cases msg) (simp_all add: Let_def)

subsection \<open>Messages a well-behaved node sends\<close>

definition info_good :: "named_actor_info \<Rightarrow> bool" where
  "info_good info \<longleftrightarrow> info_ok info \<and> \<not> info_is_empty info"

fun msg_good :: "gossip_message \<Rightarrow> bool" where
  "msg_good (Ping _ _ _ _ (Some named)) = list_all info_good named"
| "msg_good (Pong _ _ _ _ (Some named)) = list_all info_good named"
| "msg_good _ = True"

definition env_ok :: "gossip_env \<Rightarrow> bool" where
  \<comment> \<open>the random library: shuffling permutes, choosing picks members of the collection\<close>
  "env_ok env \<longleftrightarrow>
     (\<forall>ns. mset (ge_shuffle_nodes env ns) = mset ns) \<and>
     (\<forall>as. mset (ge_shuffle_actors env as) = mset as) \<and>
     (\<forall>ids. ge_choose env ids = None \<longleftrightarrow> ids = []) \<and>
     (\<forall>ids x. ge_choose env ids = Some x \<longrightarrow> x \<in> set ids) \<and>
     (\<forall>ms k. set (ge_choose_multiple env ms k) \<subseteq> set ms \<and>
             length (ge_choose_multiple env ms k) = min k (length ms))"

subsection \<open>Invariants of one node\<close>

definition purge_named :: "cluster_state \<Rightarrow> cluster_state" where
  "purge_named st = st\<lparr>cs_named := hm_retain (\<lambda>_ info. \<not> info_is_empty info) (cs_named st)\<rparr>"

locale gossip_invariant =
  fixes I :: "cluster_state \<Rightarrow> bool"
  assumes I_merge_node: "I st \<Longrightarrow> I (merge_node n a st)"
    and I_handle_failure: "I st \<Longrightarrow> I (handle_failure f st)"
    and I_merge_named: "I st \<Longrightarrow> info_good info \<Longrightarrow> I (merge_named_actor info st)"
    and I_touch: "I st \<Longrightarrow> I (touch_node now nid st)"
    and I_meet: "I st \<Longrightarrow> I (meet_node now nid fixed e st)"
    and I_seeds: "I st \<Longrightarrow> I (st\<lparr>cs_seeds := seeds\<rparr>)"
    and I_put_actor: "I st \<Longrightarrow> I (st\<lparr>cs_actors := hm_insert aid nid (cs_actors st)\<rparr>)"
    and I_del_actor: "I st \<Longrightarrow> I (st\<lparr>cs_actors := hm_remove aid (cs_actors st)\<rparr>)"
    and I_register: "I st \<Longrightarrow> I (st\<lparr>cs_named := register_named p nid i md (cs_named st)\<rparr>)"
    and I_unregister: "I st \<Longrightarrow> I (st\<lparr>cs_named := unregister_named p nid (cs_named st)\<rparr>)"
    and I_change: "I st \<Longrightarrow> I (change_if P s nid st)"
    and I_tombstone: "I st \<Longrightarrow> I (purge_named (fold tombstone_node nids st))"
    and I_remove: "I st \<Longrightarrow> nid \<noteq> cs_local_node st \<Longrightarrow> I (remove_node nid st)"
    and I_good: "I st \<Longrightarrow> list_all info_good (hm_values (cs_named st))"
begin

lemma I_merge_view:
  assumes "I st" and "\<And>as. named = Some as \<Longrightarrow> list_all info_good as"
  shows "I (merge_view a view fs named st)"
proof -
  have "I (fold handle_failure fs (fold (\<lambda>n. merge_node n a) view st))"
    using assms(1) by (intro fold_preserves [of _ I] I_merge_node I_handle_failure)
  then show ?thesis
    using assms(2)
    by (auto simp: merge_view_def merge_named_actors_def Let_def list_all_iff
          intro!: fold_preserves [of _ I] I_merge_named split: option.split)
qed

lemma I_handle_gossip:
  assumes "I st" and "msg_good msg"
  shows "I (snd (handle_gossip env now msg peer st))"
proof (cases msg)
  case (Ping src e view fs named)
  with assms show ?thesis by (cases named) (auto simp: Let_def intro!: I_merge_view I_touch)
next
  case (Pong src e view fs named)
  with assms show ?thesis by (cases named) (auto simp: Let_def intro!: I_merge_view I_touch)
qed (use assms in \<open>auto simp: Let_def
       intro: I_meet I_put_actor I_del_actor I_register I_unregister\<close>)

lemma I_absorb_pong:
  assumes "I st" and "\<And>msg. Option.bind resp (ge_deserialize env) = Some msg \<Longrightarrow> msg_good msg"
  shows "I (absorb_pong env a resp st)"
proof (cases "Option.bind resp (ge_deserialize env)")
  case None
  with assms(1) show ?thesis by (simp add: absorb_pong_def)
next
  case (Some msg)
  with assms(2) have "msg_good msg" by simp
  moreover have "list_all info_good as" if "msg = Pong f e v fs (Some as)" for f e v fs as
    using that calculation by simp
  ultimately show ?thesis
    using Some assms(1)
    by (auto simp: absorb_pong_def intro: I_merge_view split: gossip_message.split)
qed

lemma I_detect_failures:
  assumes "I st"
  shows "I (detect_failures cfg now st)"
proof -
  define pick where "pick = (\<lambda>v. nodes_with_verdict cfg now v st)"
  define st3 where "st3 =
    fold (change_if (\<lambda>s. s = PFail) Fail) (pick ToFail)
      (fold (change_if (\<lambda>s. s = Online) PFail) (pick ToPFail)
        (fold (change_if can_recover Online) (pick Recover) st))"
  define st4 where "st4 = (if pick ToTombstone = [] then st3
    else purge_named (fold tombstone_node (pick ToTombstone) st3))"
  have "I st3 \<and> cs_local_node st3 = cs_local_node st"
    using assms unfolding st3_def
    by (simp add: fold_same [of cs_local_node] fold_preserves [of _ I] I_change)
  then have "I st4 \<and> cs_local_node st4 = cs_local_node st"
    by (auto simp: st4_def purge_named_def fold_same [of cs_local_node]
          dest: I_tombstone [of _ "pick ToTombstone"])
  moreover have "\<forall>nid \<in> set (pick Remove). nid \<noteq> cs_local_node st"
    by (auto simp: pick_def nodes_with_verdict_def)
  ultimately have "I (fold remove_node (pick Remove) st4) \<and>
      cs_local_node (fold remove_node (pick Remove) st4) = cs_local_node st"
    by (intro fold_preserves [of _ "\<lambda>s. I s \<and> cs_local_node s = cs_local_node st"])
      (auto intro!: I_remove)
  then show ?thesis
    by (simp add: detect_failures_def pick_def st3_def st4_def purge_named_def Let_def cong: if_cong)
qed

lemma I_register_ops:
  assumes "I st"
  shows "I (snd (register_actor env cfg aid st))"
    and "I (snd (unregister_actor env cfg aid st))"
    and "I (snd (register_named_actor_full env cfg p aid md st))"
    and "I (snd (register_named_actor env cfg p st))"
    and "I (snd (unregister_named_actor env cfg p st))"
  using assms
  by (auto simp: register_actor_def unregister_actor_def register_named_actor_full_def
        register_named_actor_def unregister_named_actor_def Let_def
        intro: I_put_actor I_del_actor [of "st\<lparr>cs_named := unregister_named p (cs_local_node st) (cs_named st)\<rparr>", simplified]
          I_del_actor I_register I_unregister split: option.split)

lemma good_replies:
  assumes "env_ok env" and "I st" and "msg_good msg"
    and "fst (handle_gossip env now msg peer st) = Some reply"
  shows "msg_good reply"
proof -
  define st' where "st' = snd (handle_gossip env now msg peer st)"
  have "I st'" unfolding st'_def using assms by (intro I_handle_gossip)
  then have good: "list_all info_good (hm_values (cs_named st'))" by (rule I_good)
  have perm: "set (ge_shuffle_actors env as) = set as" for as
    using assms(1) by (metis env_ok_def set_mset_mset)
  have "list_all info_good (get_partial_named_actors env 10 st')"
    using good by (auto simp: get_partial_named_actors_def list_all_iff perm dest!: in_set_takeD)
  with good assms(4) show ?thesis
    by (cases msg) (auto simp: st'_def pong_def Let_def)
qed

lemma good_ping:
  assumes "env_ok env" and "I st"
  shows "msg_good (ping env st)"
proof -
  have perm: "set (ge_shuffle_actors env as) = set as" for as
    using assms(1) by (metis env_ok_def set_mset_mset)
  show ?thesis
    using I_good [OF assms(2)]
    by (auto simp: ping_def get_partial_named_actors_def list_all_iff perm dest!: in_set_takeD)
qed

end

subsection \<open>Well-formed states\<close>

definition nodes_ok :: "(node_id, cluster_node) hash_map \<Rightarrow> bool" where
  "nodes_ok m \<longleftrightarrow> hm_ok m \<and> (\<forall>k n. hm_get m k = Some n \<longrightarrow> cn_node_id n = k)"

definition named_ok :: "(string, named_actor_info) hash_map \<Rightarrow> bool" where
  "named_ok m \<longleftrightarrow>
     hm_ok m \<and> (\<forall>k i. hm_get m k = Some i \<longrightarrow> info_good i \<and> path_as_str (na_path i) = k)"

definition gossip_ok :: "cluster_state \<Rightarrow> bool" where
  "gossip_ok st \<longleftrightarrow>
     nodes_ok (cs_nodes st) \<and> hm_get (cs_nodes st) (cs_local_node st) \<noteq> None \<and>
     named_ok (cs_named st) \<and> hm_ok (cs_actors st)"

lemma nodes_ok_insert [simp]:
  "nodes_ok m \<Longrightarrow> cn_node_id n = k \<Longrightarrow> nodes_ok (hm_insert k n m)"
  by (auto simp: nodes_ok_def hm_simps)

lemma nodes_ok_remove [simp]: "nodes_ok m \<Longrightarrow> nodes_ok (hm_remove k m)"
  by (auto simp: nodes_ok_def hm_simps)

lemma nodes_ok_id: "hm_get m k = Some n \<Longrightarrow> nodes_ok m \<Longrightarrow> cn_node_id n = k"
  by (simp add: nodes_ok_def)

lemma named_ok_insert [simp]:
  "named_ok m \<Longrightarrow> info_good i \<Longrightarrow> path_as_str (na_path i) = k \<Longrightarrow> named_ok (hm_insert k i m)"
  by (auto simp: named_ok_def hm_simps)

lemma named_ok_remove [simp]: "named_ok m \<Longrightarrow> named_ok (hm_remove k m)"
  by (auto simp: named_ok_def hm_simps)

lemma info_good_iff: "info_good i \<longleftrightarrow> info_ok i \<and> (\<exists>x. x \<in> info_nodes i)"
  by (auto simp: info_good_def info_is_empty_iff simp del: set_empty)

lemma info_good_ops [simp]:
  "info_good (info_with_instance p n)"
  "info_good (info_with_full_instance p ni)"
  "info_good a \<Longrightarrow> info_good (add_instance n a)"
  "info_good a \<Longrightarrow> info_good (add_full_instance ni a)"
  "info_good a \<Longrightarrow> info_good b \<Longrightarrow> info_good (info_merge a b)"
  by (auto simp: info_good_iff)

lemma named_ok_register [simp]: "named_ok m \<Longrightarrow> named_ok (register_named p nid i md m)"
  by (auto simp: register_named_def hm_entry_def Let_def 
        named_ok_def hm_simps split: option.split)

lemma named_ok_unregister [simp]: "named_ok m \<Longrightarrow> named_ok (unregister_named p nid m)"
  by (auto simp: unregister_named_def Let_def info_good_def named_ok_def hm_simps split: option.split)

lemma nodes_set_status:
  "cs_nodes (set_status nid s st) =
     hm_modify nid (\<lambda>n. n\<lparr>cn_status := s, cn_epoch := cs_epoch st + 1\<rparr>) (cs_nodes st)"
  by (simp add: set_status_def increment_epoch_def log_call_def hm_modify_def split: option.split)

lemma other_fields_set_status [simp]:
  "cs_named (set_status nid s st) = cs_named st"
  "cs_actors (set_status nid s st) = cs_actors st"
  "cs_seeds (set_status nid s st) = cs_seeds st"
  by (simp_all add: set_status_def increment_epoch_def log_call_def split: option.split)

lemma gossip_ok_set_status [simp]: "gossip_ok st \<Longrightarrow> gossip_ok (set_status nid s st)"
  by (auto simp: gossip_ok_def nodes_set_status nodes_ok_def hm_simps)

lemma gossip_ok_tombstones:
  assumes "gossip_ok st"
  shows "gossip_ok (purge_named (fold tombstone_node nids st))"
proof -
  define J where "J = (\<lambda>s::cluster_state. nodes_ok (cs_nodes s) \<and>
    hm_get (cs_nodes s) (cs_local_node s) \<noteq> None \<and> hm_ok (cs_actors s) \<and> hm_ok (cs_named s) \<and>
    (\<forall>k i. hm_get (cs_named s) k = Some i \<longrightarrow> info_ok i \<and> path_as_str (na_path i) = k))"
  have step: "J (tombstone_node nid s)" if "J s" for nid s
    using that
    by (auto simp: J_def tombstone_node_def nodes_set_status nodes_ok_def hm_simps split: option.split)
  have "J st" using assms by (auto simp: J_def gossip_ok_def named_ok_def info_good_def)
  then have "J (fold tombstone_node nids st)" by (intro fold_preserves [of _ J] step)
  then show ?thesis
    by (auto simp: J_def gossip_ok_def purge_named_def named_ok_def info_good_def hm_simps
          split: option.splits if_splits)
qed

interpretation wf: gossip_invariant gossip_ok
proof unfold_locales
  fix st n a assume "gossip_ok st"
  then show "gossip_ok (merge_node n a st)"
    by (auto simp: gossip_ok_def merge_node_def log_call_def Let_def hm_simps split: option.split)
next
  fix st f assume "gossip_ok st"
  then show "gossip_ok (handle_failure f st)"
    by (auto simp: gossip_ok_def handle_failure_def log_call_def hm_simps nodes_ok_id split: option.split)
next
  fix st info assume "gossip_ok st" "info_good info"
  then show "gossip_ok (merge_named_actor info st)"
    by (auto simp: gossip_ok_def merge_named_actor_def named_ok_def hm_simps Let_def split: option.split)
next
  fix st now nid assume "gossip_ok st"
  then show "gossip_ok (touch_node now nid st)"
    by (auto simp: touch_node_def Let_def gossip_ok_def nodes_set_status nodes_ok_def hm_simps
          split: option.split)
next
  fix st now nid fixed e assume "gossip_ok st"
  then show "gossip_ok (meet_node now nid fixed e st)"
    by (auto simp: gossip_ok_def meet_node_def log_call_def Let_def hm_simps nodes_ok_id split: option.split)
next
  fix st P s nid assume "gossip_ok st"
  then show "gossip_ok (change_if P s nid st)"
    by (auto simp: change_if_def split: option.split)
next
  fix st nids assume "gossip_ok st"
  then show "gossip_ok (purge_named (fold tombstone_node nids st))" by (rule gossip_ok_tombstones)
next
  fix st nid assume "gossip_ok st" "nid \<noteq> cs_local_node st"
  then show "gossip_ok (remove_node nid st)"
    by (auto simp: gossip_ok_def remove_node_def log_call_def hm_simps split: option.split)
next
  fix st assume "gossip_ok st"
  then show "list_all info_good (hm_values (cs_named st))"
    by (auto simp: gossip_ok_def named_ok_def list_all_iff hm_in_set_iff [symmetric])
qed (simp_all add: gossip_ok_def)

lemma gossip_ok_new: "gossip_ok (cluster_state_new nid a now)"
  by (simp add: gossip_ok_def cluster_state_new_def cluster_node_new_def nodes_ok_def named_ok_def hm_ok_def)

subsection \<open>The journal of store calls\<close>

fun store_apply :: "store_call \<Rightarrow> (node_id \<Rightarrow> node_status option) \<Rightarrow> node_id \<Rightarrow> node_status option" where
  "store_apply (UpsertMember nid _ s _) m = m(nid \<mapsto> s)"
| "store_apply (RemoveMember nid) m = m(nid := None)"

definition store_view :: "cluster_state \<Rightarrow> node_id \<Rightarrow> node_status option" where
  "store_view st = fold store_apply (cs_store st) (\<lambda>_. None)"

definition table_view :: "cluster_state \<Rightarrow> node_id \<Rightarrow> node_status option" where
  "table_view st nid = map_option cn_status (hm_get (cs_nodes st) nid)"

definition store_agrees :: "cluster_state \<Rightarrow> bool" where
  \<comment> \<open>the local node is the one entry the store may miss, while it is online\<close>
  "store_agrees st \<longleftrightarrow>
     (\<forall>nid. store_view st nid = table_view st nid \<or>
        nid = cs_local_node st \<and> store_view st nid = None \<and> table_view st nid = Some Online)"

lemma store_view_log [simp]: "store_view (log_call c st) = store_apply c (store_view st)"
  by (simp add: store_view_def log_call_def)

lemma store_view_cong: "cs_store st = cs_store st' \<Longrightarrow> store_view st = store_view st'"
  by (simp add: store_view_def)

lemma store_view_fields [simp]:
  "store_view (st\<lparr>cs_nodes := ns\<rparr>) = store_view st"
  "store_view (st\<lparr>cs_named := nm\<rparr>) = store_view st"
  "store_view (st\<lparr>cs_actors := ac\<rparr>) = store_view st"
  "store_view (st\<lparr>cs_seeds := se\<rparr>) = store_view st"
  "store_view (st\<lparr>cs_epoch := ep\<rparr>) = store_view st"
  by (simp_all add: store_view_def)

lemma table_view_fields [simp]:
  "table_view (st\<lparr>cs_named := nm\<rparr>) = table_view st"
  "table_view (st\<lparr>cs_actors := ac\<rparr>) = table_view st"
  "table_view (st\<lparr>cs_seeds := se\<rparr>) = table_view st"
  "table_view (log_call c st) = table_view st"
  "table_view ((log_call c st)\<lparr>cs_nodes := ns\<rparr>) = table_view (st\<lparr>cs_nodes := ns\<rparr>)"
  by (simp_all add: table_view_def log_call_def fun_eq_iff)

lemma table_view_put [simp]:
  "table_view (st\<lparr>cs_nodes := hm_insert nid n ns\<rparr>) = (table_view (st\<lparr>cs_nodes := ns\<rparr>))(nid \<mapsto> cn_status n)"
  "table_view (st\<lparr>cs_nodes := hm_remove nid ns\<rparr>) = (table_view (st\<lparr>cs_nodes := ns\<rparr>))(nid := None)"
  by (auto simp: table_view_def hm_simps fun_eq_iff)

lemma table_view_same [simp]: "table_view (st\<lparr>cs_nodes := cs_nodes st\<rparr>) = table_view st"
  by (simp add: table_view_def)

lemma set_status_views [simp]:
  "store_view (set_status nid s st) =
     (if hm_get (cs_nodes st) nid = None then store_view st else (store_view st)(nid \<mapsto> s))"
  "table_view (set_status nid s st) =
     (if hm_get (cs_nodes st) nid = None then table_view st else (table_view st)(nid \<mapsto> s))"
  by (auto simp: set_status_def increment_epoch_def split: option.split)
     (auto simp: table_view_def hm_simps fun_eq_iff)

definition store_inv :: "cluster_state \<Rightarrow> bool" where
  "store_inv st \<longleftrightarrow> gossip_ok st \<and> store_agrees st"

lemma store_agreesI:
  assumes "\<And>nid. store_view st nid = table_view st nid \<or>
        nid = cs_local_node st \<and> store_view st nid = None \<and> table_view st nid = Some Online"
  shows "store_agrees st"
  using assms by (simp add: store_agrees_def)

lemma store_agrees_put:
  assumes "store_agrees st" and "cs_local_node st' = cs_local_node st"
    and "store_view st' = (store_view st)(nid := v)" and "table_view st' = (table_view st)(nid := v)"
  shows "store_agrees st'"
  using assms by (auto simp: store_agrees_def)

lemma store_agrees_same:
  assumes "store_agrees st" and "cs_local_node st' = cs_local_node st"
    and "store_view st' = store_view st" and "table_view st' = table_view st"
  shows "store_agrees st'"
  using assms by (auto simp: store_agrees_def)

lemma table_view_None [simp]: "table_view st nid = None \<longleftrightarrow> hm_get (cs_nodes st) nid = None"
  by (simp add: table_view_def)

lemma table_view_triv [simp]:
  "hm_get (cs_nodes st) nid = Some n \<Longrightarrow> (table_view st)(nid \<mapsto> cn_status n) = table_view st"
  by (auto simp: table_view_def fun_eq_iff)

lemma store_agrees_set_status:
  assumes "store_agrees st"
  shows "store_agrees (set_status nid s st)"
proof (cases "hm_get (cs_nodes st) nid")
  case None
  then show ?thesis by (intro store_agrees_same [OF assms]) auto
next
  case (Some n)
  then show ?thesis by (intro store_agrees_put [OF assms]) auto
qed

lemma store_agrees_merge_node:
  assumes "store_agrees st"
  shows "store_agrees (merge_node n a st)"
proof -
  let ?st' = "merge_node n a st" and ?nid = "cn_node_id n"
  consider "store_view ?st' = store_view st" "table_view ?st' = table_view st"
    | "store_view ?st' = (store_view st)(?nid \<mapsto> cn_status n)"
      "table_view ?st' = (table_view st)(?nid \<mapsto> cn_status n)"
    by (cases "hm_get (cs_nodes st) ?nid")
      (fastforce simp: merge_node_def Let_def split: if_splits dest: table_view_triv)+
  then show ?thesis
    by cases (auto intro: store_agrees_same [OF assms] store_agrees_put [OF assms])
qed

lemma store_agrees_handle_failure: "store_agrees st \<Longrightarrow> store_agrees (handle_failure f st)"
  by (auto simp: handle_failure_def intro: store_agrees_put split: option.split)

lemma store_agrees_merge_named: "store_agrees st \<Longrightarrow> store_agrees (merge_named_actor i st)"
  by (auto simp: merge_named_actor_def Let_def intro: store_agrees_same split: option.split)

lemma store_agrees_touch: "store_agrees st \<Longrightarrow> store_agrees (touch_node now nid st)"
  by (auto simp: touch_node_def Let_def split: option.split
      intro!: store_agrees_set_status intro: store_agrees_same)

lemma store_agrees_meet:
  assumes "store_agrees st"
  shows "store_agrees (meet_node now nid fixed e st)"
proof -
  let ?st' = "meet_node now nid fixed e st"
  consider "store_view ?st' = store_view st" "table_view ?st' = table_view st"
    | "store_view ?st' = (store_view st)(nid \<mapsto> Online)"
      "table_view ?st' = (table_view st)(nid \<mapsto> Online)"
    by (cases "hm_get (cs_nodes st) nid")
      (fastforce simp: meet_node_def Let_def split: if_splits dest: table_view_triv)+
  then show ?thesis
  proof cases
    case 2
    then show ?thesis by (intro store_agrees_put [OF assms]) (auto simp: fun_eq_iff)
  qed (auto intro: store_agrees_same [OF assms])
qed

lemma store_agrees_tombstone: "store_agrees st \<Longrightarrow> store_agrees (tombstone_node nid st)"
  using store_agrees_set_status [of st nid Tombstone]
  by (auto simp: tombstone_node_def split: option.split intro: store_agrees_same)

interpretation store: gossip_invariant store_inv
proof unfold_locales
  fix st P s nid assume "store_inv st"
  then show "store_inv (change_if P s nid st)"
    by (auto simp: store_inv_def change_if_def intro: store_agrees_set_status split: option.split)
next
  fix st nids assume st: "store_inv st"
  then have "store_agrees (fold tombstone_node nids st)"
    by (intro fold_preserves [of _ store_agrees] store_agrees_tombstone) (simp_all add: store_inv_def)
  then have "store_agrees (purge_named (fold tombstone_node nids st))"
    by (auto simp: purge_named_def intro: store_agrees_same)
  with st show "store_inv (purge_named (fold tombstone_node nids st))"
    by (simp add: store_inv_def wf.I_tombstone)
next
  fix st nid assume st: "store_inv st" and "nid \<noteq> cs_local_node st"
  then have "gossip_ok (remove_node nid st)" by (auto simp: store_inv_def intro: wf.I_remove)
  moreover have "store_agrees (remove_node nid st)"
    using st by (auto simp: store_inv_def remove_node_def split: option.split intro: store_agrees_put)
  ultimately show "store_inv (remove_node nid st)" by (simp add: store_inv_def)
qed (auto simp: store_inv_def store_agrees_merge_node store_agrees_handle_failure
      store_agrees_merge_named store_agrees_touch store_agrees_meet
      wf.I_merge_node wf.I_handle_failure wf.I_merge_named wf.I_touch wf.I_meet wf.I_seeds
      wf.I_put_actor wf.I_del_actor wf.I_register wf.I_unregister
      intro: store_agrees_same wf.I_good)

lemma store_inv_new: "store_inv (cluster_state_new nid a now)"
proof -
  have "store_agrees (cluster_state_new nid a now)"
    by (auto simp: store_agrees_def store_view_def table_view_def cluster_state_new_def cluster_node_new_def)
  then show ?thesis by (simp add: store_inv_def gossip_ok_new)
qed

end
