(* ===== verification/GossipNet.thy ===== *)
theory GossipNet
  imports GossipInv
begin

text \<open>
  Several gossip nodes exchanging messages. A world is a state per running node and the
  set of messages ever sent: delivery may lose, repeat, delay and reorder. Every
  operation of a node is a step. What the invariants say of reachable worlds is proved
  by rule induction from the two interpretations of \<open>gossip_invariant\<close>; the properties
  of single operations follow.
\<close>

type_synonym world = "(node_id \<Rightarrow> cluster_state option) \<times> gossip_message set"

definition local_actor_ids :: "actor_path \<Rightarrow> cluster_state \<Rightarrow> actor_id set" where
  "local_actor_ids p st =
     set_option (Option.bind (lookup_named_actor p st)
       (\<lambda>info. map_option ni_actor_id (hm_get (na_instances info) (cs_local_node st))))"

inductive world_step :: "gossip_env \<Rightarrow> gossip_config \<Rightarrow> world \<Rightarrow> world \<Rightarrow> bool"
  for env :: gossip_env and cfg :: gossip_config where
  start: "w n = None \<Longrightarrow> world_step env cfg (w, ms) (w(n \<mapsto> cluster_state_new n a now), ms)"
| meet: "w n = Some st \<Longrightarrow>
    world_step env cfg (w, ms)
      (w(n \<mapsto> st\<lparr>cs_seeds := seeds\<rparr>), insert (Meet n (cs_local_addr st) (cs_epoch st)) ms)"
| deliver: "w n = Some st \<Longrightarrow> msg \<in> ms \<Longrightarrow> handle_gossip env now msg peer st = (reply, st') \<Longrightarrow>
    world_step env cfg (w, ms) (w(n \<mapsto> st'), ms \<union> set_option reply)"
| ping_peers: "w n = Some st \<Longrightarrow> world_step env cfg (w, ms) (w, insert (ping env st) ms)"
| pong_back: "w n = Some st \<Longrightarrow> Pong f e view failures named \<in> ms \<Longrightarrow>
    world_step env cfg (w, ms) (w(n \<mapsto> merge_view peer view failures named st), ms)"
| register: "w n = Some st \<Longrightarrow>
    world_step env cfg (w, ms)
      (w(n \<mapsto> snd (register_actor env cfg aid st)),
       insert (ActorRegistered (actor_location_new aid n)) ms)"
| unregister: "w n = Some st \<Longrightarrow>
    world_step env cfg (w, ms)
      (w(n \<mapsto> snd (unregister_actor env cfg aid st)), insert (ActorUnregistered aid) ms)"
| register_full: "w n = Some st \<Longrightarrow>
    world_step env cfg (w, ms)
      (w(n \<mapsto> snd (register_named_actor_full env cfg p aid md st)),
       insert (NamedActorRegistered p n (Some aid) md) ms)"
| register_bare: "w n = Some st \<Longrightarrow>
    world_step env cfg (w, ms)
      (w(n \<mapsto> snd (register_named_actor env cfg p st)), insert (NamedActorRegistered p n None []) ms)"
| unregister_name: "w n = Some st \<Longrightarrow>
    world_step env cfg (w, ms)
      (w(n \<mapsto> snd (unregister_named_actor env cfg p st)),
       insert (NamedActorUnregistered p n) (ms \<union> ActorUnregistered ` local_actor_ids p st))"
| actor_failed: "w n = Some st \<Longrightarrow>
    world_step env cfg (w, ms) (w, insert (NamedActorFailed p n reason) ms)"
| detect: "w n = Some st \<Longrightarrow>
    world_step env cfg (w, ms) (w(n \<mapsto> detect_failures cfg now st), ms)"
| suspect: "w n = Some st \<Longrightarrow> world_step env cfg (w, ms) (w(n \<mapsto> mark_pfail nid st), ms)"
| fail: "w n = Some st \<Longrightarrow> world_step env cfg (w, ms) (w(n \<mapsto> mark_fail nid st), ms)"

inductive_cases world_stepE: "world_step env cfg W W'"

definition world_ok :: "world \<Rightarrow> bool" where
  "world_ok W \<longleftrightarrow>
     (\<forall>n st. fst W n = Some st \<longrightarrow> gossip_ok st \<and> store_agrees st \<and> cs_local_node st = n) \<and>
     (\<forall>m \<in> snd W. msg_good m)"

lemma mark_as_change:
  "mark_pfail nid = change_if (\<lambda>s. s = Online) PFail nid"
  "mark_fail nid = change_if (\<lambda>s. s \<noteq> Fail) Fail nid"
  by (simp_all add: fun_eq_iff mark_pfail_def mark_fail_def change_if_def split: option.split)

lemma local_ops [simp]:
  "cs_local_node (detect_failures cfg now st) = cs_local_node st"
  "cs_local_node (snd (register_actor env cfg aid st)) = cs_local_node st"
  "cs_local_node (snd (unregister_actor env cfg aid st)) = cs_local_node st"
  "cs_local_node (snd (register_named_actor_full env cfg p aid md st)) = cs_local_node st"
  "cs_local_node (snd (register_named_actor env cfg p st)) = cs_local_node st"
  "cs_local_node (snd (unregister_named_actor env cfg p st)) = cs_local_node st"
  by (simp_all add: detect_failures_def fold_same [of cs_local_node] Let_def register_actor_def
        unregister_actor_def register_named_actor_full_def register_named_actor_def
        unregister_named_actor_def split: option.split)

lemma local_new [simp]: "cs_local_node (cluster_state_new n a now) = n"
  by (simp add: cluster_state_new_def)

lemma world_okD:
  assumes "world_ok (w, ms)"
  shows "w n = Some st \<Longrightarrow> store_inv st" and "w n = Some st \<Longrightarrow> cs_local_node st = n"
    and "m \<in> ms \<Longrightarrow> msg_good m"
  using assms by (auto simp: world_ok_def store_inv_def)

lemma world_ok_op:
  assumes "world_ok (w, ms)" and "w n = Some st"
    and "store_inv st \<Longrightarrow> store_inv st'" and "cs_local_node st' = cs_local_node st"
    and "\<And>m. m \<in> ms' \<Longrightarrow> m \<in> ms \<or> msg_good m"
  shows "world_ok (w(n \<mapsto> st'), ms')"
  using assms by (auto simp: world_ok_def store_inv_def)

lemma world_ok_deliver:
  assumes "env_ok env" and "world_ok (w, ms)" and "w n = Some st" and "msg \<in> ms"
    and "handle_gossip env now msg peer st = (reply, st')"
  shows "world_ok (w(n \<mapsto> st'), ms \<union> set_option reply)"
proof (rule world_ok_op [OF assms(2,3)])
  have msg: "msg_good msg" using assms(2,4) by (rule world_okD)
  then show "store_inv st'" if "store_inv st"
    using that store.I_handle_gossip [of st msg env now peer] assms(5) by simp
  show "cs_local_node st' = cs_local_node st"
    using local_handle_gossip [of env now msg peer st] assms(5) by simp
  show "m \<in> ms \<or> msg_good m" if "m \<in> ms \<union> set_option reply" for m
    using that msg world_okD(1) [OF assms(2,3)] assms(5)
      store.good_replies [OF assms(1), of st msg now peer] by auto
qed

lemma world_ok_pong_back:
  assumes "world_ok (w, ms)" and "w n = Some st" and "Pong f e view failures named \<in> ms"
  shows "world_ok (w(n \<mapsto> merge_view peer view failures named st), ms)"
proof (rule world_ok_op [OF assms(1,2)])
  have "msg_good (Pong f e view failures named)" using assms(1,3) by (rule world_okD)
  then have "list_all info_good as" if "named = Some as" for as
    using that by simp
  then show "store_inv (merge_view peer view failures named st)" if "store_inv st"
    using that by (intro store.I_merge_view)
qed auto

lemma world_step_ok:
  assumes "env_ok env" and "world_step env cfg W W'" and "world_ok W"
  shows "world_ok W'"
  using assms(2,3)
proof (cases rule: world_step.cases)
  case start
  with assms(3) show ?thesis
    using store_inv_new by (auto simp: world_ok_def store_inv_def)
next
  case (ping_peers w n st ms)
  with assms(3) show ?thesis
    using store.good_ping [OF assms(1), of st] by (auto simp: world_ok_def store_inv_def)
next
  case actor_failed
  with assms(3) show ?thesis by (auto simp: world_ok_def)
next
  case (suspect w n st ms nid)
  with assms(3) show ?thesis by (auto simp: mark_as_change intro!: world_ok_op store.I_change)
next
  case (fail w n st ms nid)
  with assms(3) show ?thesis by (auto simp: mark_as_change intro!: world_ok_op store.I_change)
qed (use assms in \<open>auto intro: world_ok_deliver world_ok_pong_back
       intro!: world_ok_op [OF _ _ store.I_seeds] world_ok_op [OF _ _ store.I_detect_failures]
         world_ok_op [OF _ _ store.I_register_ops(1)] world_ok_op [OF _ _ store.I_register_ops(2)]
         world_ok_op [OF _ _ store.I_register_ops(3)] world_ok_op [OF _ _ store.I_register_ops(4)]
         world_ok_op [OF _ _ store.I_register_ops(5)]\<close>)

lemma world_reach_ok:
  assumes "env_ok env" and "(world_step env cfg)\<^sup>*\<^sup>* W W'" and "world_ok W"
  shows "world_ok W'"
  using assms(2,3) by (induction rule: rtranclp_induct) (auto intro: world_step_ok [OF assms(1)])

lemma world_ok_empty: "world_ok (\<lambda>_. None, {})"
  by (simp add: world_ok_def)


definition plain_env :: gossip_env where
  "plain_env =
     \<lparr>ge_shuffle_nodes = rev, ge_shuffle_actors = rev,
      ge_choose = (\<lambda>ids. if ids = [] then None else Some (hd ids)),
      ge_choose_multiple = (\<lambda>ms k. take k ms),
      ge_serialize = (\<lambda>_. None), ge_deserialize = (\<lambda>_. None)\<rparr>"

lemma plain_env_ok: "env_ok plain_env"
  by (auto simp: env_ok_def plain_env_def split: if_splits dest: in_set_takeD)

abbreviation addr_a :: socket_addr where "addr_a \<equiv> SockV4 1 8000"
abbreviation addr_b :: socket_addr where "addr_b \<equiv> SockV4 2 8000"

definition met_state :: cluster_state where
  "met_state = snd (handle_gossip plain_env 5 (Meet 2 addr_b 0) addr_b (cluster_state_new 1 addr_a 0))"

lemma met_world:
  "\<exists>w ms. (world_step plain_env gossip_config_default)\<^sup>*\<^sup>* (\<lambda>_. None, {}) (w, ms) \<and> w 1 = Some met_state"
proof -
  note [trans] = rtranclp.rtrancl_into_rtrancl
  let ?step = "world_step plain_env gossip_config_default"
  let ?w1 = "(\<lambda>_. None)(1 \<mapsto> cluster_state_new 1 addr_a 0)"
  let ?w2 = "?w1(2 \<mapsto> cluster_state_new 2 addr_b 0)"
  let ?st = "cluster_state_new 2 addr_b 0"
  let ?w3 = "?w2(2 \<mapsto> ?st\<lparr>cs_seeds := [addr_a]\<rparr>)"
  let ?r = "fst (handle_gossip plain_env 5 (Meet 2 addr_b 0) addr_b (cluster_state_new 1 addr_a 0))"
  have "?step\<^sup>*\<^sup>* (\<lambda>_. None, {}) (?w1, {})"
    by (rule r_into_rtranclp, rule world_step.start) simp
  also have "?step (?w1, {}) (?w2, {})" by (rule world_step.start) simp
  also have "?step (?w2, {}) (?w3, {Meet 2 (cs_local_addr ?st) (cs_epoch ?st)})"
    by (rule world_step.meet) simp
  also have "?step (?w3, {Meet 2 (cs_local_addr ?st) (cs_epoch ?st)})
      (?w3(1 \<mapsto> met_state), {Meet 2 (cs_local_addr ?st) (cs_epoch ?st)} \<union> set_option ?r)"
    unfolding met_state_def
    by (rule world_step.deliver
          [where now = 5 and peer = addr_b and msg = "Meet 2 addr_b 0"
             and st = "cluster_state_new 1 addr_a 0"])
       (simp_all add: cluster_state_new_def Let_def)
  finally show ?thesis by (intro exI conjI) (assumption, simp)
qed


end
