(* ===== verification/GossipMerge.thy ===== *)
theory GossipMerge
  imports GossipNet
begin

text \<open>
  Properties of the merges of the gossip cluster: node records converge to the highest
  version whatever the order of arrival, meeting a node, the record of a named actor,
  and two ways in which outdated gossip undoes a later decision.
\<close>

subsection \<open>Node records\<close>

definition version_of :: "cluster_state \<Rightarrow> node_id \<Rightarrow> (u64 \<times> node_status) option" where
  "version_of st nid = map_option node_version (hm_get (cs_nodes st) nid)"

lemma merge_node_supersedes:
  \<comment> \<open>the merge is a guarded replacement by \<^verbatim>\<open>ClusterNode::supersedes\<close>\<close>
  "hm_get (cs_nodes (merge_node r a st)) nid =
     (if cn_node_id r = nid then
        Some (case hm_get (cs_nodes st) nid of
                None \<Rightarrow> r\<lparr>cn_addr := fix_addr (cn_addr r) (sa_ip a)\<rparr>
              | Some old \<Rightarrow>
                  if cluster_node_supersedes r old
                  then r\<lparr>cn_addr := fix_addr (cn_addr r) (sa_ip a)\<rparr> else old)
      else hm_get (cs_nodes st) nid)"
  by (cases r)
    (auto simp: merge_node_def Let_def log_call_def hm_simps cluster_node_supersedes_def
      split: option.split)

lemma version_merge_node:
  "version_of (merge_node r a st) nid =
     (if cn_node_id r = nid
      then Some (case version_of st nid of None \<Rightarrow> node_version r | Some v \<Rightarrow> max v (node_version r))
      else version_of st nid)"
proof -
  have "node_version (r\<lparr>cn_addr := x\<rparr>) = node_version r" for x by (simp add: node_version_def)
  moreover have "node_version r = max (node_version old) (node_version r)"
    if "cluster_node_supersedes r old" for old
    using cnode.ver_merge [of r old] that by simp
  moreover have "node_version old = max (node_version old) (node_version r)"
    if "\<not> cluster_node_supersedes r old" for old
    using cnode.ver_merge [of r old] that by simp
  ultimately show ?thesis
    by (auto simp: version_of_def merge_node_supersedes split: option.split)
qed

lemma version_fold_merge:
  "version_of (fold (\<lambda>r. merge_node r a) rs st) nid =
     (let vs = set_option (version_of st nid) \<union> node_version ` {r \<in> set rs. cn_node_id r = nid}
      in if vs = {} then None else Some (Max vs))"
proof (induction rs arbitrary: st)
  case Nil
  then show ?case by (cases "version_of st nid") (auto simp: Let_def)
next
  case (Cons r rs)
  let ?tl = "node_version ` {r \<in> set rs. cn_node_id r = nid}"
  have "Max (insert (max a b) ?tl) = Max (insert a (insert b ?tl))" for a b
    by (rule Max_insert_max) simp
  moreover have "{q \<in> set (r # rs). cn_node_id q = nid} =
      (if cn_node_id r = nid then insert r {q \<in> set rs. cn_node_id q = nid}
       else {q \<in> set rs. cn_node_id q = nid})"
    by auto
  ultimately show ?case
    by (cases "version_of st nid") (simp_all add: Cons.IH version_merge_node Let_def)
qed

text \<open>
  C4. Merging views is order-independent: after any sequence of received node records,
  over any peers and in any order, the record of a node carries the highest version
  (epoch first, then status) among the record held before and the records received.
\<close>

theorem merge_node_converges:
  "version_of (fold (\<lambda>(r, a). merge_node r a) rs st) nid =
     (let vs = set_option (version_of st nid) \<union>
               node_version ` {r \<in> fst ` set rs. cn_node_id r = nid}
      in if vs = {} then None else Some (Max vs))"
proof -
  have "version_of (fold (\<lambda>(r, a). merge_node r a) rs st) nid =
        version_of (fold (\<lambda>r. merge_node r addr_a) (map fst rs) st') nid"
    if "version_of st nid = version_of st' nid" for st'
    using that
  proof (induction rs arbitrary: st st')
    case (Cons x rs)
    have "version_of (merge_node (fst x) (snd x) st) nid = version_of (merge_node (fst x) addr_a st') nid"
      using Cons.prems by (simp add: version_merge_node)
    from Cons.IH [OF this] show ?case by (simp add: case_prod_unfold)
  qed simp
  from this [of st] show ?thesis by (simp add: version_fold_merge)
qed

text \<open>
  A \<^verbatim>\<open>Meet\<close> is answered with a \<^verbatim>\<open>Pong\<close> that carries every named actor, and leaves the
  sender in the table as online at its corrected address, seen now, with the higher of
  the known and the announced epoch. No other node record and no registration changes.
\<close>

theorem meet_outcome:
  "let (reply, st') = handle_gossip env now (Meet nid a e) peer st
   in (\<exists>view failures.
         reply = Some (Pong (cs_local_node st) (cs_epoch st) view failures (Some (all_named_actors st)))) \<and>
      hm_get (cs_nodes st') nid =
        Some \<lparr>cn_node_id = (case hm_get (cs_nodes st) nid of Some n \<Rightarrow> cn_node_id n | None \<Rightarrow> nid),
              cn_addr = fix_addr a (sa_ip peer), cn_status = Online,
              cn_epoch = (case hm_get (cs_nodes st) nid of Some n \<Rightarrow> max (cn_epoch n) e | None \<Rightarrow> e),
              cn_last_seen = now\<rparr> \<and>
      (\<forall>m. m \<noteq> nid \<longrightarrow> hm_get (cs_nodes st') m = hm_get (cs_nodes st) m) \<and>
      cs_named st' = cs_named st \<and> cs_actors st' = cs_actors st \<and> cs_epoch st' = cs_epoch st"
proof -
  let ?st' = "meet_node now nid (fix_addr a (sa_ip peer)) e st"
  have fields: "cs_named ?st' = cs_named st \<and> cs_actors ?st' = cs_actors st \<and> cs_epoch ?st' = cs_epoch st"
    by (simp add: meet_node_def log_call_def Let_def split: option.split)
  have nodes: "hm_get (cs_nodes ?st') m = (if m = nid then
        Some \<lparr>cn_node_id = (case hm_get (cs_nodes st) nid of Some n \<Rightarrow> cn_node_id n | None \<Rightarrow> nid),
              cn_addr = fix_addr a (sa_ip peer), cn_status = Online,
              cn_epoch = (case hm_get (cs_nodes st) nid of Some n \<Rightarrow> max (cn_epoch n) e | None \<Rightarrow> e),
              cn_last_seen = now\<rparr> else hm_get (cs_nodes st) m)" for m
    by (cases "hm_get (cs_nodes st) nid")
      (auto simp: meet_node_def log_call_def Let_def hm_simps max_def)
  show ?thesis
    using fields by (simp add: Let_def pong_def all_named_actors_def nodes)
qed

subsection \<open>Outdated gossip\<close>

text \<open>
  A node that is heard from again is put online with the next value of the local epoch
  counter, whatever the epoch of its record. When that counter is behind the record, as
  after a failure report from another node, the version goes down, and the very record
  that was superseded by the recovery replaces it again at the next merge: the live node
  is marked failed once more.
\<close>

theorem recovery_epoch_regresses:
  assumes "hm_get (cs_nodes st) nid = Some node" and "cn_node_id node = nid"
    and "can_recover (cn_status node)" and "cs_epoch st + 1 < cn_epoch node"
  shows "let st' = touch_node now nid st
         in version_of st' nid = Some (cs_epoch st + 1, Online) \<and>
            the (version_of st' nid) < the (version_of st nid) \<and>
            version_of (merge_node node a st') nid = version_of st nid"
proof -
  have "version_of (touch_node now nid st) nid = Some (cs_epoch st + 1, Online)"
    using assms
    by (simp add: touch_node_def Let_def version_of_def nodes_set_status hm_simps node_version_def)
  moreover have "version_of st nid = Some (node_version node)"
    using assms(1) by (simp add: version_of_def)
  moreover have "(cs_epoch st + 1, Online) < node_version node"
    using assms(4) by (simp add: node_version_def)
  ultimately show ?thesis
    using assms(2) by (simp add: Let_def version_merge_node max_absorb2 less_imp_le)
qed

definition suspected_state :: cluster_state where
  "suspected_state = (cluster_state_new 1 addr_a 0)
     \<lparr>cs_nodes := [(1, cluster_node_new 1 addr_a 0 0),
                   (2, (cluster_node_new 2 addr_b 5 0)\<lparr>cn_status := PFail\<rparr>)]\<rparr>"

subsection \<open>Records of named actors\<close>

text \<open>
  Merging the records two nodes hold of a named actor unites their instances: the
  merged record lists the nodes of both, has the other side's details where it has any
  and keeps its own elsewhere, keeps its path, stays well-formed, and (short of the
  largest \<^verbatim>\<open>u64\<close>) has a version above both.
\<close>

theorem info_merge_unites:
  assumes "info_ok a" and "info_ok b" and "max (na_version a) (na_version b) \<noteq> - 1"
  shows "info_ok (info_merge a b) \<and> na_path (info_merge a b) = na_path a \<and>
    info_nodes (info_merge a b) = info_nodes a \<union> info_nodes b \<and>
    hm_get (na_instances (info_merge a b)) =
      hm_get (na_instances a) ++ hm_get (na_instances b) \<and>
    na_version a < na_version (info_merge a b) \<and> na_version b < na_version (info_merge a b)"
proof -
  have "max (na_version a) (na_version b) < na_version (info_merge a b)"
    using less_inc_word [OF assms(3)] by (simp add: info_merge_def)
  then have "na_version a < na_version (info_merge a b)" "na_version b < na_version (info_merge a b)"
    by (auto simp: less_le_trans max_def split: if_splits)
  with assms show ?thesis
    by (auto simp: fun_eq_iff map_add_def hm_get_info_merge split: option.split)
qed

abbreviation demo_path :: actor_path where
  "demo_path \<equiv> \<lparr>segments = [''app'', ''echo'']\<rparr>"

text \<open>
  A registration record has no trace of removed instances, so gossip that was sent
  before an unregistration brings the instance back: after the instance of a node is
  removed, merging any older record that lists it makes the lookup list it again.
\<close>

theorem stale_gossip_restores_instance:
  assumes "nid \<in> info_nodes info" and "na_path info = path"
  shows "\<exists>info'. lookup_named_actor path
           (merge_named_actors [info] (st\<lparr>cs_named := unregister_named path nid (cs_named st)\<rparr>)) = Some info' \<and>
           nid \<in> info_nodes info'"
  using assms
  by (auto simp: lookup_named_actor_def merge_named_actors_def merge_named_actor_def Let_def hm_simps
        split: option.split)

end
