(* ===== verification/GossipDetect.thy ===== *)
theory GossipDetect
  imports GossipMerge
begin

text \<open>
  The failure detector of the gossip cluster. Its five passes over lists collected
  beforehand amount to one independent transition per node; the abstract transition is
  \<open>next_status\<close> and the refinement theorem says that a round does exactly that, and to
  the registrations exactly what tombstoning implies.
\<close>

definition status_view :: "cluster_state \<Rightarrow> node_id \<Rightarrow> (node_status \<times> u64) option" where
  "status_view st nid = map_option (\<lambda>n. (cn_status n, cn_last_seen n)) (hm_get (cs_nodes st) nid)"

definition listed :: "cluster_state \<Rightarrow> string \<Rightarrow> node_id set" where
  \<comment> \<open>the nodes on which a lookup finds the named actor\<close>
  "listed st key = (case hm_get (cs_named st) key of None \<Rightarrow> {} | Some i \<Rightarrow> info_nodes i)"

fun next_status :: "verdict \<Rightarrow> node_status \<Rightarrow> node_status option" where
  "next_status Keep s = Some s"
| "next_status ToPFail s = Some PFail"
| "next_status ToFail s = Some Fail"
| "next_status ToTombstone s = Some Tombstone"
| "next_status Recover s = Some Online"
| "next_status Remove s = None"

subsection \<open>The passes\<close>

lemma status_view_set_status:
  "status_view (set_status nid s st) =
     (status_view st)(nid := map_option (\<lambda>(_, l). (s, l)) (status_view st nid))"
  by (auto simp: status_view_def nodes_set_status hm_simps fun_eq_iff option.map_comp comp_def)

lemma status_view_change:
  "status_view (change_if P s nid st) =
     (status_view st)(nid := map_option (\<lambda>(q, l). (if P q then s else q, l)) (status_view st nid))"
  by (cases "hm_get (cs_nodes st) nid")
    (auto simp: change_if_def status_view_set_status, auto simp: status_view_def fun_eq_iff)

lemma status_view_changes:
  "status_view (fold (change_if P s) nids st) k =
     (if k \<in> set nids then map_option (\<lambda>(q, l). (if P q then s else q, l)) (status_view st k)
      else status_view st k)"
  by (induction nids arbitrary: st)
    (auto simp: status_view_change option.map_comp comp_def case_prod_unfold intro!: option.map_cong)

lemma named_change [simp]: "cs_named (change_if P s nid st) = cs_named st"
  by (simp add: change_if_def split: option.split)

lemma status_view_named [simp]: "status_view (st\<lparr>cs_named := m\<rparr>) = status_view st"
  by (simp add: status_view_def fun_eq_iff)

lemma status_view_tombstone:
  "status_view (tombstone_node nid st) = status_view (change_if (\<lambda>s. s = Fail) Tombstone nid st)"
  by (simp add: tombstone_node_def change_if_def split: option.split)

lemma status_view_tombstones:
  "status_view (fold tombstone_node nids st) k =
     (if k \<in> set nids then map_option (\<lambda>(q, l). (if q = Fail then Tombstone else q, l)) (status_view st k)
      else status_view st k)"
  by (induction nids arbitrary: st)
    (auto simp: status_view_tombstone status_view_change option.map_comp comp_def case_prod_unfold
      intro!: option.map_cong)

lemma listed_tombstone:
  "listed (tombstone_node nid st) key =
     listed st key - {n. n = nid \<and> map_option fst (status_view st n) = Some Fail}"
  by (cases "hm_get (cs_nodes st) nid"; cases "hm_get (cs_named st) key")
    (auto simp: listed_def tombstone_node_def status_view_def hm_simps)

lemma listed_tombstones:
  "listed (fold tombstone_node nids st) key =
     listed st key - {n \<in> set nids. map_option fst (status_view st n) = Some Fail}"
proof (induction nids arbitrary: st)
  case (Cons nid nids)
  have "map_option fst (status_view (tombstone_node nid st) n) = Some Fail \<longleftrightarrow>
        n \<noteq> nid \<and> map_option fst (status_view st n) = Some Fail" for n
    by (cases "status_view st nid") (auto simp: status_view_tombstone status_view_change split: if_splits)
  then show ?case by (auto simp: Cons.IH listed_tombstone)
qed simp

definition infos_ok :: "cluster_state \<Rightarrow> bool" where
  "infos_ok st \<longleftrightarrow> hm_ok (cs_named st) \<and> (\<forall>k i. hm_get (cs_named st) k = Some i \<longrightarrow> info_ok i)"

lemma infos_ok_tombstones: "infos_ok st \<Longrightarrow> infos_ok (fold tombstone_node nids st)"
  by (rule fold_preserves [of _ infos_ok])
    (auto simp: infos_ok_def tombstone_node_def hm_simps split: option.split)

lemma listed_purge: "infos_ok st \<Longrightarrow> listed (purge_named st) key = listed st key"
  by (auto simp: infos_ok_def listed_def purge_named_def hm_simps info_is_empty_iff split: option.split)

lemma status_view_remove:
  "status_view (remove_node nid st) =
     (if map_option fst (status_view st nid) = Some Tombstone then (status_view st)(nid := None)
      else status_view st)"
  by (cases "hm_get (cs_nodes st) nid")
    (auto simp: remove_node_def status_view_def log_call_def hm_simps fun_eq_iff)

lemma status_view_removes:
  "status_view (fold remove_node nids st) k =
     (if k \<in> set nids \<and> map_option fst (status_view st k) = Some Tombstone then None
      else status_view st k)"
  by (induction nids arbitrary: st) (auto simp: status_view_remove)

lemma named_remove [simp]: "cs_named (remove_node nid st) = cs_named st"
  by (simp add: remove_node_def log_call_def split: option.split)

lemma in_verdict_iff:
  assumes "gossip_ok st"
  shows "k \<in> set (nodes_with_verdict cfg now v st) \<longleftrightarrow>
    k \<noteq> cs_local_node st \<and> (\<exists>n. hm_get (cs_nodes st) k = Some n \<and> node_verdict cfg now n = v)"
proof -
  let ?nodes = "cs_nodes st"
  have vals: "n \<in> set (hm_values ?nodes) \<longleftrightarrow> (\<exists>j. hm_get ?nodes j = Some n)" for n
    using assms hm_values_iff [of ?nodes n] by (simp add: gossip_ok_def nodes_ok_def)
  have ids: "cn_node_id n = j" if "hm_get ?nodes j = Some n" for n j
    using assms that by (simp add: gossip_ok_def nodes_ok_def)
  have "k \<in> set (nodes_with_verdict cfg now v st) \<longleftrightarrow>
      (\<exists>n \<in> set (hm_values ?nodes). cn_node_id n = k \<and> k \<noteq> cs_local_node st \<and> node_verdict cfg now n = v)"
    unfolding nodes_with_verdict_def by auto
  also have "\<dots> \<longleftrightarrow>
      k \<noteq> cs_local_node st \<and> (\<exists>n. hm_get ?nodes k = Some n \<and> node_verdict cfg now n = v)"
    unfolding Bex_def vals using ids by fast
  finally show ?thesis .
qed

lemma verdict_status:
  "node_verdict cfg now n = ToPFail \<Longrightarrow> cn_status n = Online"
  "node_verdict cfg now n = ToFail \<Longrightarrow> cn_status n = PFail"
  "node_verdict cfg now n = ToTombstone \<Longrightarrow> cn_status n = Fail"
  "node_verdict cfg now n = Remove \<Longrightarrow> cn_status n = Tombstone"
  "node_verdict cfg now n = Recover \<Longrightarrow> can_recover (cn_status n)"
  by (auto simp: node_verdict_def Let_def can_recover_def split: node_status.splits if_splits)

lemma status_view_purge [simp]: "status_view (purge_named st) = status_view st"
  by (simp add: purge_named_def)

lemma status_view_passes:
  "status_view (detect_failures cfg now st) k =
     status_view
       (fold remove_node (nodes_with_verdict cfg now Remove st)
         (fold tombstone_node (nodes_with_verdict cfg now ToTombstone st)
           (fold (change_if (\<lambda>s. s = PFail) Fail) (nodes_with_verdict cfg now ToFail st)
             (fold (change_if (\<lambda>s. s = Online) PFail) (nodes_with_verdict cfg now ToPFail st)
               (fold (change_if can_recover Online) (nodes_with_verdict cfg now Recover st) st))))) k"
  by (cases "nodes_with_verdict cfg now ToTombstone st")
    (auto simp: detect_failures_def Let_def status_view_removes)

subsection \<open>One round\<close>

lemma detect_status:
  assumes "gossip_ok st"
  shows "status_view (detect_failures cfg now st) nid =
    (if nid = cs_local_node st then status_view st nid
     else Option.bind (hm_get (cs_nodes st) nid) (\<lambda>n.
       map_option (\<lambda>s. (s, cn_last_seen n)) (next_status (node_verdict cfg now n) (cn_status n))))"
proof -
  note defs = status_view_passes status_view_removes status_view_changes status_view_tombstones in_verdict_iff [OF assms]
  show ?thesis
  proof (cases "hm_get (cs_nodes st) nid")
    case None
    then show ?thesis by (simp add: defs) (simp add: status_view_def)
  next
    case (Some n)
    then have "status_view st nid = Some (cn_status n, cn_last_seen n)" by (simp add: status_view_def)
    with Some show ?thesis
      by (cases "node_verdict cfg now n") (auto simp: defs dest: verdict_status)
  qed
qed

lemma detect_listed:
  assumes "gossip_ok st"
  shows "listed (detect_failures cfg now st) key =
    listed st key - {n. n \<noteq> cs_local_node st \<and>
      (\<exists>r. hm_get (cs_nodes st) n = Some r \<and> node_verdict cfg now r = ToTombstone)}"
proof -
  define pick where "pick = (\<lambda>v. nodes_with_verdict cfg now v st)"
  define st3 where "st3 =
    fold (change_if (\<lambda>s. s = PFail) Fail) (pick ToFail)
      (fold (change_if (\<lambda>s. s = Online) PFail) (pick ToPFail)
        (fold (change_if can_recover Online) (pick Recover) st))"
  have named: "cs_named st3 = cs_named st" by (simp add: st3_def fold_same [of cs_named])
  then have "infos_ok st3"
    using assms by (auto simp: infos_ok_def gossip_ok_def named_ok_def info_good_def)
  then have "listed (purge_named (fold tombstone_node (pick ToTombstone) st3)) key =
      listed st key - {n \<in> set (pick ToTombstone). map_option fst (status_view st3 n) = Some Fail}"
    by (simp add: listed_purge infos_ok_tombstones listed_tombstones) (simp add: listed_def named)
  moreover have "map_option fst (status_view st3 n) = Some Fail" if "n \<in> set (pick ToTombstone)" for n
    using that
    by (auto simp: st3_def pick_def status_view_changes in_verdict_iff [OF assms])
       (auto simp: status_view_def verdict_status)
  ultimately have "listed (purge_named (fold tombstone_node (pick ToTombstone) st3)) key =
      listed st key - set (pick ToTombstone)"
    by auto
  moreover have "listed (fold remove_node nids s) key = listed s key" for nids s
    by (simp add: listed_def fold_same [of cs_named])
  moreover have "set (pick ToTombstone) = {n. n \<noteq> cs_local_node st \<and>
      (\<exists>r. hm_get (cs_nodes st) n = Some r \<and> node_verdict cfg now r = ToTombstone)}"
    by (auto simp: pick_def in_verdict_iff [OF assms])
  moreover have "listed st3 key = listed st key" by (simp add: listed_def named)
  ultimately show ?thesis
    by (auto simp: detect_failures_def Let_def purge_named_def [symmetric] pick_def [symmetric]
          st3_def [symmetric])
qed

text \<open>
  C2. A round of the failure detector moves every node but the local one by the single
  transition its status and silence call for, independently of the other nodes and of
  the order of the tables, leaves its last-seen time alone, and takes a node off the
  lookups of named actors exactly when it tombstones it.
\<close>

theorem detect_failures_refines:
  assumes "gossip_ok st"
  shows "status_view (detect_failures cfg now st) nid =
      (if nid = cs_local_node st then status_view st nid
       else Option.bind (hm_get (cs_nodes st) nid) (\<lambda>n.
         map_option (\<lambda>s. (s, cn_last_seen n)) (next_status (node_verdict cfg now n) (cn_status n)))) \<and>
    listed (detect_failures cfg now st) key =
      listed st key - {n. n \<noteq> cs_local_node st \<and>
        (\<exists>r. hm_get (cs_nodes st) n = Some r \<and> node_verdict cfg now r = ToTombstone)}"
  using detect_status [OF assms] detect_listed [OF assms] by simp

theorem detect_failures_refines_witness:
  "status_view (detect_failures gossip_config_default 20000 met_state) 2 = Some (PFail, 5)"
proof -
  have "gossip_ok met_state"
    unfolding met_state_def by (intro wf.I_handle_gossip gossip_ok_new) simp
  from detect_failures_refines [OF this, of gossip_config_default 20000 2]
  show ?thesis
    by (simp add: met_state_def cluster_state_new_def cluster_node_new_def meet_node_def log_call_def
        Let_def fix_addr_def node_verdict_def saturating_sub_def as_millis_u64_def
        gossip_config_default_def swim_config_default_def from_secs_def from_millis_def)
qed

subsection \<open>A node that stays silent\<close>

lemma detect_step:
  \<comment> \<open>one round, for one node that is not the local one\<close>
  assumes "gossip_ok st" and "nid \<noteq> cs_local_node st" and "status_view st nid = Some (s, l)"
    and "\<And>n. cn_status n = s \<Longrightarrow> cn_last_seen n = l \<Longrightarrow> node_verdict cfg now n = v"
  shows "status_view (detect_failures cfg now st) nid = map_option (\<lambda>s'. (s', l)) (next_status v s)"
proof -
  from assms(3) obtain n where "hm_get (cs_nodes st) nid = Some n" "cn_status n = s" "cn_last_seen n = l"
    by (auto simp: status_view_def)
  with assms(2,4) show ?thesis by (simp add: detect_status [OF assms(1)])
qed

lemma detect_unlists:
  assumes "gossip_ok st" and "nid \<noteq> cs_local_node st" and "status_view st nid = Some (Fail, l)"
    and "\<And>n. cn_status n = Fail \<Longrightarrow> cn_last_seen n = l \<Longrightarrow> node_verdict cfg now n = ToTombstone"
  shows "nid \<notin> listed (detect_failures cfg now st) key"
  using assms by (auto simp: detect_listed status_view_def)

definition silent :: "gossip_config \<Rightarrow> u64 \<Rightarrow> u64 \<Rightarrow> bool" where
  \<comment> \<open>not heard from for longer than every limit of the configuration\<close>
  "silent cfg l now \<longleftrightarrow>
     (\<forall>d \<in> {failure_timeout cfg, suspicion_timeout (swim cfg), cleanup_grace_period cfg,
            tombstone_retention cfg, recovery_observation_window cfg}.
        as_millis_u64 d < saturating_sub now l)"

lemma silent_verdict:
  "silent cfg (cn_last_seen n) now \<Longrightarrow>
     node_verdict cfg now n =
       (case cn_status n of Online \<Rightarrow> ToPFail | PFail \<Rightarrow> ToFail | Fail \<Rightarrow> ToTombstone
          | Tombstone \<Rightarrow> Remove | Handshake \<Rightarrow> Keep)"
  by (auto simp: silent_def node_verdict_def Let_def split: node_status.split)


lemma met_state_ok: "gossip_ok met_state"
  unfolding met_state_def by (intro wf.I_handle_gossip gossip_ok_new) simp

lemma met_state_view: "cs_local_node met_state = 1" "status_view met_state 2 = Some (Online, 5)"
  by (simp_all add: met_state_def cluster_state_new_def cluster_node_new_def meet_node_def log_call_def
        Let_def fix_addr_def status_view_def)

lemmas config_values = gossip_config_default_def swim_config_default_def from_secs_def
  from_millis_def as_millis_u64_def saturating_sub_def


text \<open>
  With the default configuration a silent node flaps: between 15 and 30 seconds of
  silence, three rounds take an online node through suspected and failed back to online,
  although nothing was heard from it, because the recovery window is longer than the two
  timeouts that precede it.
\<close>

theorem silent_node_flaps:
  assumes "gossip_ok st" and "nid \<noteq> cs_local_node st" and "status_view st nid = Some (Online, l)"
    and "\<forall>t \<in> {t1, t2, t3}. 15000 < saturating_sub t l \<and> saturating_sub t l \<le> 30000"
  shows "status_view (fold (detect_failures gossip_config_default) [t1] st) nid = Some (PFail, l) \<and>
    status_view (fold (detect_failures gossip_config_default) [t1, t2] st) nid = Some (Fail, l) \<and>
    status_view (fold (detect_failures gossip_config_default) [t1, t2, t3] st) nid = Some (Online, l)"
proof -
  let ?cfg = gossip_config_default
  define s1 where "s1 = detect_failures ?cfg t1 st"
  define s2 where "s2 = detect_failures ?cfg t2 s1"
  have ok: "gossip_ok s1" "gossip_ok s2"
    unfolding s1_def s2_def using assms(1) by (simp_all add: wf.I_detect_failures)
  have local: "nid \<noteq> cs_local_node s1" "nid \<noteq> cs_local_node s2"
    using assms(2) by (simp_all add: s1_def s2_def)
  have verdict: "node_verdict ?cfg t n = (case cn_status n of Online \<Rightarrow> ToPFail | PFail \<Rightarrow> ToFail
      | Fail \<Rightarrow> Recover | Tombstone \<Rightarrow> Recover | Handshake \<Rightarrow> Keep)"
    if "cn_last_seen n = l" "t \<in> {t1, t2, t3}" for n t
  proof -
    have "(15000::u64) < saturating_sub t l" "saturating_sub t l \<le> 30000" using assms(4) that by auto
    with that(1) show ?thesis
      by (simp add: node_verdict_def Let_def gossip_config_default_def swim_config_default_def
            from_secs_def as_millis_u64_def split: node_status.split)
  qed
  have v1: "status_view s1 nid = Some (PFail, l)"
    unfolding s1_def using assms
    by (subst detect_step [where s = Online and l = l and v = ToPFail]) (auto simp: verdict)
  then have v2: "status_view s2 nid = Some (Fail, l)"
    unfolding s2_def using ok local
    by (subst detect_step [where s = PFail and l = l and v = ToFail]) (auto simp: verdict)
  then have "status_view (detect_failures ?cfg t3 s2) nid = Some (Online, l)"
    using ok local by (subst detect_step [where s = Fail and l = l and v = Recover]) (auto simp: verdict)
  with v1 v2 show ?thesis by (simp add: s1_def s2_def)
qed

end
