(* ===== verification/Naming.thy ===== *)
theory Naming
  imports GossipDetect
begin

text \<open>
  The contract of a naming backend (trait \<^verbatim>\<open>NamingBackend\<close> of \<^verbatim>\<open>cluster/naming.rs\<close>) for the
  registration and lookup of named actors. The locale states what one operation does to
  one lookup; the client's view of whole histories is derived there: what a lookup
  returns depends only on the last operation on that name. It is interpreted here on
  the gossip backend (\<^verbatim>\<open>cluster/backends/gossip.rs\<close> forwards to the cluster) and, in
  \<open>HeadProps\<close>, on both modes of the head-node backend.
\<close>

datatype naming_op =
    NRegister actor_path
  | NRegisterFull actor_path actor_id metadata
  | NUnregister actor_path

fun op_key :: "naming_op \<Rightarrow> string" where
  "op_key (NRegister p) = path_as_str p"
| "op_key (NRegisterFull p _ _) = path_as_str p"
| "op_key (NUnregister p) = path_as_str p"

fun is_registration :: "naming_op \<Rightarrow> bool" where
  "is_registration (NUnregister _) = False"
| "is_registration _ = True"

definition nodes_of :: "named_actor_info option \<Rightarrow> node_id set" where
  "nodes_of found = (case found of None \<Rightarrow> {} | Some info \<Rightarrow> info_nodes info)"

definition decided :: "string \<Rightarrow> naming_op list \<Rightarrow> bool option" where
  \<comment> \<open>whether the last operation on a name registered it, if there was one\<close>
  "decided key ops = map_option is_registration (find (\<lambda>op. op_key op = key) (rev ops))"

definition settle :: "bool option \<Rightarrow> node_id \<Rightarrow> node_id set \<Rightarrow> node_id set" where
  "settle d n ns = (case d of None \<Rightarrow> ns | Some True \<Rightarrow> insert n ns | Some False \<Rightarrow> ns - {n})"

locale naming_backend =
  fixes run :: "naming_op \<Rightarrow> 's \<Rightarrow> 's"
    and lookup :: "actor_path \<Rightarrow> 's \<Rightarrow> named_actor_info option"
    and self :: "'s \<Rightarrow> node_id"
    and ok :: "'s \<Rightarrow> bool"
  assumes run_ok: "ok st \<Longrightarrow> ok (run op st)"
    and run_self: "ok st \<Longrightarrow> self (run op st) = self st"
    and lookup_good: "ok st \<Longrightarrow> lookup p st = Some info \<Longrightarrow> info_good info"
    and lookup_other: "ok st \<Longrightarrow> op_key op \<noteq> path_as_str p \<Longrightarrow> lookup p (run op st) = lookup p st"
    and lookup_same: "ok st \<Longrightarrow> op_key op = path_as_str p \<Longrightarrow>
      nodes_of (lookup p (run op st)) =
        settle (Some (is_registration op)) (self st) (nodes_of (lookup p st))"
    and lookup_details: "ok st \<Longrightarrow> op = NRegisterFull p aid md \<Longrightarrow>
      Option.bind (lookup p (run op st)) (info_get_instance (self st)) =
        Some (instance_with_metadata (self st) aid md)"
begin

lemma fold_run_ok: "ok st \<Longrightarrow> ok (fold run ops st) \<and> self (fold run ops st) = self st"
  by (induction ops arbitrary: st) (auto simp: run_ok run_self)

lemma nodes_after:
  assumes "ok st"
  shows "nodes_of (lookup p (fold run ops st)) =
    settle (decided (path_as_str p) ops) (self st) (nodes_of (lookup p st))"
proof (induction ops rule: rev_induct)
  case Nil
  then show ?case by (simp add: decided_def settle_def)
next
  case (snoc op ops)
  have ok: "ok (fold run ops st)" and self: "self (fold run ops st) = self st"
    using fold_run_ok [OF assms] by auto
  show ?case
  proof (cases "op_key op = path_as_str p")
    case True
    then show ?thesis
      using snoc lookup_same [OF ok True]
      by (cases "decided (path_as_str p) ops"; cases "the (decided (path_as_str p) ops)")
        (auto simp: decided_def self settle_def split: bool.splits)
  next
    case False
    then show ?thesis using snoc lookup_other [OF ok False] by (simp add: decided_def)
  qed
qed

lemma found_iff: "ok st \<Longrightarrow> lookup p st \<noteq> None \<longleftrightarrow> nodes_of (lookup p st) \<noteq> {}"
  using lookup_good [of st p] by (auto simp: nodes_of_def info_good_iff split: option.split)

lemma found_after_registration:
  assumes "ok st" and "decided (path_as_str p) ops = Some True"
  shows "\<exists>info. lookup p (fold run ops st) = Some info \<and> self st \<in> info_nodes info"
proof -
  have "self st \<in> nodes_of (lookup p (fold run ops st))"
    using nodes_after [OF assms(1), of p ops] assms(2) by (simp add: settle_def)
  then show ?thesis by (auto simp: nodes_of_def split: option.splits)
qed

lemma details_survive:
  \<comment> \<open>operations on other names keep what was registered\<close>
  assumes "ok st" and "\<forall>op \<in> set ops. op_key op \<noteq> path_as_str p"
  shows "Option.bind (lookup p (fold run ops (run (NRegisterFull p aid md) st))) (info_get_instance (self st)) =
    Some (instance_with_metadata (self st) aid md)"
proof -
  have "lookup p (fold run ops s) = lookup p s" if "ok s" for s
    using that assms(2) by (induction ops arbitrary: s) (auto simp: run_ok lookup_other)
  then show ?thesis using assms(1) by (simp add: run_ok lookup_details)
qed

end

subsection \<open>The table of named actors\<close>

lemma nodes_register_named:
  "nodes_of (hm_get (register_named p nid aid md m) k) =
     (if k = path_as_str p then insert nid (nodes_of (hm_get m k)) else nodes_of (hm_get m k))"
  by (auto simp: register_named_def nodes_of_def Let_def hm_simps instance_with_metadata_def
        split: option.split)

lemma nodes_unregister_named:
  assumes "named_ok m"
  shows "nodes_of (hm_get (unregister_named p nid m) k) =
     (if k = path_as_str p then nodes_of (hm_get m k) - {nid} else nodes_of (hm_get m k))"
proof (cases "hm_get m (path_as_str p)")
  case (Some info)
  then have "info_ok (snd (remove_instance nid info))"
    using assms by (auto simp: named_ok_def info_good_def)
  with Some show ?thesis
    by (auto simp: unregister_named_def nodes_of_def Let_def hm_simps info_is_empty_iff)
qed (simp add: unregister_named_def nodes_of_def Let_def)

lemma get_register_other: "k \<noteq> path_as_str p \<Longrightarrow> hm_get (register_named p nid aid md m) k = hm_get m k"
  by (simp add: register_named_def Let_def hm_simps split: option.split)

lemma get_unregister_other: "k \<noteq> path_as_str p \<Longrightarrow> hm_get (unregister_named p nid m) k = hm_get m k"
  by (simp add: unregister_named_def Let_def hm_simps split: option.split)

lemma details_register_named:
  "Option.bind (hm_get (register_named p nid (Some aid) md m) (path_as_str p)) (info_get_instance nid) =
     Some (instance_with_metadata nid aid md)"
  by (auto simp: register_named_def Let_def hm_simps info_get_instance_def info_with_full_instance_def
        add_full_instance_def instance_with_metadata_def split: option.split)

subsection \<open>The gossip backend\<close>

fun gossip_run :: "gossip_env \<Rightarrow> gossip_config \<Rightarrow> naming_op \<Rightarrow> cluster_state \<Rightarrow> cluster_state" where
  "gossip_run env cfg (NRegister p) st = snd (register_named_actor env cfg p st)"
| "gossip_run env cfg (NRegisterFull p aid md) st = snd (register_named_actor_full env cfg p aid md st)"
| "gossip_run env cfg (NUnregister p) st = snd (unregister_named_actor env cfg p st)"

lemma gossip_run_local [simp]: "cs_local_node (gossip_run env cfg op st) = cs_local_node st"
  by (cases op) simp_all

lemma gossip_run_named:
  "cs_named (gossip_run env cfg op st) =
     (case op of
        NRegister p \<Rightarrow> register_named p (cs_local_node st) None [] (cs_named st)
      | NRegisterFull p aid md \<Rightarrow> register_named p (cs_local_node st) (Some aid) md (cs_named st)
      | NUnregister p \<Rightarrow> unregister_named p (cs_local_node st) (cs_named st))"
  by (cases op)
    (simp_all add: register_named_actor_def register_named_actor_full_def unregister_named_actor_def
      unregister_actor_def Let_def split: option.split)

declare gossip_run.simps [simp del]

interpretation gn: naming_backend "gossip_run env cfg" lookup_named_actor cs_local_node gossip_ok
  for env cfg
proof unfold_locales
  fix st op assume "gossip_ok st"
  then show "gossip_ok (gossip_run env cfg op st)" by (cases op) (auto simp: gossip_run.simps intro: wf.I_register_ops)
next
  fix st op p assume "gossip_ok st" "op_key op = path_as_str p"
  then show "nodes_of (lookup_named_actor p (gossip_run env cfg op st)) =
      settle (Some (is_registration op)) (cs_local_node st) (nodes_of (lookup_named_actor p st))"
    by (cases op)
      (auto simp: lookup_named_actor_def gossip_run_named nodes_register_named nodes_unregister_named
        settle_def gossip_ok_def)
next
  fix st op p assume "gossip_ok st" "op_key op \<noteq> path_as_str p"
  then show "lookup_named_actor p (gossip_run env cfg op st) = lookup_named_actor p st"
    by (cases op)
      (auto simp: lookup_named_actor_def gossip_run_named get_register_other get_unregister_other)
qed (auto simp: lookup_named_actor_def gossip_run_named details_register_named gossip_ok_def named_ok_def)

text \<open>
  C5. On the gossip backend, after any history of registrations and unregistrations of a
  node, its own lookup of a name lists the other nodes exactly as before and lists the
  node itself if and only if the last operation on that name registered it (or, without
  one, if it was listed before); an entry that lists nobody is not found at all.
\<close>

theorem gossip_naming_history:
  assumes "gossip_ok st"
  shows "nodes_of (lookup_named_actor p (fold (gossip_run env cfg) ops st)) =
      settle (decided (path_as_str p) ops) (cs_local_node st) (nodes_of (lookup_named_actor p st)) \<and>
    (lookup_named_actor p (fold (gossip_run env cfg) ops st) = None \<longleftrightarrow>
      nodes_of (lookup_named_actor p (fold (gossip_run env cfg) ops st)) = {})"
  using gn.nodes_after [OF assms] gn.found_iff [of "fold (gossip_run env cfg) ops st" p]
    gn.fold_run_ok [OF assms] by blast

theorem gossip_naming_history_witness:
  "nodes_of (lookup_named_actor demo_path
     (fold (gossip_run plain_env gossip_config_default)
       [NRegisterFull demo_path 7 [], NRegister \<lparr>segments = [''x'', ''y'']\<rparr>] met_state)) = {1}"
  using gossip_naming_history [OF met_state_ok, of demo_path plain_env gossip_config_default
      "[NRegisterFull demo_path 7 [], NRegister \<lparr>segments = [''x'', ''y'']\<rparr>]"]
  by (simp add: decided_def settle_def path_as_str_def join_with.simps met_state_view)
    (simp add: nodes_of_def lookup_named_actor_def met_state_def cluster_state_new_def meet_node_def
      Let_def log_call_def)

end
