(* ===== verification/HeadNode.thy ===== *)
theory HeadNode
  imports Naming
begin

text \<open>
  The head-node naming backend, \<^verbatim>\<open>cluster/backends/head.rs\<close>, and the dispatch of its HTTP
  endpoints, \<^verbatim>\<open>handle_head_api_impl\<close> of \<^verbatim>\<open>system/handler.rs\<close>: the tables of the head, the
  cache and the queue of pending operations of a worker, the handlers, the naming
  operations in both modes and one tick of each background loop. The serializer and the
  HTTP client are fields of \<open>head_env\<close>.
\<close>

subsection \<open>Data\<close>

record head_node_config =
  sync_interval :: duration
  heartbeat_interval :: duration
  heartbeat_timeout :: duration

definition head_node_config_default :: head_node_config where
  "head_node_config_default =
     \<lparr>sync_interval = from_secs 5, heartbeat_interval = from_secs 10, heartbeat_timeout = from_secs 30\<rparr>"

datatype node_mode = HeadMode | WorkerMode socket_addr

record node_registration =
  nr_node_id :: node_id
  nr_addr :: socket_addr
  nr_last_heartbeat :: u64

record head_node_state =
  hs_nodes :: "(node_id, node_registration) hash_map"
  hs_named :: "(string, named_actor_info) hash_map"
  hs_actors :: "(actor_id, node_id) hash_map"

datatype sync_operation =
    RegisterNamed actor_path "actor_id option" metadata
  | UnregisterNamed actor_path
  | Register actor_id
  | Unregister actor_id

record sync_response =
  sr_members :: "member_info list"
  sr_named_actors :: "named_actor_info list"
  sr_actors :: "(actor_id \<times> node_id) list"

record worker_node_state =
  ws_members :: "(node_id, member_info) hash_map"
  ws_named :: "(string, named_actor_info) hash_map"
  ws_actors :: "(actor_id, node_id) hash_map"
  ws_pending :: "sync_operation list"

datatype backend_state = Head head_node_state | Worker worker_node_state

record head_backend =
  hb_mode :: node_mode
  hb_local_node :: node_id
  hb_local_addr :: socket_addr
  hb_state :: backend_state
  hb_config :: head_node_config

datatype head_error = OtherError string | NodeNotFound string | Serialization

datatype head_request =
    RegisterNodeRequest node_id socket_addr
  | HeartbeatRequest node_id
  | RegisterNamedActorRequest actor_path node_id "actor_id option" metadata
  | UnregisterNamedActorRequest actor_path node_id
  | RegisterActorRequest actor_id node_id
  | UnregisterActorRequest actor_id node_id

record head_env =
  he_encode :: "head_request \<Rightarrow> bytes option"
  he_decode :: "string \<Rightarrow> bytes \<Rightarrow> head_request option"  \<comment> \<open>at the request type of the endpoint\<close>
  he_encode_members :: "member_info list \<Rightarrow> bytes option"
  he_encode_named :: "named_actor_info list \<Rightarrow> bytes option"
  he_encode_sync :: "sync_response \<Rightarrow> bytes option"
  he_decode_sync :: "bytes \<Rightarrow> sync_response option"
  he_tell :: "nat \<Rightarrow> socket_addr \<Rightarrow> string \<Rightarrow> string \<Rightarrow> bytes \<Rightarrow> string option"
    \<comment> \<open>the error text of a failed request, by the number of the request\<close>
  he_ask :: "nat \<Rightarrow> socket_addr \<Rightarrow> string \<Rightarrow> string \<Rightarrow> bytes \<Rightarrow> string + bytes"
  he_choose :: "node_id list \<Rightarrow> node_id option"

subsection \<open>The tables of the head\<close>

definition head_state_new :: head_node_state where
  "head_state_new = \<lparr>hs_nodes = [], hs_named = [], hs_actors = []\<rparr>"

definition hs_register_node :: "u64 \<Rightarrow> node_id \<Rightarrow> socket_addr \<Rightarrow> head_node_state \<Rightarrow> head_node_state" where
  "hs_register_node now nid a st =
     st\<lparr>hs_nodes := hm_insert nid \<lparr>nr_node_id = nid, nr_addr = a, nr_last_heartbeat = now\<rparr> (hs_nodes st)\<rparr>"

definition hs_update_heartbeat :: "u64 \<Rightarrow> node_id \<Rightarrow> head_node_state \<Rightarrow> bool \<times> head_node_state" where
  "hs_update_heartbeat now nid st =
     (case hm_get (hs_nodes st) nid of
        Some reg \<Rightarrow> (True, st\<lparr>hs_nodes := hm_insert nid (reg\<lparr>nr_last_heartbeat := now\<rparr>) (hs_nodes st)\<rparr>)
      | None \<Rightarrow> (False, st))"

definition hs_forget_node :: "node_id \<Rightarrow> head_node_state \<Rightarrow> head_node_state" where
  \<comment> \<open>what is cleared for each removed node\<close>
  "hs_forget_node nid st =
     st\<lparr>hs_named := hm_retain (\<lambda>_ info. \<not> info_is_empty info)
          (hm_map_values (\<lambda>info. snd (remove_instance nid info)) (hs_named st)),
        hs_actors := hm_retain (\<lambda>_ n. n \<noteq> nid) (hs_actors st)\<rparr>"

definition hs_remove_stale_nodes :: "u64 \<Rightarrow> u64 \<Rightarrow> head_node_state \<Rightarrow> node_id list \<times> head_node_state" where
  "hs_remove_stale_nodes now timeout_ms st =
     (let stale = (\<lambda>reg. saturating_sub now (nr_last_heartbeat reg) > timeout_ms);
          removed = map fst (filter (\<lambda>(_, reg). stale reg) (hs_nodes st));
          st1 = st\<lparr>hs_nodes := hm_retain (\<lambda>_ reg. \<not> stale reg) (hs_nodes st)\<rparr>
      in (removed, fold hs_forget_node removed st1))"

definition hs_register_named_actor ::
  "actor_path \<Rightarrow> node_id \<Rightarrow> actor_id option \<Rightarrow> metadata \<Rightarrow> head_node_state \<Rightarrow> head_node_state" where
  "hs_register_named_actor path nid aid md st =
     st\<lparr>hs_named := register_named path nid aid md (hs_named st)\<rparr>"

definition hs_unregister_named_actor :: "actor_path \<Rightarrow> node_id \<Rightarrow> head_node_state \<Rightarrow> head_node_state" where
  "hs_unregister_named_actor path nid st =
     st\<lparr>hs_named := unregister_named path nid (hs_named st)\<rparr>"

definition hs_register_actor :: "actor_id \<Rightarrow> node_id \<Rightarrow> head_node_state \<Rightarrow> head_node_state" where
  "hs_register_actor aid nid st = st\<lparr>hs_actors := hm_insert aid nid (hs_actors st)\<rparr>"

definition hs_unregister_actor :: "actor_id \<Rightarrow> head_node_state \<Rightarrow> head_node_state" where
  "hs_unregister_actor aid st = st\<lparr>hs_actors := hm_remove aid (hs_actors st)\<rparr>"

definition reg_to_member :: "node_registration \<Rightarrow> member_info" where
  "reg_to_member reg =
     \<lparr>mi_node_id = nr_node_id reg, mi_addr = nr_addr reg, mi_gossip_addr = nr_addr reg,
      mi_status = Alive, mi_incarnation = 0, mi_last_update = None\<rparr>"

definition hs_all_members :: "head_node_state \<Rightarrow> member_info list" where
  "hs_all_members st = map reg_to_member (hm_values (hs_nodes st))"

definition hs_all_named_actors :: "head_node_state \<Rightarrow> named_actor_info list" where
  "hs_all_named_actors st = hm_values (hs_named st)"

subsection \<open>The cache of a worker\<close>

definition worker_state_new :: worker_node_state where
  "worker_state_new = \<lparr>ws_members = [], ws_named = [], ws_actors = [], ws_pending = []\<rparr>"

definition update_from_sync :: "sync_response \<Rightarrow> worker_node_state \<Rightarrow> worker_node_state" where
  "update_from_sync sync ws =
     ws\<lparr>ws_members := fold (\<lambda>m. hm_insert (mi_node_id m) m) (sr_members sync) [],
        ws_named := fold (\<lambda>i. hm_insert (path_as_str (na_path i)) i) (sr_named_actors sync) [],
        ws_actors := fold (\<lambda>(aid, nid). hm_insert aid nid) (sr_actors sync) []\<rparr>"

definition add_pending_sync :: "sync_operation \<Rightarrow> worker_node_state \<Rightarrow> worker_node_state" where
  "add_pending_sync op ws = ws\<lparr>ws_pending := ws_pending ws @ [op]\<rparr>"

definition take_pending_sync :: "worker_node_state \<Rightarrow> sync_operation list \<times> worker_node_state" where
  "take_pending_sync ws = (ws_pending ws, ws\<lparr>ws_pending := []\<rparr>)"

subsection \<open>The handlers of the head\<close>

definition head_backend_new ::
  "node_id \<Rightarrow> socket_addr \<Rightarrow> bool \<Rightarrow> socket_addr option \<Rightarrow> head_node_config \<Rightarrow> head_backend" where
  "head_backend_new nid a is_head head_addr cfg =
     \<lparr>hb_mode = (case head_addr of Some h \<Rightarrow> WorkerMode h | None \<Rightarrow> HeadMode),
      hb_local_node = nid, hb_local_addr = a,
      hb_state = (case head_addr of Some _ \<Rightarrow> Worker worker_state_new | None \<Rightarrow> Head head_state_new),
      hb_config = cfg\<rparr>"

definition is_head :: "head_backend \<Rightarrow> bool" where
  "is_head b \<longleftrightarrow> hb_mode b = HeadMode"

definition head_addr :: "head_backend \<Rightarrow> socket_addr option" where
  "head_addr b = (case hb_mode b of HeadMode \<Rightarrow> None | WorkerMode h \<Rightarrow> Some h)"

definition on_head :: "(head_node_state \<Rightarrow> head_node_state) \<Rightarrow> head_backend \<Rightarrow> head_backend" where
  \<comment> \<open>\<^verbatim>\<open>if let BackendState::Head(ref mut head_state) = *state\<close>\<close>
  "on_head f b = (case hb_state b of Head hs \<Rightarrow> b\<lparr>hb_state := Head (f hs)\<rparr> | Worker _ \<Rightarrow> b)"

definition on_worker :: "(worker_node_state \<Rightarrow> worker_node_state) \<Rightarrow> head_backend \<Rightarrow> head_backend" where
  "on_worker f b = (case hb_state b of Worker ws \<Rightarrow> b\<lparr>hb_state := Worker (f ws)\<rparr> | Head _ \<Rightarrow> b)"

definition head_only ::
  "(head_node_state \<Rightarrow> head_node_state) \<Rightarrow> head_backend \<Rightarrow> (head_error + unit) \<times> head_backend" where
  "head_only f b = (if \<not> is_head b then (Inl (OtherError ''Not a head node''), b) else (Inr (), on_head f b))"

definition handle_register_node ::
  "u64 \<Rightarrow> node_id \<Rightarrow> socket_addr \<Rightarrow> head_backend \<Rightarrow> (head_error + unit) \<times> head_backend" where
  "handle_register_node now nid a = head_only (hs_register_node now nid a)"

definition handle_heartbeat :: "u64 \<Rightarrow> node_id \<Rightarrow> head_backend \<Rightarrow> (head_error + unit) \<times> head_backend" where
  "handle_heartbeat now nid b =
     (if \<not> is_head b then (Inl (OtherError ''Not a head node''), b)
      else case hb_state b of
             Head hs \<Rightarrow>
               (case hs_update_heartbeat now nid hs of
                  (True, hs') \<Rightarrow> (Inr (), b\<lparr>hb_state := Head hs'\<rparr>)
                | (False, hs') \<Rightarrow> (Inl (NodeNotFound (nat_to_dec (unat nid))), b\<lparr>hb_state := Head hs'\<rparr>))
           | Worker _ \<Rightarrow> (Inl (OtherError ''Invalid state''), b))"

definition handle_register_named_actor ::
  "actor_path \<Rightarrow> node_id \<Rightarrow> actor_id option \<Rightarrow> metadata \<Rightarrow> head_backend \<Rightarrow>
   (head_error + unit) \<times> head_backend" where
  "handle_register_named_actor path nid aid md = head_only (hs_register_named_actor path nid aid md)"

definition handle_unregister_named_actor ::
  "actor_path \<Rightarrow> node_id \<Rightarrow> head_backend \<Rightarrow> (head_error + unit) \<times> head_backend" where
  "handle_unregister_named_actor path nid = head_only (hs_unregister_named_actor path nid)"

definition handle_register_actor ::
  "actor_id \<Rightarrow> node_id \<Rightarrow> head_backend \<Rightarrow> (head_error + unit) \<times> head_backend" where
  "handle_register_actor aid nid = head_only (hs_register_actor aid nid)"

definition handle_unregister_actor ::
  "actor_id \<Rightarrow> node_id \<Rightarrow> head_backend \<Rightarrow> (head_error + unit) \<times> head_backend" where
  "handle_unregister_actor aid nid =
     head_only (\<lambda>hs. if hm_get (hs_actors hs) aid = Some nid then hs_unregister_actor aid hs else hs)"

definition sync_of :: "head_node_state \<Rightarrow> sync_response" where
  "sync_of hs =
     \<lparr>sr_members = hs_all_members hs, sr_named_actors = hs_all_named_actors hs, sr_actors = hs_actors hs\<rparr>"

definition handle_sync :: "head_backend \<Rightarrow> head_error + sync_response" where
  "handle_sync b =
     (if \<not> is_head b then Inl (OtherError ''Not a head node'')
      else case hb_state b of
             Head hs \<Rightarrow> Inr (sync_of hs)
           | Worker _ \<Rightarrow> Inl (OtherError ''Invalid state''))"

definition hb_all_members :: "head_backend \<Rightarrow> member_info list" where
  "hb_all_members b =
     (case hb_state b of
        Head hs \<Rightarrow> if is_head b then hs_all_members hs else []
      | Worker ws \<Rightarrow> if is_head b then [] else hm_values (ws_members ws))"

definition hb_all_named_actors :: "head_backend \<Rightarrow> named_actor_info list" where
  "hb_all_named_actors b =
     (case hb_state b of
        Head hs \<Rightarrow> if is_head b then hs_all_named_actors hs else []
      | Worker ws \<Rightarrow> if is_head b then [] else hm_values (ws_named ws))"

definition apply_request ::
  "u64 \<Rightarrow> head_request \<Rightarrow> head_backend \<Rightarrow> (head_error + unit) \<times> head_backend" where
  "apply_request now req =
     (case req of
        RegisterNodeRequest nid a \<Rightarrow> handle_register_node now nid a
      | HeartbeatRequest nid \<Rightarrow> handle_heartbeat now nid
      | RegisterNamedActorRequest p nid aid md \<Rightarrow> handle_register_named_actor p nid aid md
      | UnregisterNamedActorRequest p nid \<Rightarrow> handle_unregister_named_actor p nid
      | RegisterActorRequest aid nid \<Rightarrow> handle_register_actor aid nid
      | UnregisterActorRequest aid nid \<Rightarrow> handle_unregister_actor aid nid)"

fun request_route :: "head_request \<Rightarrow> string" where
  "request_route (RegisterNodeRequest _ _) = ''/cluster/head/register''"
| "request_route (HeartbeatRequest _) = ''/cluster/head/heartbeat''"
| "request_route (RegisterNamedActorRequest _ _ _ _) = ''/cluster/head/named_actor/register''"
| "request_route (UnregisterNamedActorRequest _ _) = ''/cluster/head/named_actor/unregister''"
| "request_route (RegisterActorRequest _ _) = ''/cluster/head/actor/register''"
| "request_route (UnregisterActorRequest _ _) = ''/cluster/head/actor/unregister''"

definition post_routes :: "string list" where
  "post_routes = [''/cluster/head/register'', ''/cluster/head/heartbeat'',
     ''/cluster/head/named_actor/register'', ''/cluster/head/named_actor/unregister'',
     ''/cluster/head/actor/register'', ''/cluster/head/actor/unregister'']"

definition encoded :: "bytes option \<Rightarrow> head_error + bytes option" where
  "encoded body = (case body of Some bs \<Rightarrow> Inr (Some bs) | None \<Rightarrow> Inl Serialization)"

definition handle_head_api ::
  "head_env \<Rightarrow> u64 \<Rightarrow> string \<Rightarrow> string \<Rightarrow> bytes \<Rightarrow> head_backend \<Rightarrow>
   (head_error + bytes option) \<times> head_backend" where
  \<comment> \<open>the first \<open>None\<close> of the result is the answer of a backend that is not a head\<close>
  "handle_head_api env now path meth body b =
     (if \<not> is_head b then (Inr None, b)
      else if meth = ''POST'' \<and> path \<in> set post_routes then
        (case he_decode env path body of
           None \<Rightarrow> (Inl Serialization, b)
         | Some req \<Rightarrow>
             (case apply_request now req b of
                (Inl e, b') \<Rightarrow> (Inl e, b')
              | (Inr _, b') \<Rightarrow> (Inr (Some []), b')))
      else if meth \<in> {''GET'', ''POST''} \<and> path = ''/cluster/head/members''
      then (encoded (he_encode_members env (hb_all_members b)), b)
      else if meth \<in> {''GET'', ''POST''} \<and> path = ''/cluster/head/named_actors''
      then (encoded (he_encode_named env (hb_all_named_actors b)), b)
      else if meth \<in> {''GET'', ''POST''} \<and> path = ''/cluster/head/sync''
      then (case handle_sync b of
              Inl e \<Rightarrow> (Inl e, b)
            | Inr s \<Rightarrow> (encoded (he_encode_sync env s), b))
      else (Inl (OtherError (''Unknown head API endpoint: '' @ meth @ '' '' @ path)), b))"

subsection \<open>The requests of a worker\<close>

definition request_type :: "head_request \<Rightarrow> string" where
  "request_type req =
     (case req of
        RegisterNodeRequest _ _ \<Rightarrow> ''register_node''
      | HeartbeatRequest _ \<Rightarrow> ''heartbeat''
      | RegisterNamedActorRequest _ _ _ _ \<Rightarrow> ''register_named_actor''
      | UnregisterNamedActorRequest _ _ \<Rightarrow> ''unregister_named_actor''
      | RegisterActorRequest _ _ \<Rightarrow> ''register_actor''
      | UnregisterActorRequest _ _ \<Rightarrow> ''unregister_actor'')"

definition tell_head :: "head_env \<Rightarrow> nat \<Rightarrow> head_request \<Rightarrow> bytes \<Rightarrow> head_backend \<Rightarrow> head_error option" where
  "tell_head env i req payload b =
     (case head_addr b of
        None \<Rightarrow> Some (OtherError ''Cannot send to head node: this is a head node'')
      | Some h \<Rightarrow> map_option OtherError (he_tell env i h (request_route req) (request_type req) payload))"

definition send_request :: "head_env \<Rightarrow> nat \<Rightarrow> head_request \<Rightarrow> head_backend \<Rightarrow> head_error + unit" where
  "send_request env i req b =
     (case he_encode env req of
        None \<Rightarrow> Inl Serialization
      | Some payload \<Rightarrow> (case tell_head env i req payload b of None \<Rightarrow> Inr () | Some e \<Rightarrow> Inl e))"

definition register_with_head :: "head_env \<Rightarrow> nat \<Rightarrow> head_backend \<Rightarrow> head_error + unit" where
  "register_with_head env i b =
     (if is_head b then Inl (OtherError ''Cannot register: this is a head node'')
      else send_request env i (RegisterNodeRequest (hb_local_node b) (hb_local_addr b)) b)"

definition send_heartbeat :: "head_env \<Rightarrow> nat \<Rightarrow> head_backend \<Rightarrow> head_error + unit" where
  "send_heartbeat env i b =
     (if is_head b then Inl (OtherError ''Cannot send heartbeat: this is a head node'')
      else send_request env i (HeartbeatRequest (hb_local_node b)) b)"

definition sync_from_head :: "head_env \<Rightarrow> nat \<Rightarrow> head_backend \<Rightarrow> (head_error + unit) \<times> head_backend" where
  "sync_from_head env i b =
     (if is_head b then (Inl (OtherError ''Cannot sync: this is a head node''), b)
      else case head_addr b of
             None \<Rightarrow> (Inl (OtherError ''Cannot make request to head node: this is a head node''), b)
           | Some h \<Rightarrow>
               (case he_ask env i h ''/cluster/head/sync'' ''sync'' [] of
                  Inl e \<Rightarrow> (Inl (OtherError e), b)
                | Inr resp \<Rightarrow>
                    (case he_decode_sync env resp of
                       None \<Rightarrow> (Inl Serialization, b)
                     | Some s \<Rightarrow> (Inr (), on_worker (update_from_sync s) b))))"

definition op_request :: "node_id \<Rightarrow> sync_operation \<Rightarrow> head_request" where
  "op_request local op =
     (case op of
        RegisterNamed p aid md \<Rightarrow> RegisterNamedActorRequest p local aid md
      | UnregisterNamed p \<Rightarrow> UnregisterNamedActorRequest p local
      | Register aid \<Rightarrow> RegisterActorRequest aid local
      | Unregister aid \<Rightarrow> UnregisterActorRequest aid local)"

fun flush_pending ::
  "head_env \<Rightarrow> nat \<Rightarrow> sync_operation list \<Rightarrow> head_backend \<Rightarrow> (head_error + unit) \<times> head_backend" where
  \<comment> \<open>a serialization error ends the loop; a failed request puts the operation back\<close>
  "flush_pending env i [] b = (Inr (), b)"
| "flush_pending env i (op # ops) b =
     (let req = op_request (hb_local_node b) op
      in case he_encode env req of
           None \<Rightarrow> (Inl Serialization, b)
         | Some payload \<Rightarrow>
             (case tell_head env i req payload b of
                None \<Rightarrow> flush_pending env (Suc i) ops b
              | Some _ \<Rightarrow> flush_pending env (Suc i) ops (on_worker (add_pending_sync op) b)))"

definition process_pending_sync ::
  "head_env \<Rightarrow> nat \<Rightarrow> head_backend \<Rightarrow> (head_error + unit) \<times> head_backend" where
  "process_pending_sync env i b =
     (if is_head b then (Inr (), b)
      else case hb_state b of
             Head _ \<Rightarrow> (Inr (), b)
           | Worker ws \<Rightarrow>
               (case take_pending_sync ws of
                  (ops, ws') \<Rightarrow> flush_pending env i ops (b\<lparr>hb_state := Worker ws'\<rparr>)))"

subsection \<open>The naming operations\<close>

definition hb_join :: "head_env \<Rightarrow> nat \<Rightarrow> u64 \<Rightarrow> head_backend \<Rightarrow> (head_error + unit) \<times> head_backend" where
  "hb_join env i now b =
     (if is_head b
      then (Inr (), on_head (hs_register_node now (hb_local_node b) (hb_local_addr b)) b)
      else case register_with_head env i b of
             Inl e \<Rightarrow> (Inl e, b)
           | Inr _ \<Rightarrow> sync_from_head env (Suc i) b)"

definition hb_leave :: "head_backend \<Rightarrow> head_backend" where
  "hb_leave b =
     (if is_head b then on_head (\<lambda>hs. hs\<lparr>hs_nodes := [], hs_named := [], hs_actors := []\<rparr>) b else b)"

definition hb_alive_members :: "head_backend \<Rightarrow> member_info list" where
  "hb_alive_members b =
     filter (\<lambda>m. mi_status m = Alive \<and> mi_node_id m \<noteq> hb_local_node b) (hb_all_members b)"

definition hb_get_member :: "node_id \<Rightarrow> head_backend \<Rightarrow> member_info option" where
  "hb_get_member nid b =
     (case hb_state b of
        Head hs \<Rightarrow> if is_head b then map_option reg_to_member (hm_get (hs_nodes hs) nid) else None
      | Worker ws \<Rightarrow> if is_head b then None else hm_get (ws_members ws) nid)"

definition queue_and_flush ::
  "head_env \<Rightarrow> nat \<Rightarrow> sync_operation \<Rightarrow> (worker_node_state \<Rightarrow> worker_node_state) \<Rightarrow>
   head_backend \<Rightarrow> head_backend" where
  \<comment> \<open>the worker's part of every operation: queue it, update the cache, try to send at once\<close>
  "queue_and_flush env i op cache b =
     snd (process_pending_sync env i (on_worker (\<lambda>ws. cache (add_pending_sync op ws)) b))"

definition hb_register_named_actor :: "head_env \<Rightarrow> nat \<Rightarrow> actor_path \<Rightarrow> head_backend \<Rightarrow> head_backend" where
  "hb_register_named_actor env i path b =
     (let self = hb_local_node b
      in if is_head b then on_head (hs_register_named_actor path self None []) b
         else queue_and_flush env i (RegisterNamed path None [])
                (\<lambda>ws. ws\<lparr>ws_named := register_named path self None [] (ws_named ws)\<rparr>) b)"

definition hb_register_named_actor_full ::
  "head_env \<Rightarrow> nat \<Rightarrow> actor_path \<Rightarrow> actor_id \<Rightarrow> metadata \<Rightarrow> head_backend \<Rightarrow> head_backend" where
  "hb_register_named_actor_full env i path aid md b =
     (let self = hb_local_node b
      in if is_head b then on_head (hs_register_named_actor path self (Some aid) md) b
         else queue_and_flush env i (RegisterNamed path (Some aid) md)
                (\<lambda>ws. ws\<lparr>ws_named := register_named path self (Some aid) md (ws_named ws)\<rparr>) b)"

definition hb_unregister_named_actor :: "head_env \<Rightarrow> nat \<Rightarrow> actor_path \<Rightarrow> head_backend \<Rightarrow> head_backend" where
  "hb_unregister_named_actor env i path b =
     (let self = hb_local_node b
      in if is_head b then on_head (hs_unregister_named_actor path self) b
         else queue_and_flush env i (UnregisterNamed path)
                (\<lambda>ws. ws\<lparr>ws_named := unregister_named path self (ws_named ws)\<rparr>) b)"

definition hb_broadcast_named_actor_failed ::
  "head_env \<Rightarrow> nat \<Rightarrow> actor_path \<Rightarrow> string \<Rightarrow> head_backend \<Rightarrow> head_backend" where
  "hb_broadcast_named_actor_failed env i path reason b = hb_unregister_named_actor env i path b"

definition hb_lookup_named_actor :: "actor_path \<Rightarrow> head_backend \<Rightarrow> named_actor_info option" where
  "hb_lookup_named_actor path b =
     (case hb_state b of
        Head hs \<Rightarrow> if is_head b then hm_get (hs_named hs) (path_as_str path) else None
      | Worker ws \<Rightarrow> if is_head b then None else hm_get (ws_named ws) (path_as_str path))"

definition hb_select_named_actor_instance :: "head_env \<Rightarrow> actor_path \<Rightarrow> head_backend \<Rightarrow> member_info option" where
  "hb_select_named_actor_instance env path b =
     Option.bind (hb_lookup_named_actor path b) (\<lambda>info.
       Option.bind (select_instance (he_choose env) info) (\<lambda>nid. hb_get_member nid b))"

definition hb_get_named_actor_instances :: "actor_path \<Rightarrow> head_backend \<Rightarrow> member_info list" where
  "hb_get_named_actor_instances path b =
     (case hb_lookup_named_actor path b of
        None \<Rightarrow> []
      | Some info \<Rightarrow> List.map_filter (\<lambda>nid. hb_get_member nid b) (na_instance_nodes info))"

definition hb_get_named_actor_instances_detailed ::
  "actor_path \<Rightarrow> head_backend \<Rightarrow> (member_info \<times> named_actor_instance option) list" where
  "hb_get_named_actor_instances_detailed path b =
     (case hb_lookup_named_actor path b of
        None \<Rightarrow> []
      | Some info \<Rightarrow>
          List.map_filter
            (\<lambda>nid. map_option (\<lambda>m. (m, info_get_instance nid info)) (hb_get_member nid b))
            (na_instance_nodes info))"

definition hb_register_actor :: "head_env \<Rightarrow> nat \<Rightarrow> actor_id \<Rightarrow> head_backend \<Rightarrow> head_backend" where
  "hb_register_actor env i aid b =
     (let self = hb_local_node b
      in if is_head b then on_head (hs_register_actor aid self) b
         else queue_and_flush env i (Register aid)
                (\<lambda>ws. ws\<lparr>ws_actors := hm_insert aid self (ws_actors ws)\<rparr>) b)"

definition hb_unregister_actor :: "head_env \<Rightarrow> nat \<Rightarrow> actor_id \<Rightarrow> head_backend \<Rightarrow> head_backend" where
  "hb_unregister_actor env i aid b =
     (if is_head b then on_head (hs_unregister_actor aid) b
      else queue_and_flush env i (Unregister aid)
             (\<lambda>ws. ws\<lparr>ws_actors := hm_remove aid (ws_actors ws)\<rparr>) b)"

definition hb_lookup_actor :: "actor_id \<Rightarrow> head_backend \<Rightarrow> member_info option" where
  "hb_lookup_actor aid b =
     Option.bind
       (case hb_state b of
          Head hs \<Rightarrow> if is_head b then hm_get (hs_actors hs) aid else None
        | Worker ws \<Rightarrow> if is_head b then None else hm_get (ws_actors ws) aid)
       (\<lambda>nid. hb_get_member nid b)"

subsection \<open>One tick of the background loops\<close>

definition heartbeat_timeout_tick :: "u64 \<Rightarrow> head_backend \<Rightarrow> head_backend" where
  "heartbeat_timeout_tick now b =
     on_head (\<lambda>hs. snd (hs_remove_stale_nodes now (as_millis_u64 (heartbeat_timeout (hb_config b))) hs)) b"

datatype loop_step = Continue | Cancel

definition worker_sync_tick :: "head_env \<Rightarrow> nat \<Rightarrow> head_backend \<Rightarrow> loop_step \<times> head_backend" where
  "worker_sync_tick env i b =
     (case sync_from_head env i b of
        (Inl _, b') \<Rightarrow> (Cancel, b')
      | (Inr _, b') \<Rightarrow> (Continue, snd (process_pending_sync env (Suc i) b')))"

definition worker_heartbeat_tick :: "head_env \<Rightarrow> nat \<Rightarrow> head_backend \<Rightarrow> loop_step" where
  "worker_heartbeat_tick env i b =
     (case send_heartbeat env i b of Inl _ \<Rightarrow> Cancel | Inr _ \<Rightarrow> Continue)"

end
