(* ===== verification/HeadProps.thy ===== *)
theory HeadProps
  imports HeadNode
begin

text \<open>
  Properties of the head-node backend: the invariant of its tables, what the removal of
  stale nodes does, the round trip of a sync, the queue of pending operations, the
  naming contract in both modes, and two flaws: the head forgets itself, and a failed
  request is retried after later ones.
\<close>

subsection \<open>Well-formed tables\<close>

definition head_ok :: "head_node_state \<Rightarrow> bool" where
  "head_ok hs \<longleftrightarrow>
     hm_ok (hs_nodes hs) \<and> (\<forall>k r. hm_get (hs_nodes hs) k = Some r \<longrightarrow> nr_node_id r = k) \<and>
     named_ok (hs_named hs) \<and> hm_ok (hs_actors hs)"

definition worker_ok :: "worker_node_state \<Rightarrow> bool" where
  "worker_ok ws \<longleftrightarrow> hm_ok (ws_members ws) \<and> named_ok (ws_named ws) \<and> hm_ok (ws_actors ws)"

definition backend_ok :: "head_backend \<Rightarrow> bool" where
  \<comment> \<open>the mode and the state agree\<close>
  "backend_ok b \<longleftrightarrow>
     (case hb_state b of Head hs \<Rightarrow> is_head b \<and> head_ok hs | Worker ws \<Rightarrow> \<not> is_head b \<and> worker_ok ws)"

lemma backend_ok_new: "backend_ok (head_backend_new nid a h addr cfg)"
  by (auto simp: backend_ok_def head_backend_new_def is_head_def head_ok_def worker_ok_def named_ok_def
        head_state_new_def worker_state_new_def split: option.split)

lemma named_ok_forget:
  assumes "named_ok m"
  shows "named_ok (hm_retain (\<lambda>_ info. \<not> info_is_empty info)
    (hm_map_values (\<lambda>info. snd (remove_instance nid info)) m))"
  using assms
  by (auto simp: named_ok_def hm_simps info_good_def split: option.splits if_splits)

lemma head_ok_ops [simp]:
  assumes "head_ok hs"
  shows "head_ok (hs_register_node now nid a hs)"
    and "head_ok (snd (hs_update_heartbeat now nid hs))"
    and "head_ok (hs_forget_node nid hs)"
    and "head_ok (hs_register_named_actor p nid aid md hs)"
    and "head_ok (hs_unregister_named_actor p nid hs)"
    and "head_ok (hs_register_actor act nid hs)"
    and "head_ok (hs_unregister_actor act hs)"
  using assms
  by (auto simp: head_ok_def hs_register_node_def hs_update_heartbeat_def hs_forget_node_def named_ok_forget
        hs_register_named_actor_def hs_unregister_named_actor_def hs_register_actor_def
        hs_unregister_actor_def hm_simps split: option.split)

lemma head_ok_remove_stale [simp]:
  assumes "head_ok hs"
  shows "head_ok (snd (hs_remove_stale_nodes now t hs))"
proof -
  let ?st = "hs\<lparr>hs_nodes := hm_retain (\<lambda>_ r. \<not> saturating_sub now (nr_last_heartbeat r) > t) (hs_nodes hs)\<rparr>"
  have "head_ok ?st"
    using assms by (auto simp: head_ok_def hm_simps split: option.splits if_splits)
  then have "head_ok (fold hs_forget_node nids ?st)" for nids
    by (intro fold_preserves [of _ head_ok]) auto
  then show ?thesis by (simp add: hs_remove_stale_nodes_def Let_def not_less)
qed

lemma mode_on_head [simp]:
  "is_head (on_head f b) = is_head b" "hb_local_node (on_head f b) = hb_local_node b"
  "hb_config (on_head f b) = hb_config b"
  "is_head (on_worker g b) = is_head b" "hb_local_node (on_worker g b) = hb_local_node b"
  "head_addr (on_worker g b) = head_addr b"
  by (simp_all add: on_head_def on_worker_def is_head_def head_addr_def split: backend_state.split)

lemma backend_ok_on_head:
  "backend_ok b \<Longrightarrow> (\<And>hs. head_ok hs \<Longrightarrow> head_ok (f hs)) \<Longrightarrow> backend_ok (on_head f b)"
  by (auto simp: backend_ok_def on_head_def is_head_def split: backend_state.splits)

lemma backend_ok_on_worker:
  "backend_ok b \<Longrightarrow> (\<And>ws. worker_ok ws \<Longrightarrow> worker_ok (f ws)) \<Longrightarrow> backend_ok (on_worker f b)"
  by (auto simp: backend_ok_def on_worker_def is_head_def split: backend_state.splits)

lemma backend_ok_head_only:
  assumes "backend_ok b" and "\<And>hs. head_ok hs \<Longrightarrow> head_ok (f hs)"
  shows "backend_ok (snd (head_only f b))"
  using backend_ok_on_head [OF assms] assms(1) by (simp add: head_only_def)

lemma handle_heartbeat_state:
  "snd (handle_heartbeat now nid b) =
     (if is_head b then on_head (\<lambda>hs. snd (hs_update_heartbeat now nid hs)) b else b)"
  by (auto simp: handle_heartbeat_def on_head_def split: backend_state.split prod.split bool.split)

lemma apply_request_ok:
  assumes "backend_ok b"
  shows "backend_ok (snd (apply_request now req b))"
  using assms
  by (cases req)
    (auto simp: apply_request_def handle_register_node_def handle_heartbeat_state
      handle_register_named_actor_def handle_unregister_named_actor_def handle_register_actor_def
      handle_unregister_actor_def intro!: backend_ok_head_only backend_ok_on_head)

lemma handle_head_api_state:
  "snd (handle_head_api env now path meth body b) = b \<or>
   (\<exists>req. snd (handle_head_api env now path meth body b) = snd (apply_request now req b))"
proof (cases "is_head b \<and> meth = ''POST'' \<and> path \<in> set post_routes")
  case True
  then have "snd (handle_head_api env now path meth body b) =
      (case he_decode env path body of None \<Rightarrow> b | Some req \<Rightarrow> snd (apply_request now req b))"
    by (simp add: handle_head_api_def split: option.split prod.split sum.split)
  then show ?thesis by (auto split: option.splits)
next
  case False
  then have "snd (handle_head_api env now path meth body b) = b"
    unfolding handle_head_api_def by (cases "handle_sync b") auto
  then show ?thesis ..
qed

text \<open>
  A head node keeps its tables well-formed through any sequence of API calls, with
  any method, path and body, and any number of stale-node passes in between: one entry
  per key, registrations filed under their own node, named actors filed under their own
  path with at least one instance.
\<close>

theorem head_api_invariant:
  assumes "backend_ok b"
  shows "backend_ok (fold (\<lambda>(now, path, meth, body). \<lambda>s.
    heartbeat_timeout_tick now (snd (handle_head_api env now path meth body s))) calls b)"
proof -
  have api: "backend_ok (snd (handle_head_api env now path meth body s))" if "backend_ok s"
    for now path meth body s
    using handle_head_api_state [of env now path meth body s] that apply_request_ok [OF that, of now]
    by auto
  have tick: "backend_ok (heartbeat_timeout_tick now s)" if "backend_ok s" for now s
    unfolding heartbeat_timeout_tick_def by (intro backend_ok_on_head that) auto
  show ?thesis
    using assms by (intro fold_preserves [of _ backend_ok]) (auto intro!: tick api)
qed

definition plain_head_env :: head_env where
  "plain_head_env =
     \<lparr>he_encode = (\<lambda>_. Some []), he_decode = (\<lambda>path _. if path = ''/cluster/head/register''
        then Some (RegisterNodeRequest 2 addr_b) else None),
      he_encode_members = (\<lambda>_. Some []), he_encode_named = (\<lambda>_. Some []), he_encode_sync = (\<lambda>_. None),
      he_decode_sync = (\<lambda>_. None), he_tell = (\<lambda>i _ _ _ _. if i = 0 then Some ''refused'' else None),
      he_ask = (\<lambda>_ _ _ _ _. Inl ''refused''), he_choose = (\<lambda>ids. if ids = [] then None else Some (hd ids))\<rparr>"

abbreviation demo_head :: head_backend where
  "demo_head \<equiv> head_backend_new 1 addr_a True None head_node_config_default"

abbreviation demo_worker :: head_backend where
  "demo_worker \<equiv> head_backend_new 2 addr_b False (Some addr_a) head_node_config_default"

subsection \<open>Stale nodes\<close>

definition stale_nodes :: "u64 \<Rightarrow> u64 \<Rightarrow> head_node_state \<Rightarrow> node_id set" where
  "stale_nodes now t hs =
     {nid. \<exists>r. hm_get (hs_nodes hs) nid = Some r \<and> saturating_sub now (nr_last_heartbeat r) > t}"

lemma nodes_forget [simp]: "hs_nodes (hs_forget_node nid hs) = hs_nodes hs"
  by (simp add: hs_forget_node_def)

lemma named_forget:
  assumes "head_ok hs"
  shows "nodes_of (hm_get (hs_named (hs_forget_node nid hs)) key) = nodes_of (hm_get (hs_named hs) key) - {nid}"
proof -
  have "info_ok (snd (remove_instance nid i))" if "hm_get (hs_named hs) key = Some i" for i
    using assms that by (auto simp: head_ok_def named_ok_def info_good_def)
  moreover have "hm_ok (hs_named hs)" using assms by (simp add: head_ok_def named_ok_def)
  ultimately show ?thesis
    by (auto simp: hs_forget_node_def nodes_of_def hm_simps info_is_empty_iff split: option.split)
qed

lemma actors_forget:
  assumes "head_ok hs"
  shows "hm_get (hs_actors (hs_forget_node nid hs)) aid =
    (if hm_get (hs_actors hs) aid = Some nid then None else hm_get (hs_actors hs) aid)"
  using assms by (auto simp: hs_forget_node_def head_ok_def hm_simps split: option.split)

lemma forget_nodes:
  assumes "head_ok hs"
  shows "nodes_of (hm_get (hs_named (fold hs_forget_node nids hs)) key) =
      nodes_of (hm_get (hs_named hs) key) - set nids \<and>
    hm_get (hs_actors (fold hs_forget_node nids hs)) aid =
      (if \<exists>nid \<in> set nids. hm_get (hs_actors hs) aid = Some nid then None else hm_get (hs_actors hs) aid)"
  using assms
proof (induction nids arbitrary: hs)
  case (Cons nid nids)
  then have ok: "head_ok (hs_forget_node nid hs)" by simp
  show ?case
    using Cons.IH [OF ok] by (auto simp: named_forget [OF Cons.prems] actors_forget [OF Cons.prems])
qed simp

lemma removed_stale:
  assumes "head_ok hs"
  shows "set (map fst (filter (\<lambda>(_, r). saturating_sub now (nr_last_heartbeat r) > t) (hs_nodes hs))) =
    stale_nodes now t hs"
  using assms by (force simp: stale_nodes_def head_ok_def hm_in_set_iff [symmetric])

lemma remove_stale_result:
  fixes now t :: u64
  assumes "head_ok hs"
  defines "gone \<equiv> stale_nodes now t hs" and "hs' \<equiv> snd (hs_remove_stale_nodes now t hs)"
  shows "set (fst (hs_remove_stale_nodes now t hs)) = gone"
    and "hm_get (hs_nodes hs') nid = (if nid \<in> gone then None else hm_get (hs_nodes hs) nid)"
    and "nodes_of (hm_get (hs_named hs') key) = nodes_of (hm_get (hs_named hs) key) - gone"
    and "hm_get (hs_actors hs') aid =
      (if \<exists>nid \<in> gone. hm_get (hs_actors hs) aid = Some nid then None else hm_get (hs_actors hs) aid)"
proof -
  define keep where "keep = (\<lambda>(_::node_id) (r::node_registration). \<not> t < saturating_sub now (nr_last_heartbeat r))"
  define hs1 where "hs1 = hs\<lparr>hs_nodes := hm_retain keep (hs_nodes hs)\<rparr>"
  define removed where "removed =
    map fst (filter (\<lambda>(_, r). t < saturating_sub now (nr_last_heartbeat r)) (hs_nodes hs))"
  have result: "hs_remove_stale_nodes now t hs = (removed, fold hs_forget_node removed hs1)"
    by (simp add: hs_remove_stale_nodes_def Let_def removed_def hs1_def keep_def)
  have set: "set removed = stale_nodes now t hs"
    unfolding removed_def by (rule removed_stale [OF assms(1)])
  have ok: "head_ok hs1"
    using assms(1) by (auto simp: head_ok_def hs1_def hm_simps split: option.splits if_splits)
  have nodes: "hm_get (hs_nodes hs1) nid = (if nid \<in> stale_nodes now t hs then None else hm_get (hs_nodes hs) nid)"
    for nid
    using assms(1) by (auto simp: hs1_def keep_def head_ok_def hm_simps stale_nodes_def split: option.split)
  have same: "hs_nodes (fold hs_forget_node removed hs1) = hs_nodes hs1" by (simp add: fold_same [of hs_nodes])
  have rest: "hs_named hs1 = hs_named hs" "hs_actors hs1 = hs_actors hs" by (simp_all add: hs1_def)
  note facts = result set same nodes rest gone_def hs'_def
  show "set (fst (hs_remove_stale_nodes now t hs)) = gone" by (simp add: facts)
  show "hm_get (hs_nodes hs') nid = (if nid \<in> gone then None else hm_get (hs_nodes hs) nid)"
    by (simp add: facts)
  show "nodes_of (hm_get (hs_named hs') key) = nodes_of (hm_get (hs_named hs) key) - gone"
    using forget_nodes [OF ok, of removed] by (simp add: facts)
  show "hm_get (hs_actors hs') aid =
      (if \<exists>nid \<in> gone. hm_get (hs_actors hs) aid = Some nid then None else hm_get (hs_actors hs) aid)"
    using forget_nodes [OF ok, of removed] by (simp add: facts)
qed

text \<open>
  The stale-node pass of the head removes exactly the nodes whose last heartbeat is
  older than the timeout, together with their instances of named actors and their
  actors, reports them, and leaves every other registration as it was.
\<close>

theorem remove_stale_exact:
  assumes "head_ok hs"
  shows "let (removed, hs') = hs_remove_stale_nodes now t hs; gone = stale_nodes now t hs
    in set removed = gone \<and>
       (\<forall>nid. hm_get (hs_nodes hs') nid = (if nid \<in> gone then None else hm_get (hs_nodes hs) nid)) \<and>
       (\<forall>key. nodes_of (hm_get (hs_named hs') key) = nodes_of (hm_get (hs_named hs) key) - gone) \<and>
       (\<forall>aid. hm_get (hs_actors hs') aid =
          (if \<exists>nid \<in> gone. hm_get (hs_actors hs) aid = Some nid then None else hm_get (hs_actors hs) aid))"
  using remove_stale_result [OF assms, of now t] by (simp add: Let_def case_prod_unfold)

subsection \<open>Synchronisation\<close>

lemma update_from_sync_of:
  fixes ws :: worker_node_state
  assumes "head_ok hs"
  defines "ws' \<equiv> update_from_sync (sync_of hs) ws"
  shows "hm_get (ws_members ws') nid = map_option reg_to_member (hm_get (hs_nodes hs) nid)"
    and "hm_get (ws_named ws') key = hm_get (hs_named hs) key"
    and "hm_get (ws_actors ws') aid = hm_get (hs_actors hs) aid"
    and "ws_pending ws' = ws_pending ws"
    and "worker_ok ws'"
proof -
  have "ws_members ws' =
      fold (\<lambda>r. hm_insert (nr_node_id r) (reg_to_member r)) (hm_values (hs_nodes hs)) []"
    by (simp add: ws'_def update_from_sync_def sync_of_def hs_all_members_def fold_map comp_def reg_to_member_def)
  then show members: "hm_get (ws_members ws') nid = map_option reg_to_member (hm_get (hs_nodes hs) nid)" for nid
    using assms(1) by (simp only:) (rule hm_rebuild, auto simp: head_ok_def)
  show named: "hm_get (ws_named ws') key = hm_get (hs_named hs) key" for key
    using hm_rebuild [where m = "hs_named hs" and key = "\<lambda>i. path_as_str (na_path i)" and val = id] assms(1)
    by (simp add: ws'_def update_from_sync_def sync_of_def hs_all_named_actors_def head_ok_def named_ok_def
          option.map_id)
  show "hm_get (ws_actors ws') aid = hm_get (hs_actors hs) aid"
    using assms(1)
    by (simp add: ws'_def update_from_sync_def sync_of_def head_ok_def hm_get_fold_insert split: option.split)
  show "ws_pending ws' = ws_pending ws" by (simp add: ws'_def update_from_sync_def)
  have "hm_ok (ws_members ws')" "hm_ok (ws_named ws')" "hm_ok (ws_actors ws')"
    by (auto simp: ws'_def update_from_sync_def intro!: hm.ok_fold_put)
  then show "worker_ok ws'"
    using assms(1) by (auto simp: worker_ok_def named_ok_def named head_ok_def)
qed

text \<open>
  C7. A successful sync makes a worker's view that of the head: every lookup of a
  member, of a named actor and of an actor gives on the worker what it gives on the head
  at the time of the response, and the worker's queue of pending operations is kept.
\<close>

theorem sync_reflects_head:
  assumes "backend_ok H" and "hb_state H = Head hs" and "backend_ok b" and "hb_state b = Worker ws"
    and "head_addr b = Some h" and "he_ask env i h ''/cluster/head/sync'' ''sync'' [] = Inr resp"
    and "he_decode_sync env resp = Some (sync_of hs)"
  shows "let (result, b') = sync_from_head env i b
    in result = Inr () \<and> backend_ok b' \<and>
       (\<forall>nid. hb_get_member nid b' = hb_get_member nid H) \<and>
       (\<forall>p. hb_lookup_named_actor p b' = hb_lookup_named_actor p H) \<and>
       (\<forall>aid. hb_lookup_actor aid b' = hb_lookup_actor aid H) \<and>
       (\<exists>ws'. hb_state b' = Worker ws' \<and> ws_pending ws' = ws_pending ws)"
proof -
  let ?ws' = "update_from_sync (sync_of hs) ws"
  let ?b' = "b\<lparr>hb_state := Worker ?ws'\<rparr>"
  have modes: "is_head H" "\<not> is_head b" and ok: "head_ok hs"
    using assms(1-4) by (auto simp: backend_ok_def)
  then have result: "sync_from_head env i b = (Inr (), ?b')"
    using assms by (simp add: sync_from_head_def on_worker_def)
  note sync = update_from_sync_of [OF ok, of ws]
  have mode': "\<not> is_head ?b'" using modes by (simp add: is_head_def)
  have "hb_get_member nid ?b' = hb_get_member nid H" for nid
    using modes mode' assms(2) sync(1) by (simp add: hb_get_member_def)
  moreover have "hb_lookup_named_actor p ?b' = hb_lookup_named_actor p H" for p
    using modes mode' assms(2) sync(2) by (simp add: hb_lookup_named_actor_def)
  moreover have "hb_lookup_actor aid ?b' = hb_lookup_actor aid H" for aid
    using modes mode' assms(2) sync(3) calculation(1) by (simp add: hb_lookup_actor_def)
  moreover have "backend_ok ?b'" using mode' sync(5) by (simp add: backend_ok_def)
  ultimately show ?thesis using sync(4) by (simp add: result Let_def)
qed

definition demo_hs :: head_node_state where
  "demo_hs = hs_register_named_actor demo_path 1 (Some 7) [] (hs_register_node 5 1 addr_a head_state_new)"

definition sync_env :: head_env where
  "sync_env = plain_head_env
     \<lparr>he_ask := (\<lambda>_ _ _ _ _. Inr []), he_decode_sync := (\<lambda>_. Some (sync_of demo_hs))\<rparr>"

lemma demo_hs_ok: "head_ok demo_hs"
proof -
  have "head_ok head_state_new" by (simp add: head_ok_def head_state_new_def named_ok_def)
  then show ?thesis by (simp add: demo_hs_def)
qed

theorem sync_reflects_head_witness:
  "hb_get_member 1 (snd (sync_from_head sync_env 0 demo_worker)) =
     Some (reg_to_member \<lparr>nr_node_id = 1, nr_addr = addr_a, nr_last_heartbeat = 5\<rparr>)"
proof -
  let ?H = "demo_head\<lparr>hb_state := Head demo_hs\<rparr>"
  have H: "backend_ok ?H" "is_head ?H"
    using demo_hs_ok by (simp_all add: backend_ok_def is_head_def head_backend_new_def)
  have b: "hb_state demo_worker = Worker worker_state_new" "head_addr demo_worker = Some addr_a"
    by (simp_all add: head_backend_new_def head_addr_def)
  have env: "he_ask sync_env 0 addr_a ''/cluster/head/sync'' ''sync'' [] = Inr []"
    "he_decode_sync sync_env [] = Some (sync_of demo_hs)"
    by (simp_all add: sync_env_def)
  have "hb_state ?H = Head demo_hs" by simp
  from sync_reflects_head [OF H(1) this backend_ok_new b(1) b(2) env]
  have "hb_get_member 1 (snd (sync_from_head sync_env 0 demo_worker)) = hb_get_member 1 ?H"
    by (simp add: case_prod_unfold Let_def)
  also have "\<dots> = Some (reg_to_member \<lparr>nr_node_id = 1, nr_addr = addr_a, nr_last_heartbeat = 5\<rparr>)"
    using H(2)
    by (simp add: hb_get_member_def demo_hs_def hs_register_named_actor_def hs_register_node_def
          head_state_new_def)
  finally show ?thesis .
qed

subsection \<open>The queue of a worker\<close>

definition told :: "head_env \<Rightarrow> head_backend \<Rightarrow> nat \<Rightarrow> sync_operation \<Rightarrow> bool" where
  \<comment> \<open>the request of an operation, sent as number \<open>i\<close>, reaches the head\<close>
  "told env b i op \<longleftrightarrow> send_request env i (op_request (hb_local_node b) op) b = Inr ()"

definition delivered :: "head_env \<Rightarrow> head_backend \<Rightarrow> nat \<Rightarrow> sync_operation list \<Rightarrow> head_request list" where
  \<comment> \<open>the requests of a flush that reach the head, in order\<close>
  "delivered env b i ops =
     map (\<lambda>(_, op). op_request (hb_local_node b) op) (filter (\<lambda>(j, op). told env b j op) (enumerate i ops))"

definition refused :: "head_env \<Rightarrow> head_backend \<Rightarrow> nat \<Rightarrow> sync_operation list \<Rightarrow> sync_operation list" where
  "refused env b i ops = map snd (filter (\<lambda>(j, op). \<not> told env b j op) (enumerate i ops))"

definition add_pending :: "sync_operation list \<Rightarrow> worker_node_state \<Rightarrow> worker_node_state" where
  "add_pending ops ws = ws\<lparr>ws_pending := ws_pending ws @ ops\<rparr>"

lemma told_on_worker [simp]: "told env (on_worker f b) = told env b"
  by (simp add: told_def send_request_def tell_head_def fun_eq_iff cong: option.case_cong)

lemma refused_on_worker [simp]: "refused env (on_worker f b) = refused env b"
  by (simp add: refused_def fun_eq_iff)

lemma on_worker_comp: "on_worker f (on_worker g b) = on_worker (\<lambda>ws. f (g ws)) b"
  by (simp add: on_worker_def split: backend_state.split)

lemma on_worker_Nil: "on_worker (add_pending []) b = b"
  by (cases b) (simp add: on_worker_def add_pending_def split: backend_state.split)

lemma flush_pending_result:
  assumes "\<forall>op \<in> set ops. he_encode env (op_request (hb_local_node b) op) \<noteq> None"
  shows "flush_pending env i ops b = (Inr (), on_worker (add_pending (refused env b i ops)) b)"
  using assms
proof (induction ops arbitrary: i b)
  case Nil
  then show ?case by (simp add: refused_def on_worker_Nil)
next
  case (Cons op ops)
  from Cons.prems obtain payload where enc: "he_encode env (op_request (hb_local_node b) op) = Some payload"
    by auto
  show ?case
  proof (cases "tell_head env i (op_request (hb_local_node b) op) payload b")
    case None
    then show ?thesis
      using Cons enc by (simp add: Let_def refused_def told_def send_request_def)
  next
    case (Some e)
    have app: "add_pending (op # xs) = (\<lambda>ws. add_pending xs (add_pending_sync op ws))" for xs
      by (simp add: fun_eq_iff add_pending_def add_pending_sync_def)
    show ?thesis
      using Cons enc Some
      by (simp add: Let_def on_worker_comp app [symmetric])
         (simp add: refused_def told_def send_request_def)
  qed
qed

lemma process_pending_result:
  assumes "backend_ok b" and "hb_state b = Worker ws"
    and "\<forall>op \<in> set (ws_pending ws). he_encode env (op_request (hb_local_node b) op) \<noteq> None"
  shows "process_pending_sync env i b =
      (Inr (), b\<lparr>hb_state := Worker (ws\<lparr>ws_pending := refused env b i (ws_pending ws)\<rparr>)\<rparr>)"
proof -
  let ?ops = "ws_pending ws" and ?clear = "\<lambda>ws. ws\<lparr>ws_pending := []\<rparr>"
  have "\<not> is_head b" using assms(1,2) by (simp add: backend_ok_def)
  moreover have "b\<lparr>hb_state := Worker (?clear ws)\<rparr> = on_worker ?clear b"
    using assms(2) by (simp add: on_worker_def)
  ultimately have "process_pending_sync env i b = flush_pending env i ?ops (on_worker ?clear b)"
    using assms(2) by (simp add: process_pending_sync_def take_pending_sync_def)
  then show ?thesis
    using flush_pending_result [of ?ops env "on_worker ?clear b" i] assms(2,3)
    by (simp add: on_worker_comp) (simp add: on_worker_def add_pending_def)
qed

text \<open>
  C8. No operation of a worker is lost on the way to the head: when a worker flushes its
  queue, the operations whose request fails are exactly the new queue, in their order,
  and every other one reached the head, so delivered and queued operations together are
  the old queue; the cache is not touched.
\<close>

theorem flush_keeps_operations:
  assumes "backend_ok b" and "hb_state b = Worker ws"
    and "\<forall>op \<in> set (ws_pending ws). he_encode env (op_request (hb_local_node b) op) \<noteq> None"
  shows "process_pending_sync env i b =
      (Inr (), b\<lparr>hb_state := Worker (ws\<lparr>ws_pending := refused env b i (ws_pending ws)\<rparr>)\<rparr>) \<and>
    mset (delivered env b i (ws_pending ws)) +
      image_mset (op_request (hb_local_node b)) (mset (refused env b i (ws_pending ws))) =
    image_mset (op_request (hb_local_node b)) (mset (ws_pending ws))"
proof -
  let ?f = "op_request (hb_local_node b)"
  have "mset (map ?f ops) = mset (delivered env b j ops) + image_mset ?f (mset (refused env b j ops))" for j ops
    by (induction ops arbitrary: j) (auto simp: delivered_def refused_def)
  from this [of "ws_pending ws" i] show ?thesis by (simp add: process_pending_result [OF assms])
qed

theorem flush_keeps_operations_witness:
  "let b = on_worker (add_pending [Register 7, Register 8]) demo_worker
   in fst (process_pending_sync plain_head_env 0 b) = Inr ()"
proof -
  let ?b = "on_worker (add_pending [Register 7, Register 8]) demo_worker"
  have "backend_ok ?b" by (intro backend_ok_on_worker backend_ok_new) (simp add: worker_ok_def add_pending_def)
  moreover have "hb_state ?b = Worker (add_pending [Register 7, Register 8] worker_state_new)"
    by (simp add: on_worker_def head_backend_new_def)
  ultimately show ?thesis
    using flush_keeps_operations [of ?b _ plain_head_env 0] by (simp add: plain_head_env_def Let_def)
qed

definition pending_of :: "head_backend \<Rightarrow> sync_operation list" where
  "pending_of b = (case hb_state b of Worker ws \<Rightarrow> ws_pending ws | Head _ \<Rightarrow> [])"

lemma apply_named_lookup:
  assumes "is_head H"
  shows "nodes_of (hb_lookup_named_actor p (snd (apply_request now (RegisterNamedActorRequest p nid aid md) H)))
    = (case hb_state H of Head hs \<Rightarrow> insert nid (nodes_of (hm_get (hs_named hs) (path_as_str p))) | Worker _ \<Rightarrow> {})"
  using assms
  by (cases "hb_state H")
    (auto simp: apply_request_def handle_register_named_actor_def head_only_def on_head_def is_head_def
      hb_lookup_named_actor_def hs_register_named_actor_def nodes_register_named, simp add: nodes_of_def)

text \<open>
  A failed request goes to the end of the queue, behind later operations on the same
  name: a worker that registers a name and then unregisters it, and whose first request
  fails, sends the unregistration first and the registration afterwards, so the head
  lists the worker under a name that the worker has given up.
\<close>

theorem retried_registration_outlives_unregistration:
  assumes "backend_ok b" and "hb_state b = Worker ws"
    and "ws_pending ws = [RegisterNamed p aid md, UnregisterNamed p]"
    and "\<forall>op \<in> set (ws_pending ws). he_encode env (op_request (hb_local_node b) op) \<noteq> None"
    and "\<not> told env b i (RegisterNamed p aid md)" and "told env b (Suc i) (UnregisterNamed p)"
    and "told env b j (RegisterNamed p aid md)"
    and "is_head H" and "hb_state H = Head hs"
  shows "let b1 = snd (process_pending_sync env i b);
             sent = delivered env b i (pending_of b) @ delivered env b1 j (pending_of b1);
             H' = fold (\<lambda>req s. snd (apply_request now req s)) sent H
         in pending_of b1 = [RegisterNamed p aid md] \<and>
            hb_local_node b \<in> nodes_of (hb_lookup_named_actor p H')"
proof -
  let ?b1 = "snd (process_pending_sync env i b)"
  let ?unreg = "UnregisterNamedActorRequest p (hb_local_node b)"
  let ?reg = "RegisterNamedActorRequest p (hb_local_node b) aid md"
  have refused: "refused env b i (ws_pending ws) = [RegisterNamed p aid md]"
    using assms(3,5,6) by (simp add: refused_def)
  then have b1: "?b1 = on_worker (\<lambda>_. ws\<lparr>ws_pending := [RegisterNamed p aid md]\<rparr>) b"
    using assms(2) by (simp add: process_pending_result [OF assms(1,2,4)] on_worker_def)
  have pending: "pending_of b = ws_pending ws" "pending_of ?b1 = [RegisterNamed p aid md]"
    using assms(2) by (simp_all add: b1 pending_of_def on_worker_def)
  have first: "delivered env b i (pending_of b) = [?unreg]"
    using assms(3,5,6) by (simp add: pending delivered_def op_request_def)
  have second: "delivered env ?b1 j (pending_of ?b1) = [?reg]"
    unfolding pending(2) using assms(7) by (simp add: delivered_def b1 op_request_def)
  have "is_head (snd (apply_request now ?unreg H))" "\<exists>hs'. hb_state (snd (apply_request now ?unreg H)) = Head hs'"
    using assms(8,9)
    by (simp_all add: apply_request_def handle_unregister_named_actor_def head_only_def on_head_def is_head_def)
  then have "hb_local_node b \<in> nodes_of (hb_lookup_named_actor p
      (snd (apply_request now ?reg (snd (apply_request now ?unreg H)))))"
    by (auto simp: apply_named_lookup)
  then show ?thesis unfolding Let_def first second by (simp add: pending(2))
qed

abbreviation queued_worker :: head_backend where
  "queued_worker \<equiv> on_worker (add_pending [RegisterNamed demo_path None [], UnregisterNamed demo_path]) demo_worker"

subsection \<open>The head forgets itself\<close>

definition concerns :: "node_id \<Rightarrow> head_request \<Rightarrow> bool" where
  \<comment> \<open>requests that renew a node's registration\<close>
  "concerns nid req \<longleftrightarrow> (\<exists>a. req = RegisterNodeRequest nid a) \<or> req = HeartbeatRequest nid"

definition registration_of :: "node_id \<Rightarrow> head_backend \<Rightarrow> node_registration option" where
  "registration_of nid b = (case hb_state b of Head hs \<Rightarrow> hm_get (hs_nodes hs) nid | Worker _ \<Rightarrow> None)"

lemma registration_kept:
  assumes "\<not> concerns nid req"
  shows "registration_of nid (snd (apply_request now req b)) = registration_of nid b"
  using assms
  by (cases req; cases "hb_state b")
    (auto simp: apply_request_def handle_register_node_def handle_heartbeat_state concerns_def
      handle_register_named_actor_def handle_unregister_named_actor_def handle_register_actor_def
      handle_unregister_actor_def head_only_def on_head_def registration_of_def hs_register_node_def
      hs_update_heartbeat_def hs_register_named_actor_def hs_unregister_named_actor_def hm_simps
      hs_register_actor_def hs_unregister_actor_def split: option.split)

lemma fold_apply_ok: "backend_ok b \<Longrightarrow> backend_ok (fold (\<lambda>(now, req) s. snd (apply_request now req s)) reqs b)"
  by (rule fold_preserves [of _ backend_ok]) (auto intro: apply_request_ok)

lemma fold_registration_kept:
  "\<forall>(now, req) \<in> set reqs. \<not> concerns nid req \<Longrightarrow>
     registration_of nid (fold (\<lambda>(now, req) s. snd (apply_request now req s)) reqs b) = registration_of nid b"
  by (induction reqs arbitrary: b) (auto simp: registration_kept)

lemma fold_config_kept:
  "hb_config (fold (\<lambda>(now, req) s. snd (apply_request now req s)) reqs b) = hb_config b"
proof -
  have "hb_config (snd (apply_request now req s)) = hb_config s" for now req s
    by (cases req) (auto simp: apply_request_def handle_register_node_def handle_heartbeat_state
      handle_register_named_actor_def handle_unregister_named_actor_def handle_register_actor_def
      handle_unregister_actor_def head_only_def)
  then show ?thesis by (intro fold_same) auto
qed

text \<open>
  The head registers itself when it joins and never renews that registration, since
  only workers send heartbeats: whatever workers send about themselves in between, the
  first stale-node pass after the heartbeat timeout removes the head from its own
  member table and every named actor the head itself runs from the lookups.
\<close>

theorem head_forgets_itself:
  assumes "backend_ok b" and "is_head b" and "hb_local_node b = nid"
    and "\<forall>(now, req) \<in> set reqs. \<not> concerns nid req"
    and "saturating_sub t t0 > as_millis_u64 (heartbeat_timeout (hb_config b))"
  shows "let b1 = snd (hb_join env i t0 b);
             b2 = fold (\<lambda>(now, req) s. snd (apply_request now req s)) reqs b1;
             b3 = heartbeat_timeout_tick t b2
         in hb_get_member nid b3 = None \<and> (\<forall>p. nid \<notin> nodes_of (hb_lookup_named_actor p b3))"
proof -
  define b1 where "b1 = snd (hb_join env i t0 b)"
  define b2 where "b2 = fold (\<lambda>(now, req) s. snd (apply_request now req s)) reqs b1"
  obtain hs0 where hs0: "hb_state b = Head hs0" using assms(1,2) by (auto simp: backend_ok_def split: backend_state.splits)
  have b1: "b1 = on_head (hs_register_node t0 nid (hb_local_addr b)) b"
    using assms(2,3) by (simp add: b1_def hb_join_def)
  have "backend_ok b1" unfolding b1 by (intro backend_ok_on_head assms(1)) auto
  then have ok2: "backend_ok b2" unfolding b2_def by (rule fold_apply_ok)
  have "registration_of nid b2 = registration_of nid b1"
    unfolding b2_def using assms(4) by (rule fold_registration_kept)
  also have "\<dots> = Some \<lparr>nr_node_id = nid, nr_addr = hb_local_addr b, nr_last_heartbeat = t0\<rparr>"
    by (simp add: b1 on_head_def hs0 registration_of_def hs_register_node_def hm_simps)
  finally obtain hs where hs: "hb_state b2 = Head hs"
    and reg: "hm_get (hs_nodes hs) nid = Some \<lparr>nr_node_id = nid, nr_addr = hb_local_addr b, nr_last_heartbeat = t0\<rparr>"
    by (auto simp: registration_of_def split: backend_state.splits)
  define T where "T = as_millis_u64 (heartbeat_timeout (hb_config b2))"
  have "hb_config b2 = hb_config b" by (simp add: b2_def fold_config_kept b1)
  then have stale: "nid \<in> stale_nodes t T hs" using reg assms(5) by (simp add: stale_nodes_def T_def)
  have okhs: "head_ok hs" using ok2 hs by (simp add: backend_ok_def)
  have b3: "heartbeat_timeout_tick t b2 = b2\<lparr>hb_state := Head (snd (hs_remove_stale_nodes t T hs))\<rparr>"
    by (simp add: heartbeat_timeout_tick_def on_head_def hs T_def)
  have "hm_get (hs_nodes (snd (hs_remove_stale_nodes t T hs))) nid = None"
    and "nid \<notin> nodes_of (hm_get (hs_named (snd (hs_remove_stale_nodes t T hs))) key)" for key
    using remove_stale_result [OF okhs, of t T] stale by simp_all
  then have "hb_get_member nid (heartbeat_timeout_tick t b2) = None \<and>
      (\<forall>p. nid \<notin> nodes_of (hb_lookup_named_actor p (heartbeat_timeout_tick t b2)))"
    unfolding b3 by (simp add: hb_get_member_def hb_lookup_named_actor_def nodes_of_def)
  then show ?thesis unfolding Let_def b1_def [symmetric] b2_def [symmetric] .
qed

subsection \<open>The naming contract\<close>

fun head_run :: "head_env \<Rightarrow> nat \<Rightarrow> naming_op \<Rightarrow> head_backend \<Rightarrow> head_backend" where
  "head_run env i (NRegister p) b = hb_register_named_actor env i p b"
| "head_run env i (NRegisterFull p aid md) b = hb_register_named_actor_full env i p aid md b"
| "head_run env i (NUnregister p) b = hb_unregister_named_actor env i p b"

definition names_of :: "head_backend \<Rightarrow> (string, named_actor_info) hash_map" where
  "names_of b = (case hb_state b of Head hs \<Rightarrow> hs_named hs | Worker ws \<Rightarrow> ws_named ws)"

definition run_names ::
  "naming_op \<Rightarrow> node_id \<Rightarrow> (string, named_actor_info) hash_map \<Rightarrow> (string, named_actor_info) hash_map" where
  "run_names op self m =
     (case op of
        NRegister p \<Rightarrow> register_named p self None [] m
      | NRegisterFull p aid md \<Rightarrow> register_named p self (Some aid) md m
      | NUnregister p \<Rightarrow> unregister_named p self m)"

lemma flush_frame:
  "\<exists>ops'. snd (flush_pending env i ops b) = on_worker (add_pending ops') b"
proof (induction ops arbitrary: i b)
  case Nil
  show ?case by (rule exI [of _ "[]"]) (simp add: on_worker_Nil)
next
  case (Cons op ops)
  have app: "on_worker (add_pending xs) (on_worker (add_pending_sync op) b) = on_worker (add_pending (op # xs)) b"
    for xs
    by (simp add: on_worker_comp add_pending_def [abs_def] add_pending_sync_def)
  show ?case
    using Cons.IH [of "Suc i" b] Cons.IH [of "Suc i" "on_worker (add_pending_sync op) b"]
      on_worker_Nil [of b, symmetric]
    by (auto simp: Let_def app split: option.split)
qed

lemma process_frame:
  assumes "backend_ok b"
  shows "backend_ok (snd (process_pending_sync env i b)) \<and>
    names_of (snd (process_pending_sync env i b)) = names_of b \<and>
    hb_local_node (snd (process_pending_sync env i b)) = hb_local_node b \<and>
    is_head (snd (process_pending_sync env i b)) = is_head b"
proof (cases "hb_state b")
  case (Worker ws)
  let ?b0 = "on_worker (\<lambda>ws. ws\<lparr>ws_pending := []\<rparr>) b"
  have "process_pending_sync env i b = flush_pending env i (ws_pending ws) ?b0"
    using Worker assms by (simp add: process_pending_sync_def take_pending_sync_def on_worker_def backend_ok_def)
  moreover obtain ops' where "snd (flush_pending env i (ws_pending ws) ?b0) = on_worker (add_pending ops') ?b0"
    using flush_frame by blast
  moreover have "backend_ok (on_worker (add_pending ops') ?b0)"
    by (intro backend_ok_on_worker assms) (auto simp: worker_ok_def add_pending_def)
  moreover have "names_of (on_worker (add_pending ops') ?b0) = names_of b"
    using Worker by (simp add: names_of_def on_worker_def add_pending_def)
  ultimately show ?thesis by simp
qed (use assms in \<open>simp add: process_pending_sync_def\<close>)

lemma named_ok_run_names: "named_ok m \<Longrightarrow> named_ok (run_names op self m)"
  by (simp add: run_names_def split: naming_op.split)

lemma queue_frame:
  assumes "backend_ok b" and "\<not> is_head b"
  shows "let b' = queue_and_flush env i op (\<lambda>ws. ws\<lparr>ws_named := run_names nop self (ws_named ws)\<rparr>) b
    in backend_ok b' \<and> names_of b' = run_names nop self (names_of b) \<and>
       hb_local_node b' = hb_local_node b \<and> is_head b' = is_head b"
proof -
  let ?f = "\<lambda>ws. (add_pending_sync op ws)\<lparr>ws_named := run_names nop self (ws_named (add_pending_sync op ws))\<rparr>"
  have "backend_ok (on_worker ?f b)"
    by (intro backend_ok_on_worker assms(1)) (auto simp: worker_ok_def add_pending_sync_def named_ok_run_names)
  moreover have "names_of (on_worker ?f b) = run_names nop self (names_of b)"
    using assms by (auto simp: names_of_def on_worker_def add_pending_sync_def backend_ok_def split: backend_state.splits)
  ultimately show ?thesis
    using process_frame [of "on_worker ?f b" env i] by (simp add: queue_and_flush_def Let_def)
qed

lemma head_run_frame:
  assumes "backend_ok b"
  shows "backend_ok (head_run env i op b) \<and>
    names_of (head_run env i op b) = run_names op (hb_local_node b) (names_of b) \<and>
    hb_local_node (head_run env i op b) = hb_local_node b \<and> is_head (head_run env i op b) = is_head b"
proof (cases "is_head b")
  case True
  have run: "head_run env i op b = on_head (\<lambda>hs. hs\<lparr>hs_named := run_names op (hb_local_node b) (hs_named hs)\<rparr>) b"
    using True
    by (cases op)
      (simp_all add: hb_register_named_actor_def hb_register_named_actor_full_def run_names_def
        hb_unregister_named_actor_def hs_register_named_actor_def [abs_def]
        hs_unregister_named_actor_def [abs_def])
  have "backend_ok (head_run env i op b)"
    unfolding run by (intro backend_ok_on_head assms) (auto simp: head_ok_def named_ok_run_names)
  with True assms show ?thesis
    by (auto simp: run names_of_def on_head_def backend_ok_def is_head_def split: backend_state.splits)
next
  case False
  have "\<exists>sop. head_run env i op b =
      queue_and_flush env i sop (\<lambda>ws. ws\<lparr>ws_named := run_names op (hb_local_node b) (ws_named ws)\<rparr>) b"
    using False
    by (cases op)
      (auto simp: hb_register_named_actor_def hb_register_named_actor_full_def run_names_def
        hb_unregister_named_actor_def)
  with queue_frame [OF assms False] show ?thesis by (auto simp: Let_def)
qed

lemma lookup_names: "backend_ok b \<Longrightarrow> hb_lookup_named_actor p b = hm_get (names_of b) (path_as_str p)"
  by (auto simp: hb_lookup_named_actor_def names_of_def backend_ok_def split: backend_state.split)

lemma names_ok: "backend_ok b \<Longrightarrow> named_ok (names_of b)"
  by (auto simp: names_of_def backend_ok_def head_ok_def worker_ok_def split: backend_state.splits)

interpretation hn: naming_backend "head_run env i" hb_lookup_named_actor hb_local_node backend_ok
  for env i
proof unfold_locales
  fix b op p assume b: "backend_ok b" "op_key op = path_as_str p"
  then show "nodes_of (hb_lookup_named_actor p (head_run env i op b)) =
      settle (Some (is_registration op)) (hb_local_node b) (nodes_of (hb_lookup_named_actor p b))"
    using head_run_frame [OF b(1), of env i op] names_ok [OF b(1)]
    by (cases op)
      (simp_all add: lookup_names run_names_def nodes_register_named nodes_unregister_named settle_def
        del: head_run.simps)
next
  fix b op p assume b: "backend_ok b" "op_key op \<noteq> path_as_str p"
  then show "hb_lookup_named_actor p (head_run env i op b) = hb_lookup_named_actor p b"
    using head_run_frame [OF b(1), of env i op]
    by (cases op)
      (simp_all add: lookup_names run_names_def get_register_other get_unregister_other del: head_run.simps)
next
  fix b op p aid md assume b: "backend_ok b" "op = NRegisterFull p aid md"
  then show "Option.bind (hb_lookup_named_actor p (head_run env i op b)) (info_get_instance (hb_local_node b)) =
      Some (instance_with_metadata (hb_local_node b) aid md)"
    using head_run_frame [OF b(1), of env i op]
    by (simp add: lookup_names run_names_def details_register_named del: head_run.simps)
qed (auto simp: head_run_frame lookup_names dest!: names_ok simp: named_ok_def)

text \<open>
  C6. The head-node backend keeps the same contract as the gossip backend, on the head
  and on a worker alike, whether or not the requests of the worker get through: after
  any history of registrations and unregistrations the node's own lookup lists it under
  a name if and only if the last operation on that name registered it, and operations
  on other names keep the details that were registered.
\<close>

theorem head_naming_history:
  assumes "backend_ok b"
  shows "nodes_of (hb_lookup_named_actor p (fold (head_run env i) ops b)) =
      settle (decided (path_as_str p) ops) (hb_local_node b) (nodes_of (hb_lookup_named_actor p b)) \<and>
    ((\<forall>op \<in> set ops. op_key op \<noteq> path_as_str p) \<longrightarrow>
      Option.bind (hb_lookup_named_actor p (fold (head_run env i) ops (head_run env i (NRegisterFull p aid md) b)))
        (info_get_instance (hb_local_node b)) = Some (instance_with_metadata (hb_local_node b) aid md))"
  using hn.nodes_after [OF assms] hn.details_survive [OF assms] by blast

theorem head_naming_history_witness:
  "nodes_of (hb_lookup_named_actor demo_path
     (fold (head_run plain_head_env 0) [NRegister demo_path, NUnregister demo_path, NRegisterFull demo_path 7 []]
       demo_worker)) = {2}"
  using head_naming_history [OF backend_ok_new, of demo_path plain_head_env 0
      "[NRegister demo_path, NUnregister demo_path, NRegisterFull demo_path 7 []]" 2 addr_b False "Some addr_a"
      head_node_config_default]
  by (simp add: decided_def settle_def nodes_of_def hb_lookup_named_actor_def head_backend_new_def is_head_def
        worker_state_new_def del: head_run.simps)

end
