(* ===== verification/CircuitBreaker.thy ===== *)
theory CircuitBreaker
  imports Prelude
begin

text \<open>
  The circuit breaker, \<^verbatim>\<open>circuit_breaker.rs\<close>: the state machine with its wrapping 32-bit
  counters and its clock readings as arguments (a call takes place at one instant), an
  abstract machine with unbounded counters, and the refinement between the two.
\<close>

subsection \<open>The breaker\<close>

record circuit_breaker_config =
  failure_threshold :: u32
  success_threshold :: u32
  timeout_duration :: duration
  window_duration :: duration

definition circuit_breaker_config_default :: circuit_breaker_config where
  "circuit_breaker_config_default =
     \<lparr>failure_threshold = 5, success_threshold = 2, timeout_duration = from_secs 30,
      window_duration = from_secs 60\<rparr>"

datatype circuit_state = Closed | Open | HalfOpen

record circuit_breaker =
  cb_state :: circuit_state
  cb_consecutive_failures :: u32
  cb_consecutive_successes :: u32
  cb_total_failures :: u64
  cb_total_successes :: u64
  cb_last_failure_time :: "instant option"
  cb_last_state_change :: instant
  cb_config :: circuit_breaker_config

definition breaker_with_config :: "circuit_breaker_config \<Rightarrow> instant \<Rightarrow> circuit_breaker" where
  "breaker_with_config cfg now =
     \<lparr>cb_state = Closed, cb_consecutive_failures = 0, cb_consecutive_successes = 0,
      cb_total_failures = 0, cb_total_successes = 0, cb_last_failure_time = None,
      cb_last_state_change = now, cb_config = cfg\<rparr>"

definition transition_to :: "instant \<Rightarrow> circuit_state \<Rightarrow> circuit_breaker \<Rightarrow> circuit_breaker" where
  "transition_to now new cb =
     (if cb_state cb = new then cb
      else
        let cb' = cb\<lparr>cb_state := new, cb_last_state_change := now\<rparr>
        in case new of
             Closed \<Rightarrow> cb'\<lparr>cb_consecutive_failures := 0, cb_consecutive_successes := 0\<rparr>
           | Open \<Rightarrow> cb'\<lparr>cb_consecutive_successes := 0\<rparr>
           | HalfOpen \<Rightarrow> cb'\<lparr>cb_consecutive_failures := 0, cb_consecutive_successes := 0\<rparr>)"

definition check_and_update_state :: "instant \<Rightarrow> circuit_breaker \<Rightarrow> circuit_breaker" where
  "check_and_update_state now cb =
     (if cb_state cb = Open \<and> elapsed now (cb_last_state_change cb) \<ge> timeout_duration (cb_config cb)
      then transition_to now HalfOpen cb else cb)"

definition can_execute :: "instant \<Rightarrow> circuit_breaker \<Rightarrow> bool \<times> circuit_breaker" where
  "can_execute now cb =
     (let cb' = check_and_update_state now cb
      in (case cb_state cb' of Closed \<Rightarrow> True | Open \<Rightarrow> False | HalfOpen \<Rightarrow> True, cb'))"

definition breaker_state :: "instant \<Rightarrow> circuit_breaker \<Rightarrow> circuit_state \<times> circuit_breaker" where
  "breaker_state now cb = (let cb' = check_and_update_state now cb in (cb_state cb', cb'))"

definition record_success :: "instant \<Rightarrow> circuit_breaker \<Rightarrow> circuit_breaker" where
  "record_success now cb =
     (let successes = cb_consecutive_successes cb + 1;
          cb' = cb\<lparr>cb_total_successes := cb_total_successes cb + 1, cb_consecutive_failures := 0,
                   cb_consecutive_successes := successes\<rparr>
      in case cb_state cb' of
           HalfOpen \<Rightarrow>
             if successes \<ge> success_threshold (cb_config cb') then transition_to now Closed cb' else cb'
         | Closed \<Rightarrow> cb'
         | Open \<Rightarrow> cb')"

definition record_failure :: "instant \<Rightarrow> circuit_breaker \<Rightarrow> circuit_breaker" where
  "record_failure now cb =
     (let failures = cb_consecutive_failures cb + 1;
          cb' = cb\<lparr>cb_total_failures := cb_total_failures cb + 1, cb_consecutive_successes := 0,
                   cb_consecutive_failures := failures, cb_last_failure_time := Some now\<rparr>
      in case cb_state cb' of
           Closed \<Rightarrow>
             if failures \<ge> failure_threshold (cb_config cb') then transition_to now Open cb' else cb'
         | HalfOpen \<Rightarrow> transition_to now Open cb'
         | Open \<Rightarrow> cb')"

definition record_outcome :: "instant \<Rightarrow> bool \<Rightarrow> circuit_breaker \<Rightarrow> circuit_breaker" where
  "record_outcome now success cb = (if success then record_success now cb else record_failure now cb)"

definition reset_breaker :: "instant \<Rightarrow> circuit_breaker \<Rightarrow> circuit_breaker" where
  "reset_breaker now cb =
     (transition_to now Closed cb)\<lparr>cb_consecutive_failures := 0, cb_consecutive_successes := 0\<rparr>"

definition force_open :: "instant \<Rightarrow> circuit_breaker \<Rightarrow> circuit_breaker" where
  "force_open now cb = transition_to now Open cb"

record circuit_breaker_stats =
  st_state :: circuit_state
  st_consecutive_failures :: u32
  st_consecutive_successes :: u32
  st_total_failures :: u64
  st_total_successes :: u64
  st_time_since_last_failure :: "duration option"
  st_time_since_last_state_change :: duration

definition breaker_stats :: "instant \<Rightarrow> circuit_breaker \<Rightarrow> circuit_breaker_stats \<times> circuit_breaker" where
  "breaker_stats now cb =
     (let (s, cb') = breaker_state now cb
      in (\<lparr>st_state = s, st_consecutive_failures = cb_consecutive_failures cb',
           st_consecutive_successes = cb_consecutive_successes cb',
           st_total_failures = cb_total_failures cb', st_total_successes = cb_total_successes cb',
           st_time_since_last_failure = map_option (elapsed now) (cb_last_failure_time cb'),
           st_time_since_last_state_change = elapsed now (cb_last_state_change cb')\<rparr>, cb'))"

subsection \<open>The abstract machine\<close>

datatype breaker_event = Succeed | Failing | Check | Reset | ForceOpen

definition run_event :: "instant \<times> breaker_event \<Rightarrow> circuit_breaker \<Rightarrow> circuit_breaker" where
  "run_event e cb =
     (case e of
        (now, Succeed) \<Rightarrow> record_success now cb
      | (now, Failing) \<Rightarrow> record_failure now cb
      | (now, Check) \<Rightarrow> snd (can_execute now cb)
      | (now, Reset) \<Rightarrow> reset_breaker now cb
      | (now, ForceOpen) \<Rightarrow> force_open now cb)"

datatype breaker_spec = SClosed nat | SOpen instant | SHalf nat

fun spec_event :: "circuit_breaker_config \<Rightarrow> instant \<times> breaker_event \<Rightarrow> breaker_spec \<Rightarrow> breaker_spec" where
  "spec_event cfg (now, Succeed) (SClosed n) = SClosed 0"
| "spec_event cfg (now, Succeed) (SOpen t) = SOpen t"
| "spec_event cfg (now, Succeed) (SHalf m) =
     (if Suc m \<ge> unat (success_threshold cfg) then SClosed 0 else SHalf (Suc m))"
| "spec_event cfg (now, Failing) (SClosed n) =
     (if Suc n \<ge> unat (failure_threshold cfg) then SOpen now else SClosed (Suc n))"
| "spec_event cfg (now, Failing) (SOpen t) = SOpen t"
| "spec_event cfg (now, Failing) (SHalf m) = SOpen now"
| "spec_event cfg (now, Check) (SOpen t) = (if now - t \<ge> timeout_duration cfg then SHalf 0 else SOpen t)"
| "spec_event cfg (now, Check) s = s"
| "spec_event cfg (now, Reset) s = SClosed 0"
| "spec_event cfg (now, ForceOpen) (SOpen t) = SOpen t"
| "spec_event cfg (now, ForceOpen) s = SOpen now"

definition breaker_abs :: "circuit_breaker \<Rightarrow> breaker_spec" where
  "breaker_abs cb =
     (case cb_state cb of
        Closed \<Rightarrow> SClosed (unat (cb_consecutive_failures cb))
      | Open \<Rightarrow> SOpen (cb_last_state_change cb)
      | HalfOpen \<Rightarrow> SHalf (unat (cb_consecutive_successes cb)))"

definition breaker_ok :: "circuit_breaker \<Rightarrow> bool" where
  \<comment> \<open>the counter that decides stays below its threshold, so it never wraps\<close>
  "breaker_ok cb \<longleftrightarrow>
     (cb_state cb = Closed \<longrightarrow>
        cb_consecutive_failures cb = 0 \<or> cb_consecutive_failures cb < failure_threshold (cb_config cb)) \<and>
     (cb_state cb = HalfOpen \<longrightarrow>
        cb_consecutive_successes cb = 0 \<or> cb_consecutive_successes cb < success_threshold (cb_config cb))"

lemma unat_inc_below:
  assumes "c = 0 \<or> c < (t::u32)"
  shows "unat (c + 1) = Suc (unat c)"
proof -
  have "unat t < 2 ^ LENGTH(32)" by (rule unsigned_less)
  with assms have "unat c + 1 < 2 ^ LENGTH(32)" by (auto simp: word_less_nat_alt)
  then show ?thesis by (simp add: unat_word_ariths)
qed

lemmas breaker_defs = run_event_def record_success_def record_failure_def can_execute_def
  reset_breaker_def force_open_def check_and_update_state_def transition_to_def breaker_abs_def
  breaker_ok_def elapsed_def Let_def

lemma config_run [simp]: "cb_config (run_event e cb) = cb_config cb"
  by (cases e; cases "snd e") (simp_all add: breaker_defs split: circuit_state.split)

lemma breaker_step:
  assumes "breaker_ok cb"
  shows "breaker_ok (run_event e cb) \<and>
    breaker_abs (run_event e cb) = spec_event (cb_config cb) e (breaker_abs cb)"
proof (cases "cb_state cb")
  case Closed
  with assms have "unat (cb_consecutive_failures cb + 1) = Suc (unat (cb_consecutive_failures cb))"
    by (auto simp: breaker_ok_def intro: unat_inc_below)
  with Closed assms show ?thesis
    by (cases e; cases "snd e") (auto simp: breaker_defs word_le_nat_alt word_less_nat_alt not_le)
next
  case Open
  with assms show ?thesis by (cases e; cases "snd e") (auto simp: breaker_defs)
next
  case HalfOpen
  with assms have "unat (cb_consecutive_successes cb + 1) = Suc (unat (cb_consecutive_successes cb))"
    by (auto simp: breaker_ok_def intro: unat_inc_below)
  with HalfOpen assms show ?thesis
    by (cases e; cases "snd e") (auto simp: breaker_defs word_le_nat_alt word_less_nat_alt not_le)
qed

lemma breaker_run:
  assumes "breaker_ok cb"
  shows "breaker_ok (fold run_event es cb) \<and>
    breaker_abs (fold run_event es cb) = fold (spec_event (cb_config cb)) es (breaker_abs cb)"
  using assms by (induction es arbitrary: cb) (auto simp: breaker_step)

lemma breaker_new [simp]:
  "breaker_ok (breaker_with_config cfg now)" "breaker_abs (breaker_with_config cfg now) = SClosed 0"
  "cb_config (breaker_with_config cfg now) = cfg"
  by (simp_all add: breaker_with_config_def breaker_ok_def breaker_abs_def)

subsection \<open>Properties\<close>


lemma state_from_abs:
  "breaker_abs cb = SOpen t \<Longrightarrow> cb_state cb = Open"
  "breaker_abs cb = SClosed n \<Longrightarrow> cb_state cb = Closed"
  "breaker_abs cb = SHalf n \<Longrightarrow> cb_state cb = HalfOpen"
  by (auto simp: breaker_abs_def split: circuit_state.splits)

lemma spec_failures:
  "fold (spec_event cfg) (map (\<lambda>t. (t, Failing)) ts) (SClosed n) =
     (if ts = [] then SClosed n
      else if n + length ts < max 1 (unat (failure_threshold cfg)) then SClosed (n + length ts)
      else SOpen (ts ! (max 1 (unat (failure_threshold cfg)) - Suc n)))"
  if "n < max 1 (unat (failure_threshold cfg))"
  using that
proof (induction ts arbitrary: n)
  case (Cons t ts)
  have open_stays: "fold (spec_event cfg) (map (\<lambda>t. (t, Failing)) us) (SOpen u) = SOpen u" for us u
    by (induction us) auto
  show ?case
  proof (cases "Suc n \<ge> unat (failure_threshold cfg)")
    case True
    with Cons.prems have "max 1 (unat (failure_threshold cfg)) = Suc n" by auto
    with True show ?thesis by (simp add: open_stays)
  next
    case False
    then have "Suc n < max 1 (unat (failure_threshold cfg))" by auto
    from Cons.IH [OF this] False show ?thesis
      by (cases ts) (auto simp: nth_Cons' max_def Suc_diff_Suc)
  qed
qed simp

text \<open>
  A new breaker opens at exactly the configured number of consecutive failures (at
  the first one if that number is zero), not earlier, and stays open under further
  failures.
\<close>

theorem breaker_opens_at_threshold:
  "cb_state (fold run_event (map (\<lambda>t. (t, Failing)) ts) (breaker_with_config cfg t0)) =
     (if length ts \<ge> max 1 (unat (failure_threshold cfg)) then Open else Closed)"
proof -
  let ?cb = "fold run_event (map (\<lambda>t. (t, Failing)) ts) (breaker_with_config cfg t0)"
  have "breaker_abs ?cb = fold (spec_event cfg) (map (\<lambda>t. (t, Failing)) ts) (SClosed 0)"
    using breaker_run [of "breaker_with_config cfg t0"] by simp
  then show ?thesis
    using state_from_abs [of ?cb] by (auto simp: spec_failures split: if_splits)
qed

lemma spec_stays_open:
  assumes "\<forall>(t, ev) \<in> set es. ev \<noteq> Reset \<and> (ev = Check \<longrightarrow> elapsed t since < timeout_duration cfg)"
  shows "fold (spec_event cfg) es (SOpen since) = SOpen since"
  using assms
proof (induction es)
  case (Cons e es)
  then show ?case by (cases e; cases "snd e") (auto simp: elapsed_def)
qed simp

text \<open>
  An open breaker lets nothing through before its timeout has passed since it opened,
  whatever outcomes, checks and forced openings happen meanwhile; only a reset does.
\<close>

theorem open_breaker_rejects:
  assumes "breaker_ok cb" and "cb_state cb = Open"
    and "\<forall>(t, ev) \<in> set es. ev \<noteq> Reset \<and>
      (ev = Check \<longrightarrow> elapsed t (cb_last_state_change cb) < timeout_duration (cb_config cb))"
    and "elapsed now (cb_last_state_change cb) < timeout_duration (cb_config cb)"
  shows "\<not> fst (can_execute now (fold run_event es cb))"
proof -
  let ?cb = "fold run_event es cb"
  have "breaker_abs cb = SOpen (cb_last_state_change cb)" using assms(2) by (simp add: breaker_abs_def)
  then have abs: "breaker_abs ?cb = SOpen (cb_last_state_change cb)"
    using breaker_run [OF assms(1), of es] spec_stays_open [OF assms(3)] by simp
  then have "cb_state ?cb = Open" "cb_last_state_change ?cb = cb_last_state_change cb"
    by (auto simp: breaker_abs_def split: circuit_state.splits)
  moreover have "cb_config ?cb = cb_config cb"
    by (simp add: fold_invariant [where P = "\<lambda>c. cb_config c = cb_config cb" and Q = "\<lambda>_. True"])
  ultimately show ?thesis
    using assms(4) by (simp add: can_execute_def check_and_update_state_def Let_def)
qed

abbreviation demo_breaker :: circuit_breaker where
  "demo_breaker \<equiv> force_open 100 (breaker_with_config circuit_breaker_config_default 0)"

lemma spec_successes:
  "m < max 1 (unat (success_threshold cfg)) \<Longrightarrow>
   fold (spec_event cfg) (map (\<lambda>t. (t, Succeed)) ts) (SHalf m) =
     (if m + length ts < max 1 (unat (success_threshold cfg)) then SHalf (m + length ts) else SClosed 0)"
proof (induction ts arbitrary: m)
  case (Cons t ts)
  have closed: "fold (spec_event cfg) (map (\<lambda>t. (t, Succeed)) us) (SClosed 0) = SClosed 0" for us
    by (induction us) auto
  show ?case
  proof (cases "Suc m \<ge> unat (success_threshold cfg)")
    case True
    with Cons.prems have "max 1 (unat (success_threshold cfg)) = Suc m" by auto
    with True show ?thesis by (simp add: closed)
  next
    case False
    then have "Suc m < max 1 (unat (success_threshold cfg))" by auto
    from Cons.IH [OF this] False show ?thesis by auto
  qed
qed simp

text \<open>
  After its timeout an open breaker recovers: the next check lets a request through;
  the configured number of consecutive successes then closes it, fewer leave it half
  open, and a single failure in between opens it again from that moment on.
\<close>

theorem breaker_recovers:
  assumes "breaker_ok cb" and "cb_state cb = Open"
    and "now \<ge> cb_last_state_change cb + timeout_duration (cb_config cb)"
  shows "let st = max 1 (unat (success_threshold (cb_config cb)));
             half = fold run_event (map (\<lambda>t. (t, Succeed)) ts) (snd (can_execute now cb))
         in fst (can_execute now cb) \<and>
            cb_state half = (if length ts \<ge> st then Closed else HalfOpen) \<and>
            (length ts < st \<longrightarrow> breaker_abs (record_failure t half) = SOpen t)"
proof -
  let ?cfg = "cb_config cb" and ?cb1 = "snd (can_execute now cb)"
  let ?half = "fold run_event (map (\<lambda>t. (t, Succeed)) ts) ?cb1"
  have run: "?cb1 = run_event (now, Check) cb" by (simp add: run_event_def)
  have "breaker_abs cb = SOpen (cb_last_state_change cb)" using assms(2) by (simp add: breaker_abs_def)
  then have ok1: "breaker_ok ?cb1" and "breaker_abs ?cb1 = SHalf 0"
    using breaker_step [OF assms(1), of "(now, Check)"] assms(3) unfolding run by auto
  then have abs: "breaker_abs ?half = (if length ts < max 1 (unat (success_threshold ?cfg))
      then SHalf (length ts) else SClosed 0)" and ok: "breaker_ok ?half"
    using breaker_run [OF ok1, of "map (\<lambda>t. (t, Succeed)) ts"] spec_successes [of 0 ?cfg ts]
    unfolding run by auto
  have "breaker_abs (record_failure t ?half) = spec_event (cb_config ?half) (t, Failing) (breaker_abs ?half)"
    using breaker_step [OF ok, of "(t, Failing)"] by (simp add: run_event_def)
  moreover have "fst (can_execute now cb)"
    using assms(2,3) by (simp add: can_execute_def check_and_update_state_def transition_to_def elapsed_def Let_def)
  ultimately show ?thesis
    using abs state_from_abs [of ?half] by (auto simp: Let_def split: if_splits)
qed

end
