(* ===== verification/Policies.thy ===== *)
theory Policies
  imports RustStr
begin

text \<open>
  Workers and the simple load-balancing policies, \<^verbatim>\<open>policies/mod.rs\<close>, \<^verbatim>\<open>random.rs\<close>,
  \<^verbatim>\<open>round_robin.rs\<close> and \<^verbatim>\<open>power_of_two.rs\<close>. The locale \<open>lb_policy\<close> is the contract of the
  trait \<^verbatim>\<open>LoadBalancingPolicy\<close>: a worker is found exactly when one is available, and it is
  available. What clients use is proved there once (pairs of workers, sequences of
  requests) and holds of every policy by interpretation. Random numbers are an argument:
  \<open>draw i n\<close> is the \<open>i\<close>-th value drawn from \<open>0..n\<close>.
\<close>

subsection \<open>Workers\<close>

record worker =
  w_url :: string
  w_model_id :: string
  w_healthy :: bool
  w_load :: usize
  w_processed :: u64
  w_breaker_allows :: bool  \<comment> \<open>what \<^verbatim>\<open>circuit_breaker_allows\<close> returns\<close>

definition basic_worker_with_model :: "string \<Rightarrow> string \<Rightarrow> worker" where
  "basic_worker_with_model url model =
     \<lparr>w_url = url, w_model_id = model, w_healthy = True, w_load = 0, w_processed = 0,
      w_breaker_allows = True\<rparr>"

definition basic_worker_new :: "string \<Rightarrow> worker" where
  "basic_worker_new url = basic_worker_with_model url ''default''"

definition set_healthy :: "bool \<Rightarrow> worker \<Rightarrow> worker" where
  "set_healthy h w = w\<lparr>w_healthy := h\<rparr>"

definition increment_load :: "worker \<Rightarrow> worker" where
  "increment_load w = w\<lparr>w_load := w_load w + 1\<rparr>"

definition decrement_load :: "worker \<Rightarrow> worker" where
  "decrement_load w = w\<lparr>w_load := w_load w - 1\<rparr>"

definition increment_processed :: "worker \<Rightarrow> worker" where
  "increment_processed w = w\<lparr>w_processed := w_processed w + 1\<rparr>"

definition available :: "worker \<Rightarrow> bool" where
  "available w \<longleftrightarrow> w_healthy w \<and> w_breaker_allows w"

definition get_healthy_worker_indices :: "worker list \<Rightarrow> nat list" where
  "get_healthy_worker_indices ws = map fst (filter (\<lambda>(_, w). available w) (enumerate 0 ws))"

type_synonym request_headers = "(string, string) hash_map"

lemma set_healthy_indices:
  "set (get_healthy_worker_indices ws) = {i. i < length ws \<and> available (ws ! i)}"
  by (force simp: get_healthy_worker_indices_def in_set_enumerate_eq)

lemma healthy_indices_Nil: "get_healthy_worker_indices ws = [] \<longleftrightarrow> (\<forall>w \<in> set ws. \<not> available w)"
proof -
  have "get_healthy_worker_indices ws = [] \<longleftrightarrow> set (get_healthy_worker_indices ws) = {}" by simp
  also have "\<dots> \<longleftrightarrow> (\<forall>w \<in> set ws. \<not> available w)"
    unfolding set_healthy_indices by (metis (no_types, lifting) empty_Collect_eq in_set_conv_nth)
  finally show ?thesis .
qed

lemma distinct_healthy_indices: "distinct (get_healthy_worker_indices ws)"
proof -
  have "distinct (map fst (enumerate 0 ws))" by simp
  then show ?thesis unfolding get_healthy_worker_indices_def by (rule distinct_map_filter)
qed

subsection \<open>The contract of a policy\<close>

locale lb_policy =
  fixes select :: "worker list \<Rightarrow> string option \<Rightarrow> request_headers option \<Rightarrow> 'p \<Rightarrow> nat option \<times> 'p"
    and ok :: "'p \<Rightarrow> bool"
  assumes select_None: "ok p \<Longrightarrow> fst (select ws req hdrs p) = None \<longleftrightarrow> (\<forall>w \<in> set ws. \<not> available w)"
    and select_Some: "ok p \<Longrightarrow> fst (select ws req hdrs p) = Some i \<Longrightarrow> i < length ws \<and> available (ws ! i)"
    and select_ok: "ok p \<Longrightarrow> ok (snd (select ws req hdrs p))"
begin

lemma select_total:
  "ok p \<Longrightarrow> \<exists>w \<in> set ws. available w \<Longrightarrow>
   \<exists>i. fst (select ws req hdrs p) = Some i \<and> i < length ws \<and> available (ws ! i)"
  using select_None [of p ws req hdrs] select_Some [of p ws req hdrs]
  by (cases "fst (select ws req hdrs p)") auto

lemma select_single:
  \<comment> \<open>with one available worker there is no choice\<close>
  assumes "ok p" and "{i. i < length ws \<and> available (ws ! i)} = {j}"
  shows "fst (select ws req hdrs p) = Some j"
proof -
  have "j < length ws \<and> available (ws ! j)" using assms(2) by blast
  then have "\<exists>w \<in> set ws. available w" by (intro bexI [of _ "ws ! j"]) auto
  from select_total [OF assms(1) this] obtain i where
    "fst (select ws req hdrs p) = Some i" "i < length ws" "available (ws ! i)" by blast
  moreover from this have "i \<in> {j}" unfolding assms(2) [symmetric] by simp
  ultimately show ?thesis by simp
qed

end

definition select_worker_pair ::
  "(worker list \<Rightarrow> string option \<Rightarrow> request_headers option \<Rightarrow> 'p \<Rightarrow> nat option \<times> 'p) \<Rightarrow>
   worker list \<Rightarrow> worker list \<Rightarrow> string option \<Rightarrow> request_headers option \<Rightarrow> 'p \<Rightarrow>
   (nat \<times> nat) option \<times> 'p" where
  "select_worker_pair select prefill decode req hdrs p =
     (case select prefill req hdrs p of
        (None, p1) \<Rightarrow> (None, p1)
      | (Some i, p1) \<Rightarrow>
          (case select decode req hdrs p1 of
             (None, p2) \<Rightarrow> (None, p2)
           | (Some j, p2) \<Rightarrow> (Some (i, j), p2)))"

context lb_policy
begin

lemma pair_None:
  assumes "ok p"
  shows "fst (select_worker_pair select prefill decode req hdrs p) = None \<longleftrightarrow>
    (\<forall>w \<in> set prefill. \<not> available w) \<or> (\<forall>w \<in> set decode. \<not> available w)"
proof -
  obtain r p1 where s1: "select prefill req hdrs p = (r, p1)" by (cases "select prefill req hdrs p")
  then have "ok p1" using select_ok [OF assms, of prefill req hdrs] by simp
  moreover obtain r2 p2 where s2: "select decode req hdrs p1 = (r2, p2)" by (cases "select decode req hdrs p1")
  ultimately show ?thesis
    using select_None [OF assms, of prefill req hdrs] select_None [of p1 decode req hdrs] s1 s2
    by (auto simp: select_worker_pair_def split: option.split)
qed

lemma pair_Some:
  assumes "ok p" and "fst (select_worker_pair select prefill decode req hdrs p) = Some (i, j)"
  shows "i < length prefill \<and> available (prefill ! i) \<and> j < length decode \<and> available (decode ! j)"
proof -
  obtain r p1 where s1: "select prefill req hdrs p = (r, p1)" by (cases "select prefill req hdrs p")
  then have "ok p1" using select_ok [OF assms(1), of prefill req hdrs] by simp
  moreover obtain r2 p2 where s2: "select decode req hdrs p1 = (r2, p2)" by (cases "select decode req hdrs p1")
  ultimately show ?thesis
    using select_Some [OF assms(1), of prefill req hdrs] select_Some [of p1 decode req hdrs] s1 s2 assms(2)
    by (auto simp: select_worker_pair_def split: option.splits)
qed

end

subsection \<open>Random\<close>

type_synonym draws = "nat \<Rightarrow> nat \<Rightarrow> nat"

definition draws_ok :: "draws \<Rightarrow> bool" where
  \<comment> \<open>\<^verbatim>\<open>random_range(0..n)\<close> is below \<open>n\<close>\<close>
  "draws_ok draw \<longleftrightarrow> (\<forall>i n. 0 < n \<longrightarrow> draw i n < n)"

definition random_select ::
  "worker list \<Rightarrow> string option \<Rightarrow> request_headers option \<Rightarrow> draws \<Rightarrow> nat option \<times> draws" where
  "random_select ws req hdrs draw =
     (let healthy = get_healthy_worker_indices ws
      in if healthy = [] then (None, draw)
         else (Some (healthy ! draw 0 (length healthy)), \<lambda>i. draw (Suc i)))"

lemma nth_healthy:
  "k < length (get_healthy_worker_indices ws) \<Longrightarrow>
   get_healthy_worker_indices ws ! k < length ws \<and> available (ws ! (get_healthy_worker_indices ws ! k))"
  using nth_mem [of k "get_healthy_worker_indices ws"] by (simp add: set_healthy_indices)

interpretation random: lb_policy random_select draws_ok
proof unfold_locales
  fix p ws req hdrs i assume "draws_ok p" "fst (random_select ws req hdrs p) = Some i"
  then show "i < length ws \<and> available (ws ! i)"
    using nth_healthy [of "p 0 (length (get_healthy_worker_indices ws))" ws]
    by (auto simp: random_select_def Let_def draws_ok_def split: if_splits)
qed (auto simp: random_select_def Let_def healthy_indices_Nil [symmetric] draws_ok_def)

subsection \<open>Round robin\<close>

record round_robin_policy =
  rr_counter :: usize

definition round_robin_new :: round_robin_policy where
  "round_robin_new = \<lparr>rr_counter = 0\<rparr>"

definition round_robin_select ::
  "worker list \<Rightarrow> string option \<Rightarrow> request_headers option \<Rightarrow> round_robin_policy \<Rightarrow>
   nat option \<times> round_robin_policy" where
  "round_robin_select ws req hdrs p =
     (let healthy = get_healthy_worker_indices ws
      in if healthy = [] then (None, p)
         else (Some (healthy ! (unat (rr_counter p) mod length healthy)),
               p\<lparr>rr_counter := rr_counter p + 1\<rparr>))"

definition round_robin_reset :: "round_robin_policy \<Rightarrow> round_robin_policy" where
  "round_robin_reset p = p\<lparr>rr_counter := 0\<rparr>"

interpretation rr: lb_policy round_robin_select "\<lambda>_. True"
proof unfold_locales
  fix p ws req hdrs i assume "fst (round_robin_select ws req hdrs p) = Some i"
  then show "i < length ws \<and> available (ws ! i)"
    using nth_healthy [of "unat (rr_counter p) mod length (get_healthy_worker_indices ws)" ws]
    by (auto simp: round_robin_select_def Let_def split: if_splits)
qed (auto simp: round_robin_select_def Let_def healthy_indices_Nil [symmetric])

fun select_times ::
  "('p \<Rightarrow> nat option \<times> 'p) \<Rightarrow> nat \<Rightarrow> 'p \<Rightarrow> nat option list" where
  \<comment> \<open>the results of consecutive selections\<close>
  "select_times sel 0 p = []"
| "select_times sel (Suc n) p = (case sel p of (r, p') \<Rightarrow> r # select_times sel n p')"

lemma round_robin_times:
  assumes "get_healthy_worker_indices ws \<noteq> []" and "unat (rr_counter p) + n \<le> 2 ^ 64"
  shows "select_times (round_robin_select ws req hdrs) n p =
    map (\<lambda>j. Some (get_healthy_worker_indices ws ! (j mod length (get_healthy_worker_indices ws))))
      [unat (rr_counter p)..<unat (rr_counter p) + n]"
  using assms(2)
proof (induction n arbitrary: p)
  case (Suc n)
  let ?p' = "p\<lparr>rr_counter := rr_counter p + 1\<rparr>"
  show ?case
  proof (cases n)
    case 0
    then show ?thesis using assms(1) by (simp add: round_robin_select_def Let_def)
  next
    case (Suc m)
    with Suc.prems have "unat (rr_counter p) + 1 < 2 ^ 64" by simp
    then have "unat (rr_counter ?p') = Suc (unat (rr_counter p))" by (simp add: unat_word_ariths)
    moreover have "[unat (rr_counter p)..<unat (rr_counter p) + Suc n] =
        unat (rr_counter p) # [Suc (unat (rr_counter p))..<Suc (unat (rr_counter p)) + n]"
      by (simp add: upt_conv_Cons)
    ultimately show ?thesis
      using Suc.IH [of ?p'] Suc.prems assms(1) by (simp add: round_robin_select_def Let_def)
  qed
qed simp

text \<open>
  C12. Round robin is fair: with the available workers unchanged, as many consecutive
  selections as there are available workers choose each of them exactly once, in cyclic
  order from the current position, until the counter wraps.
\<close>

theorem round_robin_fair:
  assumes "\<exists>w \<in> set ws. available w"
    and "unat (rr_counter p) + length (get_healthy_worker_indices ws) \<le> 2 ^ 64"
  shows "select_times (round_robin_select ws req hdrs) (length (get_healthy_worker_indices ws)) p =
    map Some (rotate (unat (rr_counter p)) (get_healthy_worker_indices ws))"
proof -
  let ?h = "get_healthy_worker_indices ws"
  have ne: "?h \<noteq> []" using assms(1) by (simp add: healthy_indices_Nil)
  show ?thesis
    unfolding round_robin_times [OF ne assms(2)]
    by (rule nth_equalityI) (simp_all add: nth_rotate add.commute)
qed

abbreviation demo_workers :: "worker list" where
  "demo_workers \<equiv>
     [basic_worker_new ''a'', set_healthy False (basic_worker_new ''b''), basic_worker_new ''c'']"

theorem round_robin_fair_witness:
  "select_times (round_robin_select demo_workers None None) (length [0::nat, 2]) \<lparr>rr_counter = 5\<rparr> =
     [Some 2, Some 0]"
proof -
  have h: "get_healthy_worker_indices demo_workers = [0, 2]"
    by (simp add: get_healthy_worker_indices_def available_def basic_worker_new_def
          basic_worker_with_model_def set_healthy_def)
  have av: "\<exists>w \<in> set demo_workers. available w"
    by (simp add: available_def basic_worker_new_def basic_worker_with_model_def)
  have rot: "map Some (rotate (unat (rr_counter \<lparr>rr_counter = 5\<rparr>)) [0, 2 :: nat]) = [Some 2, Some 0]"
    by (subst rotate_conv_mod) (simp add: rotate_def numeral_2_eq_2 [symmetric])
  have "unat (rr_counter \<lparr>rr_counter = 5\<rparr>) + length (get_healthy_worker_indices demo_workers) \<le> 2 ^ 64"
    unfolding h by simp
  from round_robin_fair [OF av this, of None None] show ?thesis unfolding h rot .
qed

subsection \<open>Power of two choices\<close>

record power_of_two_policy =
  cached_loads :: "(string, int) hash_map"

definition power_of_two_new :: power_of_two_policy where
  "power_of_two_new = \<lparr>cached_loads = []\<rparr>"

definition get_worker_load :: "power_of_two_policy \<Rightarrow> worker \<Rightarrow> int" where
  "get_worker_load p w =
     (case hm_get (cached_loads p) (w_url w) of Some l \<Rightarrow> l | None \<Rightarrow> sint (w_load w))"

definition update_loads :: "(string, int) hash_map \<Rightarrow> power_of_two_policy \<Rightarrow> power_of_two_policy" where
  "update_loads loads p = p\<lparr>cached_loads := loads\<rparr>"

partial_function (option) redraw :: "draws \<Rightarrow> nat \<Rightarrow> nat \<Rightarrow> nat \<Rightarrow> (nat \<times> nat) option" where
  \<comment> \<open>draw until the index differs from the first; with the number of the next draw\<close>
  "redraw draw n idx1 i =
     (let idx2 = draw i n in if idx2 = idx1 then redraw draw n idx1 (Suc i) else Some (idx2, Suc i))"

declare redraw.simps [code]

definition power_of_two_run ::
  "worker list \<Rightarrow> power_of_two_policy \<Rightarrow> draws \<Rightarrow> (nat option \<times> draws) option" where
  \<comment> \<open>the outer \<open>None\<close> is a loop that never draws a second worker\<close>
  "power_of_two_run ws p draw =
     (let healthy = get_healthy_worker_indices ws; n = length healthy
      in if healthy = [] then Some (None, draw)
         else if n = 1 then Some (Some (healthy ! 0), draw)
         else
           let idx1 = draw 0 n
           in case redraw draw n idx1 1 of
                None \<Rightarrow> None
              | Some (idx2, used) \<Rightarrow>
                  let i1 = healthy ! idx1; i2 = healthy ! idx2;
                      load1 = get_worker_load p (ws ! i1); load2 = get_worker_load p (ws ! i2)
                  in Some (Some (if load1 \<le> load2 then i1 else i2), \<lambda>i. draw (used + i)))"

definition power_of_two_select ::
  "worker list \<Rightarrow> string option \<Rightarrow> request_headers option \<Rightarrow> power_of_two_policy \<times> draws \<Rightarrow>
   nat option \<times> power_of_two_policy \<times> draws" where
  "power_of_two_select ws req hdrs pd =
     (case power_of_two_run ws (fst pd) (snd pd) of
        Some (r, draw') \<Rightarrow> (r, fst pd, draw')
      | None \<Rightarrow> (None, pd))"

definition draws_fair :: "draws \<Rightarrow> bool" where
  \<comment> \<open>no value is drawn for ever when there are at least two\<close>
  "draws_fair draw \<longleftrightarrow> draws_ok draw \<and> (\<forall>i n m. 2 \<le> n \<longrightarrow> (\<exists>j \<ge> i. draw j n \<noteq> m))"

lemma redraw_terminates:
  assumes "draw j n \<noteq> idx1" and "i \<le> j"
  shows "\<exists>k. i \<le> k \<and> k \<le> j \<and> draw k n \<noteq> idx1 \<and> redraw draw n idx1 i = Some (draw k n, Suc k)"
  using assms(2)
proof (induction "j - i" arbitrary: i)
  case 0
  with assms(1) have "i = j" by simp
  with assms(1) show ?case by (subst redraw.simps) (auto simp: Let_def)
next
  case (Suc d)
  show ?case
  proof (cases "draw i n = idx1")
    case True
    from Suc(2) have "d = j - Suc i" "Suc i \<le> j" by auto
    from Suc(1) [OF this] True show ?thesis by (subst redraw.simps) (auto simp: Let_def intro: Suc_leD)
  next
    case False
    with Suc.prems show ?thesis by (subst redraw.simps) (auto simp: Let_def)
  qed
qed

lemma length_healthy_ge2:
  "get_healthy_worker_indices ws \<noteq> [] \<Longrightarrow> length (get_healthy_worker_indices ws) \<noteq> 1 \<Longrightarrow>
   2 \<le> length (get_healthy_worker_indices ws)"
  by (cases "get_healthy_worker_indices ws" rule: remdups_adj.cases) auto

lemma power_of_two_two:
  assumes "draws_fair draw" and "2 \<le> length (get_healthy_worker_indices ws)"
  shows "\<exists>k1 k2 used. k1 \<noteq> k2 \<and> k1 < length (get_healthy_worker_indices ws) \<and>
    k2 < length (get_healthy_worker_indices ws) \<and>
    power_of_two_run ws p draw =
      Some (Some (let i1 = get_healthy_worker_indices ws ! k1; i2 = get_healthy_worker_indices ws ! k2
                  in if get_worker_load p (ws ! i1) \<le> get_worker_load p (ws ! i2) then i1 else i2),
            \<lambda>i. draw (used + i))"
proof -
  let ?n = "length (get_healthy_worker_indices ws)"
  obtain j where "1 \<le> j" "draw j ?n \<noteq> draw 0 ?n" using assms unfolding draws_fair_def by meson
  from redraw_terminates [of draw j ?n "draw 0 ?n" 1, OF this(2,1)] obtain k where
    k: "draw k ?n \<noteq> draw 0 ?n" "redraw draw ?n (draw 0 ?n) 1 = Some (draw k ?n, Suc k)" by blast
  have "0 < ?n" "get_healthy_worker_indices ws \<noteq> []" "?n \<noteq> 1" using assms(2) by auto
  moreover from this have "draw i ?n < ?n" for i using assms unfolding draws_fair_def draws_ok_def by blast
  ultimately show ?thesis
    using k
    by (intro exI [of _ "draw 0 ?n"] exI [of _ "draw k ?n"] exI [of _ "Suc k"])
      (simp add: power_of_two_run_def Let_def)
qed

lemma draws_fair_shift: "draws_fair draw \<Longrightarrow> draws_fair (\<lambda>i. draw (used + i))"
proof -
  assume fair: "draws_fair draw"
  have "\<exists>j \<ge> i. draw (used + j) n \<noteq> m" if n: "2 \<le> n" for i n m
  proof -
    obtain j where "used + i \<le> j" "draw j n \<noteq> m" using fair n unfolding draws_fair_def by meson
    then show ?thesis by (intro exI [of _ "j - used"]) auto
  qed
  with fair show ?thesis by (auto simp: draws_fair_def draws_ok_def)
qed

lemma power_of_two_result:
  assumes "draws_fair draw"
  shows "\<exists>r d. power_of_two_run ws p draw = Some (r, d) \<and> draws_fair d \<and>
    (r = None \<longleftrightarrow> get_healthy_worker_indices ws = []) \<and>
    (\<forall>i. r = Some i \<longrightarrow> i < length ws \<and> available (ws ! i))"
proof (cases "2 \<le> length (get_healthy_worker_indices ws)")
  case True
  from power_of_two_two [OF assms True, of p] obtain k1 k2 used where
    "k1 < length (get_healthy_worker_indices ws)" "k2 < length (get_healthy_worker_indices ws)"
    "power_of_two_run ws p draw =
      Some (Some (let i1 = get_healthy_worker_indices ws ! k1; i2 = get_healthy_worker_indices ws ! k2
                  in if get_worker_load p (ws ! i1) \<le> get_worker_load p (ws ! i2) then i1 else i2),
            \<lambda>i. draw (used + i))"
    by blast
  with nth_healthy [of k1 ws] nth_healthy [of k2 ws] draws_fair_shift [OF assms] True
  show ?thesis by (auto simp: Let_def)
next
  case False
  then show ?thesis
    using length_healthy_ge2 [of ws] nth_healthy [of 0 ws] assms
    by (cases "get_healthy_worker_indices ws = []") (auto simp: power_of_two_run_def Let_def)
qed

interpretation p2c: lb_policy power_of_two_select "\<lambda>pd. draws_fair (snd pd)"
proof unfold_locales
  fix pd :: "power_of_two_policy \<times> draws" and ws req hdrs
  assume fair: "draws_fair (snd pd)"
  from power_of_two_result [OF fair, of ws "fst pd"] obtain r d where
    run: "power_of_two_run ws (fst pd) (snd pd) = Some (r, d)" "draws_fair d"
      "r = None \<longleftrightarrow> get_healthy_worker_indices ws = []"
      "\<And>i. r = Some i \<Longrightarrow> i < length ws \<and> available (ws ! i)" by blast
  then have sel: "power_of_two_select ws req hdrs pd = (r, fst pd, d)" by (simp add: power_of_two_select_def)
  show "fst (power_of_two_select ws req hdrs pd) = None \<longleftrightarrow> (\<forall>w \<in> set ws. \<not> available w)"
    using run(3) by (simp add: sel healthy_indices_Nil)
  show "draws_fair (snd (snd (power_of_two_select ws req hdrs pd)))" using run(2) by (simp add: sel)
  show "i < length ws \<and> available (ws ! i)" if "fst (power_of_two_select ws req hdrs pd) = Some i" for i
    using that run(4) by (simp add: sel)
qed

text \<open>
  Power of two choices, with a random source that does not draw one index for ever,
  ends its redraw loop and picks an available worker whose load is no higher than that
  of some other available worker; so among two or more it never picks the one that is
  more loaded than all others.
\<close>

theorem power_of_two_avoids_most_loaded:
  assumes "draws_fair draw" and "2 \<le> length (get_healthy_worker_indices ws)"
  shows "\<exists>i j rest. power_of_two_run ws p draw = Some (Some i, rest) \<and> i \<noteq> j \<and>
    i \<in> set (get_healthy_worker_indices ws) \<and> j \<in> set (get_healthy_worker_indices ws) \<and>
    get_worker_load p (ws ! i) \<le> get_worker_load p (ws ! j)"
proof -
  let ?h = "get_healthy_worker_indices ws"
  from power_of_two_two [OF assms, of p] obtain k1 k2 used where
    k: "k1 \<noteq> k2" "k1 < length ?h" "k2 < length ?h" and
    run: "power_of_two_run ws p draw =
      Some (Some (let i1 = ?h ! k1; i2 = ?h ! k2
                  in if get_worker_load p (ws ! i1) \<le> get_worker_load p (ws ! i2) then i1 else i2),
            \<lambda>i. draw (used + i))"
    by blast
  have "?h ! k1 \<noteq> ?h ! k2" using k distinct_healthy_indices [of ws] by (simp add: nth_eq_iff_index_eq)
  moreover have "?h ! k1 \<in> set ?h" "?h ! k2 \<in> set ?h" using k by simp_all
  ultimately show ?thesis
    by (cases "get_worker_load p (ws ! (?h ! k1)) \<le> get_worker_load p (ws ! (?h ! k2))")
      (auto simp: run Let_def intro: exI [of _ "?h ! k2"] exI [of _ "?h ! k1"])
qed

end
