(* ===== verification/ConsistentHash.thy ===== *)
theory ConsistentHash
  imports Policies
begin

text \<open>
  The consistent-hashing policy, \<^verbatim>\<open>policies/consistent_hash.rs\<close>: the hash function bit by
  bit, the ring, the extraction of the routing key from headers and body, and the
  selection. A \<^verbatim>\<open>BTreeMap\<close> is an association list with strictly ascending keys, another
  interpretation of \<open>key_value\<close>.
\<close>

unbundle bit_operations_syntax

subsection \<open>Ordered maps\<close>

fun bt_insert :: "'k::linorder \<Rightarrow> 'v \<Rightarrow> ('k \<times> 'v) list \<Rightarrow> ('k \<times> 'v) list" where
  "bt_insert k v [] = [(k, v)]"
| "bt_insert k v ((k', v') # m) =
     (if k < k' then (k, v) # (k', v') # m
      else if k = k' then (k, v) # m
      else (k', v') # bt_insert k v m)"

definition bt_ok :: "('k::linorder \<times> 'v) list \<Rightarrow> bool" where
  "bt_ok m \<longleftrightarrow> sorted_wrt (<) (map fst m)"

definition bt_remove :: "'k::linorder \<Rightarrow> ('k \<times> 'v) list \<Rightarrow> ('k \<times> 'v) list" where
  "bt_remove k m = filter (\<lambda>(k', _). k' \<noteq> k) m"

lemma keys_bt_insert: "set (map fst (bt_insert k v m)) = insert k (set (map fst m))"
  by (induction k v m rule: bt_insert.induct) auto

lemma bt_ok_insert: "bt_ok m \<Longrightarrow> bt_ok (bt_insert k v m)"
  unfolding bt_ok_def
proof (induction k v m rule: bt_insert.induct)
  case (2 k v k' v' m)
  then show ?case using keys_bt_insert [of k v m] by (fastforce simp: image_iff)
qed simp

lemma get_bt_insert: "bt_ok m \<Longrightarrow> map_of (bt_insert k v m) = (map_of m)(k \<mapsto> v)"
  unfolding bt_ok_def
proof (induction k v m rule: bt_insert.induct)
  case (2 k v k' v' m)
  then show ?case by (auto simp: fun_eq_iff)
qed (simp add: fun_eq_iff)

lemma get_bt_remove: "map_of (bt_remove k m) = (map_of m)(k := None)"
  by (induction m) (auto simp: bt_remove_def fun_eq_iff)

lemma bt_ok_remove: "bt_ok m \<Longrightarrow> bt_ok (bt_remove k m)"
  by (induction m) (auto simp: bt_ok_def bt_remove_def)

interpretation bt: key_value map_of bt_insert bt_remove bt_ok
  by unfold_locales (auto simp: get_bt_insert get_bt_remove bt_ok_insert bt_ok_remove)

subsection \<open>The hash function\<close>

definition MURMUR_M :: u64 where "MURMUR_M = 0xc6a4a7935bd1e995"

definition utf8_bytes :: "string \<Rightarrow> 8 word list" where
  \<comment> \<open>\<^verbatim>\<open>as_bytes\<close>, for code points below 256\<close>
  "utf8_bytes s =
     concat (map (\<lambda>c. let n = of_char c :: nat in
       if n < 128 then [of_nat n] else [of_nat (192 + n div 64), of_nat (128 + n mod 64)]) s)"

definition from_le_bytes :: "8 word list \<Rightarrow> u64" where
  "from_le_bytes bs = foldr (\<lambda>b acc. push_bit 8 acc OR ucast b) bs 0"

definition mix_chunk :: "u64 \<Rightarrow> 8 word list \<Rightarrow> u64" where
  "mix_chunk h chunk =
     (let k = from_le_bytes chunk * MURMUR_M;
          k = (k XOR drop_bit 47 k) * MURMUR_M
      in (h XOR k) * MURMUR_M)"

fun mix_chunks :: "u64 \<Rightarrow> 8 word list \<Rightarrow> u64 \<times> 8 word list" where
  \<comment> \<open>the loop over \<^verbatim>\<open>chunks_exact(8)\<close>, with the remainder\<close>
  "mix_chunks h bs =
     (if length bs < 8 then (h, bs) else mix_chunks (mix_chunk h (take 8 bs)) (drop 8 bs))"

declare mix_chunks.simps [simp del]

definition mix_remainder :: "u64 \<Rightarrow> 8 word list \<Rightarrow> u64" where
  \<comment> \<open>the seven cases xor byte \<open>i\<close> shifted by \<open>8 * i\<close>, highest first, then multiply\<close>
  "mix_remainder h r =
     (if r = [] then h
      else fold (\<lambda>i h. h XOR push_bit (8 * i) (ucast (r ! i))) (rev [0..<length r]) h * MURMUR_M)"

definition murmur_hash_64a :: "8 word list \<Rightarrow> u32 \<Rightarrow> u64" where
  "murmur_hash_64a key seed =
     (let h0 = ucast seed XOR (of_nat (length key) * MURMUR_M);
          (h1, r) = mix_chunks h0 key;
          h2 = mix_remainder h1 r;
          h3 = (h2 XOR drop_bit 47 h2) * MURMUR_M
      in h3 XOR drop_bit 47 h3)"

definition ch_hash :: "string \<Rightarrow> u64" where
  "ch_hash key = murmur_hash_64a (utf8_bytes key) 4193360111"

subsection \<open>The ring\<close>

record consistent_hash_policy =
  hash_ring :: "(u64 \<times> string) list"
  current_workers :: "string list"

definition consistent_hash_new :: consistent_hash_policy where
  "consistent_hash_new = \<lparr>hash_ring = [], current_workers = []\<rparr>"

definition VIRTUAL_NODES_PER_WORKER :: nat where
  "VIRTUAL_NODES_PER_WORKER = 160"

definition virtual_points :: "string \<Rightarrow> (u64 \<times> string) list" where
  "virtual_points url =
     map (\<lambda>i. (ch_hash (url @ '':'' @ nat_to_dec i), url)) [0..<VIRTUAL_NODES_PER_WORKER]"

definition build_ring :: "string list \<Rightarrow> (u64 \<times> string) list" where
  "build_ring urls = fold (\<lambda>(h, url). bt_insert h url) (concat (map virtual_points urls)) []"

definition update_hash_ring :: "worker list \<Rightarrow> consistent_hash_policy \<Rightarrow> consistent_hash_policy" where
  "update_hash_ring ws p =
     (let urls = map w_url ws
      in if current_workers p = urls then p
         else p\<lparr>hash_ring := build_ring urls, current_workers := urls\<rparr>)"

definition ring_owner :: "(u64 \<times> string) list \<Rightarrow> u64 \<Rightarrow> string option" where
  \<comment> \<open>\<^verbatim>\<open>range(h..).next().or_else(|| iter().next())\<close>\<close>
  "ring_owner ring h =
     (case find (\<lambda>(k, _). h \<le> k) ring of
        Some (_, url) \<Rightarrow> Some url
      | None \<Rightarrow> (case ring of [] \<Rightarrow> None | (_, url) # _ \<Rightarrow> Some url))"

definition find_worker_by_hash :: "string \<Rightarrow> consistent_hash_policy \<Rightarrow> string option" where
  "find_worker_by_hash key p = (if hash_ring p = [] then None else ring_owner (hash_ring p) (ch_hash key))"

subsection \<open>The routing key\<close>

definition SESSION_HEADER_NAMES :: "string list" where
  "SESSION_HEADER_NAMES =
     [''x-session-id'', ''x-user-id'', ''x-tenant-id'', ''x-request-id'', ''x-correlation-id'', ''x-trace-id'']"

fun header_key :: "string list \<Rightarrow> request_headers \<Rightarrow> string option" where
  "header_key [] hdrs = None"
| "header_key (n # ns) hdrs =
     (case hm_get hdrs n of
        Some v \<Rightarrow> if v \<noteq> [] then Some (''header:'' @ n @ '':'' @ v) else header_key ns hdrs
      | None \<Rightarrow> header_key ns hdrs)"

definition extract_hash_key_from_headers :: "request_headers \<Rightarrow> string option" where
  "extract_hash_key_from_headers hdrs = header_key SESSION_HEADER_NAMES hdrs"

fun colon_after :: "nat \<Rightarrow> string \<Rightarrow> nat option" where
  \<comment> \<open>the position of a colon that only white space precedes\<close>
  "colon_after i [] = None"
| "colon_after i (c # cs) =
     (if c = CHR '':'' then Some i else if is_whitespace c then colon_after (Suc i) cs else None)"

fun find_field_start :: "string list \<Rightarrow> string \<Rightarrow> nat option" where
  \<comment> \<open>the loop over the patterns; positions count characters\<close>
  "find_field_start [] s = None"
| "find_field_start (p # ps) s =
     (case str_find p s of
        None \<Rightarrow> find_field_start ps s
      | Some pos \<Rightarrow>
          (case colon_after 0 (drop (pos + length p) s) of
             Some i \<Rightarrow> Some (pos + length p + i + 1)
           | None \<Rightarrow> find_field_start ps s))"

definition quoted :: "string \<Rightarrow> string" where
  "quoted name = CHR 0x22 # name @ [CHR 0x22]"

definition single_quoted :: "string \<Rightarrow> string" where
  "single_quoted name = CHR 0x27 # name @ [CHR 0x27]"

fun brace_scan :: "nat \<Rightarrow> int \<Rightarrow> string \<Rightarrow> int \<times> nat" where
  \<comment> \<open>the brace counter and the end position when the loop over the characters ends\<close>
  "brace_scan i n [] = (n, 0)"
| "brace_scan i n (c # cs) =
     (if c = CHR ''{'' then brace_scan (Suc i) (n + 1) cs
      else if c = CHR ''}'' then (if n - 1 = 0 then (0, Suc i) else brace_scan (Suc i) (n - 1) cs)
      else brace_scan (Suc i) n cs)"

definition extract_json_object :: "string \<Rightarrow> string option" where
  "extract_json_object s =
     (if take 1 s \<noteq> ''{'' then None
      else case brace_scan 0 0 s of
             (n, end_pos) \<Rightarrow> if n = 0 \<and> end_pos > 0 then Some (take end_pos s) else None)"

definition until :: "char \<Rightarrow> string \<Rightarrow> string option" where
  \<comment> \<open>the text before the first occurrence of a character, if it occurs\<close>
  "until q s = (if q \<in> set s then Some (takeWhile (\<lambda>c. c \<noteq> q) s) else None)"

definition value_after_colon :: "string \<Rightarrow> string option" where
  "value_after_colon s =
     (let t = trim_start s
      in if take 1 t = [CHR 0x22] then until (CHR 0x22) (drop 1 t)
         else if take 1 t = [CHR 0x27] then until (CHR 0x27) (drop 1 t)
         else
           let v = takeWhile (\<lambda>c. c \<notin> set [CHR '','', CHR '' '', CHR ''}'', CHR '']'', CHR 0x0A, CHR 0x0D, CHR 0x09]) t
           in if v \<noteq> [] then Some v else None)"

fun field_value :: "string list \<Rightarrow> string \<Rightarrow> string option" where
  "field_value [] s = None"
| "field_value (p # ps) s =
     (case str_find p s of
        None \<Rightarrow> field_value ps s
      | Some pos \<Rightarrow>
          let after = drop (pos + length p) s
          in case colon_after 0 after of
               None \<Rightarrow> field_value ps s
             | Some i \<Rightarrow>
                 (case value_after_colon (drop (i + 1) after) of
                    Some v \<Rightarrow> Some v
                  | None \<Rightarrow> field_value ps s))"

definition extract_field_value :: "string \<Rightarrow> string \<Rightarrow> string option" where
  "extract_field_value s name = field_value [quoted name, single_quoted name, name] s"

definition extract_nested_field_value :: "string \<Rightarrow> string \<Rightarrow> string \<Rightarrow> string option" where
  "extract_nested_field_value s parent child =
     (case find_field_start [quoted parent, single_quoted parent] s of
        None \<Rightarrow> None
      | Some start \<Rightarrow>
          (case str_find ''{'' (drop start s) of
             None \<Rightarrow> None
           | Some obj \<Rightarrow>
               (case extract_json_object (drop (start + obj) s) of
                  None \<Rightarrow> None
                | Some content \<Rightarrow> extract_field_value content child)))"

definition extract_hash_key_from_body :: "string option \<Rightarrow> string option" where
  "extract_hash_key_from_body req =
     (let s = (case req of Some t \<Rightarrow> t | None \<Rightarrow> [])
      in if s = [] then None
         else case extract_nested_field_value s ''session_params'' ''session_id'' of
                Some v \<Rightarrow> Some (''session:'' @ v)
              | None \<Rightarrow>
                  (case extract_field_value s ''user'' of
                     Some v \<Rightarrow> Some (''user:'' @ v)
                   | None \<Rightarrow>
                       (case extract_field_value s ''session_id'' of
                          Some v \<Rightarrow> Some (''session:'' @ v)
                        | None \<Rightarrow>
                            (case extract_field_value s ''user_id'' of
                               Some v \<Rightarrow> Some (''user:'' @ v)
                             | None \<Rightarrow> None))))"

definition hex_digit :: "nat \<Rightarrow> char" where
  "hex_digit d = (if d < 10 then char_of (48 + d) else char_of (87 + d))"

definition hex16 :: "u64 \<Rightarrow> string" where
  \<comment> \<open>\<^verbatim>\<open>{:016x}\<close>\<close>
  "hex16 w = map (\<lambda>i. hex_digit (unat w div 16 ^ i mod 16)) (rev [0..<16])"

definition extract_hash_key :: "string option \<Rightarrow> request_headers option \<Rightarrow> string" where
  "extract_hash_key req hdrs =
     (case Option.bind hdrs extract_hash_key_from_headers of
        Some k \<Rightarrow> k
      | None \<Rightarrow>
          (case extract_hash_key_from_body req of
             Some k \<Rightarrow> k
           | None \<Rightarrow>
               let s = (case req of Some t \<Rightarrow> t | None \<Rightarrow> [])
               in if str_len s > 100 then ''request_hash:'' @ hex16 (ch_hash s) else ''request:'' @ s))"

subsection \<open>Selection\<close>

definition worker_position :: "string \<Rightarrow> worker list \<Rightarrow> nat option" where
  "worker_position url ws = find (\<lambda>i. w_url (ws ! i) = url) [0..<length ws]"

definition consistent_hash_select ::
  "worker list \<Rightarrow> string option \<Rightarrow> request_headers option \<Rightarrow> consistent_hash_policy \<Rightarrow>
   nat option \<times> consistent_hash_policy" where
  "consistent_hash_select ws req hdrs p =
     (let healthy = get_healthy_worker_indices ws
      in if healthy = [] then (None, p)
         else
           let p' = update_hash_ring ws p;
               first = Some (healthy ! 0)
           in case find_worker_by_hash (extract_hash_key req hdrs) p' of
                None \<Rightarrow> (first, p')
              | Some url \<Rightarrow>
                  (case worker_position url ws of
                     None \<Rightarrow> (first, p')
                   | Some i \<Rightarrow> (if available (ws ! i) then Some i else first, p')))"

definition consistent_hash_select_pair ::
  "worker list \<Rightarrow> worker list \<Rightarrow> string option \<Rightarrow> request_headers option \<Rightarrow> consistent_hash_policy \<Rightarrow>
   (nat \<times> nat) option \<times> consistent_hash_policy" where
  \<comment> \<open>the override has the text of the trait's default\<close>
  "consistent_hash_select_pair = select_worker_pair consistent_hash_select"

definition consistent_hash_reset :: "consistent_hash_policy \<Rightarrow> consistent_hash_policy" where
  "consistent_hash_reset p = p\<lparr>hash_ring := [], current_workers := []\<rparr>"

subsection \<open>The owner of a hash value\<close>

lemma bt_keys: "bt_ok m \<Longrightarrow> (k, v) \<in> set m \<longleftrightarrow> map_of m k = Some v"
  by (simp add: bt_ok_def strict_sorted_iff)

lemma find_least:
  assumes "bt_ok m" and "map_of m k = Some v" and "h \<le> k"
    and "\<And>k'. map_of m k' \<noteq> None \<Longrightarrow> h \<le> k' \<Longrightarrow> k \<le> k'"
  shows "find (\<lambda>(k, _). h \<le> k) m = Some (k, v)"
  using assms
proof (induction m)
  case (Cons e m)
  obtain k1 v1 where e: "e = (k1, v1)" by (cases e)
  have m: "bt_ok m" and lt: "\<And>k' v'. (k', v') \<in> set m \<Longrightarrow> k1 < k'"
    using Cons.prems(1) by (auto simp: bt_ok_def e)
  show ?case
  proof (cases "h \<le> k1")
    case True
    then have "k \<le> k1" using Cons.prems(4) [of k1] by (simp add: e)
    moreover have "k = k1 \<or> (k, v) \<in> set m" using Cons.prems(2) by (auto simp: e split: if_splits dest: map_of_SomeD)
    ultimately have "k = k1" using lt [of k v] by auto
    with True Cons.prems(2) show ?thesis by (simp add: e)
  next
    case False
    with Cons.prems(3) have "k \<noteq> k1" by auto
    with Cons.prems(2) have "map_of m k = Some v" by (simp add: e)
    moreover have "k \<le> k'" if "map_of m k' \<noteq> None" "h \<le> k'" for k'
      using Cons.prems(4) [of k'] that False by (auto simp: e)
    ultimately show ?thesis using Cons.IH [OF m] Cons.prems(3) False by (simp add: e)
  qed
qed simp

lemma bt_first:
  assumes "bt_ok m" and "map_of m k = Some v" and "\<And>k'. map_of m k' \<noteq> None \<Longrightarrow> k \<le> k'"
  shows "\<exists>m'. m = (k, v) # m'"
proof (cases m)
  case (Cons e m')
  have "find (\<lambda>(k', _). k \<le> k') m = Some (k, v)" using assms by (intro find_least) auto
  moreover have "k \<le> fst e" using assms(3) [of "fst e"] Cons by (cases e) auto
  ultimately show ?thesis using Cons by (cases e) auto
qed (use assms(2) in simp)

lemma find_NoneD_keys: "bt_ok m \<Longrightarrow> find (\<lambda>(k, _). h \<le> k) m = None \<Longrightarrow> map_of m k \<noteq> None \<Longrightarrow> k < h"
  by (auto simp: find_None_iff bt_keys [symmetric] not_le)

lemma owner_entry:
  \<comment> \<open>the entry that decides: the least key from \<open>h\<close> on, or the least key at all\<close>
  assumes "bt_ok m" and "ring_owner m h = Some v"
  shows "\<exists>k. map_of m k = Some v \<and>
    ((h \<le> k \<and> (\<forall>k'. map_of m k' \<noteq> None \<longrightarrow> h \<le> k' \<longrightarrow> k \<le> k')) \<or>
     ((\<forall>k'. map_of m k' \<noteq> None \<longrightarrow> k' < h) \<and> (\<forall>k'. map_of m k' \<noteq> None \<longrightarrow> k \<le> k')))"
proof (cases "find (\<lambda>(k, _). h \<le> k) m")
  case None
  with assms(2) obtain k m' where m: "m = (k, v) # m'"
    by (auto simp: ring_owner_def split: list.splits)
  have "k \<le> k'" if "map_of m k' \<noteq> None" for k'
    using that assms(1) by (fastforce simp: m bt_ok_def split: if_splits dest!: map_of_SomeD)
  with find_NoneD_keys [OF assms(1) None] show ?thesis by (intro exI [of _ k]) (auto simp: m)
next
  case (Some e)
  obtain k where e: "e = (k, v)" using Some assms(2) by (cases e) (simp add: ring_owner_def)
  from find_Some_split [OF Some [unfolded e]] obtain ys zs where
    m: "m = ys @ (k, v) # zs" and hk: "h \<le> k" and ys: "\<forall>y \<in> set ys. \<not> h \<le> fst y"
    by (auto simp: case_prod_unfold)
  have "k \<le> k'" if in_m: "map_of m k' \<noteq> None" and ge: "h \<le> k'" for k'
  proof -
    obtain v' where "map_of m k' = Some v'" using in_m by blast
    then have "(k', v') \<in> set m" by (rule map_of_SomeD)
    then show ?thesis using assms(1) ys ge by (fastforce simp: m bt_ok_def sorted_wrt_append)
  qed
  moreover have "map_of m k = Some v" using bt_keys [OF assms(1), of k v] by (simp add: m)
  ultimately show ?thesis using hk by blast
qed

lemma owner_of_entry:
  assumes "bt_ok m" and "map_of m k = Some v"
    and "(h \<le> k \<and> (\<forall>k'. map_of m k' \<noteq> None \<longrightarrow> h \<le> k' \<longrightarrow> k \<le> k')) \<or>
     ((\<forall>k'. map_of m k' \<noteq> None \<longrightarrow> k' < h) \<and> (\<forall>k'. map_of m k' \<noteq> None \<longrightarrow> k \<le> k'))"
  shows "ring_owner m h = Some v"
  using assms(3)
proof
  assume "h \<le> k \<and> (\<forall>k'. map_of m k' \<noteq> None \<longrightarrow> h \<le> k' \<longrightarrow> k \<le> k')"
  with assms(1,2) have "find (\<lambda>(k, _). h \<le> k) m = Some (k, v)" by (intro find_least) auto
  then show ?thesis by (simp add: ring_owner_def)
next
  assume *: "(\<forall>k'. map_of m k' \<noteq> None \<longrightarrow> k' < h) \<and> (\<forall>k'. map_of m k' \<noteq> None \<longrightarrow> k \<le> k')"
  then have "find (\<lambda>(k, _). h \<le> k) m = None"
    using assms(1) by (force simp: find_None_iff bt_keys)
  moreover obtain m' where "m = (k, v) # m'" using bt_first [OF assms(1,2)] * by blast
  ultimately show ?thesis by (simp add: ring_owner_def)
qed

subsection \<open>The ring of a list of workers\<close>

lemma build_ring_fold:
  "build_ring urls = fold (\<lambda>x. bt_insert (fst x) (snd x)) (concat (map virtual_points urls)) []"
  by (simp add: build_ring_def case_prod_unfold)

lemma bt_ok_build: "bt_ok (build_ring urls)"
  unfolding build_ring_fold by (rule bt.ok_fold_put) (simp add: bt_ok_def)

lemma get_build:
  "map_of (build_ring urls) k = map_option snd (find (\<lambda>x. fst x = k) (rev (concat (map virtual_points urls))))"
  unfolding build_ring_fold
  by (subst bt.get_fold_put) (auto simp: bt_ok_def split: option.split)

lemma get_build_None:
  "map_of (build_ring urls) k = None \<longleftrightarrow> k \<notin> fst ` set (concat (map virtual_points urls))"
  unfolding get_build option.map_disc_iff find_None_iff by (simp only: set_rev) blast

lemma points_remove:
  "concat (map virtual_points (removeAll u urls)) =
     filter (\<lambda>x. snd x \<noteq> u) (concat (map virtual_points urls))"
  by (induction urls) (auto simp: virtual_points_def filter_empty_conv)

lemma find_filter: "find P xs = Some x \<Longrightarrow> Q x \<Longrightarrow> find P (filter Q xs) = Some x"
  by (induction xs) (auto split: if_splits)

lemma build_remove:
  assumes "map_of (build_ring urls) k = Some v" and "v \<noteq> u"
  shows "map_of (build_ring (removeAll u urls)) k = Some v"
proof -
  let ?pts = "rev (concat (map virtual_points urls))"
  obtain x where x: "find (\<lambda>x. fst x = k) ?pts = Some x" "snd x = v"
    using assms(1) by (auto simp: get_build)
  with assms(2) have "find (\<lambda>x. fst x = k) (filter (\<lambda>x. snd x \<noteq> u) ?pts) = Some x"
    by (intro find_filter) auto
  with x show ?thesis by (simp add: get_build points_remove rev_filter [symmetric])
qed

lemma build_remove_keys:
  "map_of (build_ring (removeAll u urls)) k \<noteq> None \<Longrightarrow> map_of (build_ring urls) k \<noteq> None"
  unfolding get_build_None points_remove by auto

lemma owner_in_workers: "ring_owner (build_ring urls) h = Some v \<Longrightarrow> v \<in> set urls"
proof -
  assume "ring_owner (build_ring urls) h = Some v"
  then obtain k where "map_of (build_ring urls) k = Some v" using owner_entry [OF bt_ok_build] by blast
  then show ?thesis by (auto simp: get_build virtual_points_def dest!: find_SomeD)
qed

lemma build_ring_nonempty: "urls \<noteq> [] \<Longrightarrow> build_ring urls \<noteq> []"
proof -
  assume "urls \<noteq> []"
  then obtain u us where urls: "urls = u # us" by (cases urls) auto
  have "(ch_hash (u @ '':'' @ nat_to_dec 0), u) \<in> set (concat (map virtual_points urls))"
    by (simp add: urls virtual_points_def VIRTUAL_NODES_PER_WORKER_def)
  then have "map_of (build_ring urls) (ch_hash (u @ '':'' @ nat_to_dec 0)) \<noteq> None"
    unfolding get_build_None by (metis fst_conv image_eqI)
  then show ?thesis by auto
qed

lemma owner_exists: "ring \<noteq> [] \<Longrightarrow> \<exists>v. ring_owner ring h = Some v"
  by (cases ring) (auto simp: ring_owner_def split: option.split)

text \<open>
  C10. Removing a worker moves only its own keys: every hash value that another worker
  owned stays with it, even when virtual nodes of different workers collide. Read
  backwards, adding a worker moves keys to that worker only.
\<close>

theorem ring_minimal_disruption:
  assumes "ring_owner (build_ring urls) h = Some v" and "v \<noteq> u"
  shows "ring_owner (build_ring (removeAll u urls)) h = Some v"
proof -
  obtain k where k: "map_of (build_ring urls) k = Some v"
    and least: "(h \<le> k \<and> (\<forall>k'. map_of (build_ring urls) k' \<noteq> None \<longrightarrow> h \<le> k' \<longrightarrow> k \<le> k')) \<or>
     ((\<forall>k'. map_of (build_ring urls) k' \<noteq> None \<longrightarrow> k' < h) \<and>
      (\<forall>k'. map_of (build_ring urls) k' \<noteq> None \<longrightarrow> k \<le> k'))"
    using owner_entry [OF bt_ok_build assms(1)] by blast
  show ?thesis
    using least build_remove_keys [of u urls]
    by (intro owner_of_entry [OF bt_ok_build build_remove [OF k assms(2)]]) blast
qed

theorem ring_minimal_disruption_witness:
  "\<exists>v u. v \<noteq> u \<and> ring_owner (build_ring [''a'', ''b'']) 0 = Some v \<and>
     ring_owner (build_ring (removeAll u [''a'', ''b''])) 0 = Some v"
proof -
  obtain v where v: "ring_owner (build_ring [''a'', ''b'']) 0 = Some v"
    using owner_exists [OF build_ring_nonempty] by blast
  then have "v \<in> {''a'', ''b''}" using owner_in_workers by fastforce
  define u where "u = (if v = ''a'' then ''b'' else ''a'')"
  have "v \<noteq> u" using \<open>v \<in> _\<close> by (auto simp: u_def)
  with ring_minimal_disruption [OF v this] v show ?thesis by blast
qed

subsection \<open>Selection\<close>

definition ring_ok :: "consistent_hash_policy \<Rightarrow> bool" where
  "ring_ok p \<longleftrightarrow> hash_ring p = build_ring (current_workers p)"

lemma ring_ok_new: "ring_ok consistent_hash_new"
  by (simp add: ring_ok_def consistent_hash_new_def build_ring_def)

lemma ring_ok_reset: "ring_ok (consistent_hash_reset p)"
  by (simp add: ring_ok_def consistent_hash_reset_def build_ring_def)

lemma update_ring: "ring_ok p \<Longrightarrow> hash_ring (update_hash_ring ws p) = build_ring (map w_url ws)"
  by (auto simp: update_hash_ring_def ring_ok_def Let_def)

lemma ring_ok_update: "ring_ok p \<Longrightarrow> ring_ok (update_hash_ring ws p)"
  by (auto simp: update_hash_ring_def ring_ok_def Let_def)

lemma worker_position_Some:
  "worker_position url ws = Some i \<Longrightarrow> i < length ws \<and> w_url (ws ! i) = url"
  unfolding worker_position_def by (drule find_SomeD) auto

lemma worker_position_exists: "url \<in> w_url ` set ws \<Longrightarrow> \<exists>i. worker_position url ws = Some i"
proof -
  assume "url \<in> w_url ` set ws"
  then obtain i where "i < length ws" "w_url (ws ! i) = url" by (auto simp: in_set_conv_nth)
  then have "worker_position url ws \<noteq> None" unfolding worker_position_def find_None_iff by auto
  then show ?thesis by auto
qed

lemma consistent_hash_result:
  assumes "ring_ok p" and "get_healthy_worker_indices ws \<noteq> []"
  shows "\<exists>url i. ring_owner (build_ring (map w_url ws)) (ch_hash (extract_hash_key req hdrs)) = Some url \<and>
    worker_position url ws = Some i \<and>
    consistent_hash_select ws req hdrs p =
      (Some (if available (ws ! i) then i else hd (get_healthy_worker_indices ws)), update_hash_ring ws p)"
proof -
  have "map w_url ws \<noteq> []" using assms(2) by (auto simp: get_healthy_worker_indices_def)
  then have ne: "build_ring (map w_url ws) \<noteq> []" by (rule build_ring_nonempty)
  then obtain url where url: "ring_owner (build_ring (map w_url ws)) (ch_hash (extract_hash_key req hdrs)) = Some url"
    using owner_exists by blast
  then obtain i where "worker_position url ws = Some i"
    using owner_in_workers worker_position_exists by fastforce
  with url ne assms show ?thesis
    by (auto simp: consistent_hash_select_def find_worker_by_hash_def update_ring Let_def hd_conv_nth)
qed

interpretation ch: lb_policy consistent_hash_select ring_ok
proof unfold_locales
  fix p ws req hdrs assume p: "ring_ok p"
  show "fst (consistent_hash_select ws req hdrs p) = None \<longleftrightarrow> (\<forall>w \<in> set ws. \<not> available w)"
    using consistent_hash_result [OF p, of ws req hdrs]
    by (cases "get_healthy_worker_indices ws = []")
      (auto simp: consistent_hash_select_def healthy_indices_Nil [symmetric])
  show "ring_ok (snd (consistent_hash_select ws req hdrs p))"
    using p consistent_hash_result [OF p, of ws req hdrs] ring_ok_update [OF p]
    by (cases "get_healthy_worker_indices ws = []") (auto simp: consistent_hash_select_def)
  show "i < length ws \<and> available (ws ! i)" if "fst (consistent_hash_select ws req hdrs p) = Some i" for i
  proof (cases "get_healthy_worker_indices ws = []")
    case True
    with that show ?thesis by (simp add: consistent_hash_select_def)
  next
    case False
    with that consistent_hash_result [OF p False, of req hdrs] nth_healthy [of 0 ws]
    show ?thesis by (auto simp: hd_conv_nth dest: worker_position_Some split: if_splits)
  qed
qed

text \<open>
  C11. Affinity: whatever requests were routed before, a request goes to the first worker
  with the URL that owns the hash of its key on the ring of the current URLs, as long as
  that worker is available, and to the first available worker otherwise; the fallbacks
  for an empty ring and an unknown owner are never taken. So the choice depends only on
  the key, the list of URLs and the availability of the workers.
\<close>

theorem consistent_hash_affinity:
  assumes "ring_ok p" and "\<exists>w \<in> set ws. available w"
  shows "\<exists>url i. ring_owner (build_ring (map w_url ws)) (ch_hash (extract_hash_key req hdrs)) = Some url \<and>
    i < length ws \<and> w_url (ws ! i) = url \<and> (\<forall>j < i. w_url (ws ! j) \<noteq> url) \<and>
    fst (consistent_hash_select ws req hdrs p) =
      Some (if available (ws ! i) then i else hd (get_healthy_worker_indices ws)) \<and>
    ring_ok (snd (consistent_hash_select ws req hdrs p))"
proof -
  have ne: "get_healthy_worker_indices ws \<noteq> []" using assms(2) by (auto simp: healthy_indices_Nil)
  from consistent_hash_result [OF assms(1) ne, of req hdrs] obtain url i where
    r: "ring_owner (build_ring (map w_url ws)) (ch_hash (extract_hash_key req hdrs)) = Some url"
      "worker_position url ws = Some i"
      "consistent_hash_select ws req hdrs p =
        (Some (if available (ws ! i) then i else hd (get_healthy_worker_indices ws)), update_hash_ring ws p)"
    by blast
  have "\<forall>j < i. w_url (ws ! j) \<noteq> url"
    using r(2) by (auto simp: worker_position_def find_Some_iff)
  with r worker_position_Some [OF r(2)] ring_ok_update [OF assms(1)] show ?thesis by auto
qed

theorem consistent_hash_affinity_witness:
  "\<exists>i < 3. fst (consistent_hash_select demo_workers (Some ''hello'') None consistent_hash_new) = Some i"
proof -
  have av: "\<exists>w \<in> set demo_workers. available w"
    by (simp add: available_def basic_worker_new_def basic_worker_with_model_def)
  have h: "get_healthy_worker_indices demo_workers = [0, 2]"
    by (simp add: get_healthy_worker_indices_def available_def basic_worker_new_def
          basic_worker_with_model_def set_healthy_def)
  from consistent_hash_affinity [OF ring_ok_new av, of "Some ''hello''" None] obtain i where
    "i < length demo_workers"
    "fst (consistent_hash_select demo_workers (Some ''hello'') None consistent_hash_new) =
      Some (if available (demo_workers ! i) then i else hd (get_healthy_worker_indices demo_workers))"
    by blast
  then show ?thesis unfolding h by auto
qed

text \<open>Header names are compared exactly: a header in another case is not seen.\<close>

lemma header_case_sensitive: "extract_hash_key_from_headers [(''X-Session-Id'', v)] = None"
  by (simp add: extract_hash_key_from_headers_def SESSION_HEADER_NAMES_def)

text \<open>
  Prefill-decode pairs: with consistent hashing, after any history and also after a
  reset, a pair is found exactly when both lists have an available worker, and both
  members of the pair are available.
\<close>

theorem consistent_hash_pair:
  assumes "ring_ok p" and "q \<in> {p, consistent_hash_reset p}"
  shows "(fst (consistent_hash_select_pair prefill decode req hdrs q) = None \<longleftrightarrow>
      (\<forall>w \<in> set prefill. \<not> available w) \<or> (\<forall>w \<in> set decode. \<not> available w)) \<and>
    (\<forall>i j. fst (consistent_hash_select_pair prefill decode req hdrs q) = Some (i, j) \<longrightarrow>
      i < length prefill \<and> available (prefill ! i) \<and> j < length decode \<and> available (decode ! j))"
proof -
  have "ring_ok q" using assms ring_ok_reset by blast
  then show ?thesis
    unfolding consistent_hash_select_pair_def using ch.pair_None ch.pair_Some by blast
qed

end
