(* ===== verification/RadixTree.thy ===== *)
theory RadixTree
  imports RustStr "HOL-Library.Sublist"
begin

text \<open>
  The multi-tenant radix tree of \<^verbatim>\<open>policies/tree.rs\<close>, in which the cache-aware policy keeps
  the history of requests: which worker (tenant) has seen which text.

  A node is a value: its text, the access times of its tenants, its children by the first
  character of their text. The \<^verbatim>\<open>parent\<close> pointer of a node is the node that encloses it, and a
  reference to a node is the list of the characters that lead to it from the root. The locks
  are taken one operation at a time. A tenant holds a string when every node on the way down
  carries the tenant: \<open>holds\<close> is the abstraction under which \<^verbatim>\<open>insert\<close> adds the prefixes of a
  text, \<^verbatim>\<open>prefix_match\<close> finds the longest string held by anyone, \<^verbatim>\<open>remove_tenant\<close> forgets one
  tenant, and \<^verbatim>\<open>tenant_char_count\<close> is the number of non-empty strings a tenant holds.
\<close>

subsection \<open>Nodes and character utilities\<close>

type_synonym access_times = "(string, nat) hash_map"

datatype rnode =
  RNode (rn_text: string) (rn_times: access_times) (rn_children: "(char \<times> rnode) list")

record tree =
  t_root :: rnode
  tenant_char_count :: "(string, nat) hash_map"

fun shared_prefix_count :: "string \<Rightarrow> string \<Rightarrow> nat" where
  "shared_prefix_count (a # as) (b # bs) = (if a = b then Suc (shared_prefix_count as bs) else 0)"
| "shared_prefix_count _ _ = 0"

definition slice_by_chars :: "string \<Rightarrow> nat \<Rightarrow> nat \<Rightarrow> string" where
  "slice_by_chars s start stop = take (stop - start) (drop start s)"

definition tree_new :: tree where
  "tree_new = \<lparr>t_root = RNode [] [] [], tenant_char_count = []\<rparr>"

definition touch :: "string \<Rightarrow> nat \<Rightarrow> rnode \<Rightarrow> rnode" where
  \<comment> \<open>\<^verbatim>\<open>access_times.insert(tenant, timestamp)\<close>\<close>
  "touch tenant ts n = RNode (rn_text n) (hm_insert tenant ts (rn_times n)) (rn_children n)"

definition set_child :: "char \<Rightarrow> rnode \<Rightarrow> rnode \<Rightarrow> rnode" where
  "set_child c m n = RNode (rn_text n) (rn_times n) (hm_insert c m (rn_children n))"

definition has_tenant :: "string \<Rightarrow> rnode \<Rightarrow> bool" where
  "has_tenant t n = (hm_get (rn_times n) t \<noteq> None)"

definition credit :: "string \<Rightarrow> nat \<Rightarrow> (string, nat) hash_map \<Rightarrow> (string, nat) hash_map" where
  \<comment> \<open>\<^verbatim>\<open>counts.entry(tenant).and_modify(+= n).or_insert(n)\<close>\<close>
  "credit t n counts = hm_entry t (\<lambda>c. c + n) n counts"

definition split_node :: "nat \<Rightarrow> rnode \<Rightarrow> rnode" where
  \<comment> \<open>the new upper node: the shared text, the tenants of the node, the node below it\<close>
  "split_node k m =
     (let matched = slice_by_chars (rn_text m) 0 k;
          contracted = slice_by_chars (rn_text m) k (length (rn_text m))
      in RNode matched (rn_times m)
           [(hd contracted, RNode contracted (rn_times m) (rn_children m))])"

fun rsize :: "rnode \<Rightarrow> nat" where
  "rsize (RNode t a cs) = Suc (sum_list (map (\<lambda>(c, n). rsize n) cs))"

lemma rsize_child: "hm_get cs c = Some m \<Longrightarrow> rsize m < rsize (RNode t a cs)"
proof -
  assume "hm_get cs c = Some m"
  then have "(c, m) \<in> set cs" by (rule map_of_SomeD)
  then have "rsize m \<in> set (map (\<lambda>(c, n). rsize n) cs)" by force
  then have "rsize m \<le> sum_list (map (\<lambda>(c, n). rsize n) cs)" by (rule member_le_sum_list) simp
  then show ?thesis by simp
qed

lemma rsize_child': "hm_get (rn_children n) c = Some m \<Longrightarrow> rsize m < rsize n"
  by (cases n) (simp add: rsize_child del: rsize.simps)

lemma rsize_pos [simp]: "0 < rsize n"
  by (cases n) simp

lemma rsize_touch [simp]: "rsize (touch t ts n) = rsize n"
  by (cases n) (simp add: touch_def)

lemma rn_touch [simp]:
  "rn_text (touch t ts n) = rn_text n" "rn_children (touch t ts n) = rn_children n"
  "rn_times (touch t ts n) = hm_insert t ts (rn_times n)"
  by (simp_all add: touch_def)

lemma rn_set_child [simp]:
  "rn_text (set_child c m n) = rn_text n" "rn_times (set_child c m n) = rn_times n"
  "rn_children (set_child c m n) = hm_insert c m (rn_children n)"
  by (simp_all add: set_child_def)

lemma shared_prefix_count_le:
  "shared_prefix_count a b \<le> length a" "shared_prefix_count a b \<le> length b"
  by (induction a b rule: shared_prefix_count.induct) auto

lemma shared_prefix_take:
  "take (shared_prefix_count a b) a = take (shared_prefix_count a b) b"
  by (induction a b rule: shared_prefix_count.induct) auto

lemma shared_prefix_differ:
  "shared_prefix_count a b < length a \<Longrightarrow> shared_prefix_count a b < length b \<Longrightarrow>
   a ! shared_prefix_count a b \<noteq> b ! shared_prefix_count a b"
  by (induction a b rule: shared_prefix_count.induct) auto

lemma shared_prefix_pos: "a \<noteq> [] \<Longrightarrow> b \<noteq> [] \<Longrightarrow> hd a = hd b \<Longrightarrow> 0 < shared_prefix_count a b"
  by (cases a; cases b) auto

lemma slice_simps [simp]:
  "slice_by_chars s k (length s) = drop k s" "slice_by_chars s 0 k = take k s"
  by (simp_all add: slice_by_chars_def)

lemma hd_drop_text: "k < length s \<Longrightarrow> hd (drop k s) = s ! k"
  by (simp add: hd_drop_conv_nth)

subsection \<open>Insertion\<close>

function ins :: "string \<Rightarrow> nat \<Rightarrow> string \<Rightarrow> rnode \<Rightarrow> (string, nat) hash_map \<Rightarrow>
    rnode \<times> (string, nat) hash_map" where
  \<comment> \<open>the loop of \<^verbatim>\<open>insert\<close> from the node \<open>prev\<close> with the text that remains\<close>
  "ins tenant ts rest prev counts =
     (case rest of
        [] \<Rightarrow> (prev, counts)
      | first_char # _ \<Rightarrow>
          (case hm_get (rn_children prev) first_char of
             None \<Rightarrow>
               (set_child first_char (RNode rest [(tenant, ts)] []) prev,
                credit tenant (length rest) counts)
           | Some matched \<Rightarrow>
               let shared = shared_prefix_count (rn_text matched) rest;
                   nxt = (if shared < length (rn_text matched) then split_node shared matched else matched);
                   counts1 = (if has_tenant tenant nxt then counts
                              else credit tenant (length (rn_text nxt)) counts);
                   (below, counts2) = ins tenant ts (drop shared rest) (touch tenant ts nxt) counts1
               in (set_child first_char below prev, counts2)))"
  by pat_completeness auto

termination
proof (relation "measures [\<lambda>(_, _, rest, _, _). length rest,
    \<lambda>(_, _, rest, prev, _). if hm_get (rn_children prev) (hd rest) = None then 0 else rsize prev]",
    goal_cases)
  case (2 tenant ts rest prev counts c cs matched shared nxt counts1)
  show ?case
  proof (cases "shared = 0")
    case False
    then show ?thesis using 2 by simp
  next
    case True
    show ?thesis
    proof (cases "rn_text matched")
      case Nil
      then show ?thesis using 2 True by (auto dest: rsize_child' simp: rsize_child')
    next
      case (Cons a as)
      then have "a \<noteq> c" using 2 True by (auto split: if_splits)
      then show ?thesis using 2 True Cons by (auto simp: split_node_def rsize_child' intro: gr_zeroI)
    qed
  qed
qed simp

declare ins.simps [simp del]

definition tree_insert :: "nat \<Rightarrow> string \<Rightarrow> string \<Rightarrow> tree \<Rightarrow> tree" where
  "tree_insert ts text1 tenant t =
     (let (root, counts) =
        ins tenant ts text1 (touch tenant ts (t_root t))
          (hm_entry tenant (\<lambda>c. c) 0 (tenant_char_count t))
      in \<lparr>t_root = root, tenant_char_count = counts\<rparr>)"

subsection \<open>Prefix matching\<close>

fun max_by_key :: "('a \<Rightarrow> 'k::linorder) \<Rightarrow> 'a list \<Rightarrow> 'a option" where
  \<comment> \<open>\<^verbatim>\<open>Iterator::max_by_key\<close>: the last of the greatest\<close>
  "max_by_key f [] = None"
| "max_by_key f (x # xs) =
     (case max_by_key f xs of None \<Rightarrow> Some x | Some y \<Rightarrow> Some (if f y < f x then x else y))"

fun min_by_key :: "('a \<Rightarrow> 'k::linorder) \<Rightarrow> 'a list \<Rightarrow> 'a option" where
  \<comment> \<open>\<^verbatim>\<open>Iterator::min_by_key\<close>: the first of the least\<close>
  "min_by_key f [] = None"
| "min_by_key f (x # xs) =
     (case min_by_key f xs of None \<Rightarrow> Some x | Some y \<Rightarrow> Some (if f x \<le> f y then x else y))"

type_synonym node_ref = "char list"

fun node_at :: "node_ref \<Rightarrow> rnode \<Rightarrow> rnode option" where
  "node_at [] n = Some n"
| "node_at (c # p) n = Option.bind (hm_get (rn_children n) c) (node_at p)"

fun modify_at :: "node_ref \<Rightarrow> (rnode \<Rightarrow> rnode) \<Rightarrow> rnode \<Rightarrow> rnode" where
  "modify_at [] f n = f n"
| "modify_at (c # p) f n =
     (case hm_get (rn_children n) c of None \<Rightarrow> n | Some m \<Rightarrow> set_child c (modify_at p f m) n)"

function walk :: "rnode \<Rightarrow> string \<Rightarrow> nat \<times> node_ref" where
  \<comment> \<open>the loop of \<^verbatim>\<open>prefix_match\<close> from a node: how many characters match, and where it stops\<close>
  "walk prev rest =
     (case rest of
        [] \<Rightarrow> (0, [])
      | first_char # _ \<Rightarrow>
          (case hm_get (rn_children prev) first_char of
             None \<Rightarrow> (0, [])
           | Some matched \<Rightarrow>
               let shared = shared_prefix_count (rn_text matched) rest
               in if shared = length (rn_text matched)
                  then let (i, p) = walk matched (drop shared rest) in (shared + i, first_char # p)
                  else (shared, [first_char])))"
  by pat_completeness auto
termination by (relation "measure (\<lambda>(n, _). rsize n)") (auto intro: rsize_child')

declare walk.simps [simp del]

definition most_recent :: "access_times \<Rightarrow> string" where
  "most_recent ats = (case max_by_key snd ats of Some (t, _) \<Rightarrow> t | None \<Rightarrow> ''empty'')"

fun touch_path :: "string \<Rightarrow> nat \<Rightarrow> node_ref \<Rightarrow> rnode \<Rightarrow> rnode" where
  \<comment> \<open>the walk up the parents from the matched node, seen from the root\<close>
  "touch_path t ts [] n = touch t ts n"
| "touch_path t ts (c # p) n =
     touch t ts
       (case hm_get (rn_children n) c of None \<Rightarrow> n | Some m \<Rightarrow> set_child c (touch_path t ts p m) n)"

definition tree_prefix_match :: "nat \<Rightarrow> string \<Rightarrow> tree \<Rightarrow> (string \<times> string) \<times> tree" where
  "tree_prefix_match ts text1 t =
     (let (idx, path) = walk (t_root t) text1;
          tenant = (case node_at path (t_root t) of Some n \<Rightarrow> most_recent (rn_times n) | None \<Rightarrow> ''empty'');
          root = (if tenant \<noteq> ''empty'' then touch_path tenant ts path (t_root t) else t_root t)
      in ((slice_by_chars text1 0 idx, tenant), t\<lparr>t_root := root\<rparr>))"

subsection \<open>Eviction and removal\<close>

definition leaf_of :: "rnode \<Rightarrow> string list" where
  "leaf_of n =
     (let candidates = map (\<lambda>t. (t, True)) (hm_keys (rn_times n));
          marked = fold (\<lambda>m. fold (\<lambda>t. hm_insert t False) (hm_keys (rn_times m)))
                     (hm_values (rn_children n)) candidates
      in map fst (filter snd marked))"

fun visit :: "rnode \<Rightarrow> (node_ref \<times> rnode) list" where
  \<comment> \<open>the nodes in the order in which the stack of the collecting loops pops them\<close>
  "visit (RNode t a cs) =
     ([], RNode t a cs) # concat (map (\<lambda>(c, m). map (\<lambda>(p, k). (c # p, k)) (visit m)) (rev cs))"

type_synonym eviction_entry = "nat \<times> string \<times> node_ref"  \<comment> \<open>timestamp, tenant, node\<close>

definition evict_entries :: "rnode \<Rightarrow> eviction_entry list" where
  "evict_entries root =
     concat (map (\<lambda>(p, n).
       List.map_filter (\<lambda>t. map_option (\<lambda>ts. (ts, t, p)) (hm_get (rn_times n) t)) (leaf_of n))
       (visit root))"

definition drop_tenant :: "string \<Rightarrow> rnode \<Rightarrow> rnode" where
  "drop_tenant t n = RNode (rn_text n) (hm_remove t (rn_times n)) (rn_children n)"

definition drop_child :: "char \<Rightarrow> rnode \<Rightarrow> rnode" where
  "drop_child c n = RNode (rn_text n) (rn_times n) (hm_remove c (rn_children n))"

definition prune_at :: "node_ref \<Rightarrow> rnode \<Rightarrow> rnode" where
  \<comment> \<open>an empty node leaves the children of its parent\<close>
  "prune_at p root =
     (case node_at p root of
        Some n \<Rightarrow>
          if rn_children n = [] \<and> rn_times n = [] \<and> p \<noteq> []
          then (case rn_text n of [] \<Rightarrow> root | c # _ \<Rightarrow> modify_at (butlast p) (drop_child c) root)
          else root
      | None \<Rightarrow> root)"

definition parent_becomes_leaf :: "string \<Rightarrow> node_ref \<Rightarrow> rnode \<Rightarrow> nat option" where
  \<comment> \<open>the access time of the tenant at the parent, when the parent is now a leaf of it\<close>
  "parent_becomes_leaf t p root =
     (if p = [] then None
      else case node_at (butlast p) root of
             None \<Rightarrow> None
           | Some n \<Rightarrow> if t \<in> set (leaf_of n) then hm_get (rn_times n) t else None)"

definition debit :: "string \<Rightarrow> nat \<Rightarrow> (string, nat) hash_map \<Rightarrow> (string, nat) hash_map" where
  "debit t n counts = hm_modify t (\<lambda>c. c - n) counts"

function evict_loop :: "nat \<Rightarrow> eviction_entry list \<Rightarrow> tree \<Rightarrow> tree" where
  "evict_loop max_size pq t =
     (case min_by_key fst pq of
        None \<Rightarrow> t
      | Some (ts, tenant, p) \<Rightarrow>
          let pq1 = remove1 (ts, tenant, p) pq;
              used_size = (case hm_get (tenant_char_count t) tenant of Some c \<Rightarrow> c | None \<Rightarrow> 0)
          in if used_size \<le> max_size then evict_loop max_size pq1 t
             else
               let counts = (case node_at p (t_root t) of
                               Some n \<Rightarrow> if has_tenant tenant n
                                 then debit tenant (length (rn_text n)) (tenant_char_count t)
                                 else tenant_char_count t
                             | None \<Rightarrow> tenant_char_count t);
                   root = prune_at p (modify_at p (drop_tenant tenant) (t_root t));
                   pq2 = (case parent_becomes_leaf tenant p root of
                            Some ts' \<Rightarrow> pq1 @ [(ts', tenant, butlast p)] | None \<Rightarrow> pq1)
               in evict_loop max_size pq2 \<lparr>t_root = root, tenant_char_count = counts\<rparr>)"
  by pat_completeness auto

lemma min_by_key_in: "min_by_key f xs = Some x \<Longrightarrow> x \<in> set xs"
  by (induction xs arbitrary: x) (auto split: option.splits if_splits)

lemma max_by_key_in: "max_by_key f xs = Some x \<Longrightarrow> x \<in> set xs"
  by (induction xs arbitrary: x) (auto split: option.splits if_splits)

lemma min_by_key_None [simp]: "min_by_key f xs = None \<longleftrightarrow> xs = []"
  by (cases xs) (auto split: option.split)

lemma max_by_key_None [simp]: "max_by_key f xs = None \<longleftrightarrow> xs = []"
  by (cases xs) (auto split: option.split)

definition pq_weight :: "eviction_entry list \<Rightarrow> nat" where
  "pq_weight pq = sum_list (map (\<lambda>(_, _, p). Suc (length p)) pq)"

lemma pq_weight_remove1: "(ts, t, p) \<in> set pq \<Longrightarrow> pq_weight pq = Suc (length p) + pq_weight (remove1 (ts, t, p) pq)"
  by (induction pq) (auto simp: pq_weight_def)

termination evict_loop
proof (relation "measure (\<lambda>(_, pq, _). pq_weight pq)", goal_cases)
  case (2 max_size pq t a ts b tenant p pq1 used_size)
  then show ?case using pq_weight_remove1 [OF min_by_key_in, of fst pq ts tenant p] by simp
next
  case (3 max_size pq t a ts b tenant p pq1 used_size counts root pq2)
  then have "pq_weight pq = Suc (length p) + pq_weight pq1"
    using pq_weight_remove1 [OF min_by_key_in, of fst pq ts tenant p] by simp
  moreover have "pq_weight pq2 \<le> length p + pq_weight pq1"
    using 3 by (auto simp: pq_weight_def parent_becomes_leaf_def split: option.splits if_splits)
  ultimately show ?case by simp
qed simp

declare evict_loop.simps [simp del]

definition evict_tenant_by_size :: "nat \<Rightarrow> tree \<Rightarrow> tree" where
  "evict_tenant_by_size max_size t = evict_loop max_size (evict_entries (t_root t)) t"

function remove_loop :: "string \<Rightarrow> node_ref list \<Rightarrow> rnode \<Rightarrow> rnode" where
  "remove_loop tenant q root =
     (case q of
        [] \<Rightarrow> root
      | p # q1 \<Rightarrow>
          let root1 = prune_at p (modify_at p (drop_tenant tenant) root)
          in remove_loop tenant
               (case parent_becomes_leaf tenant p root1 of Some _ \<Rightarrow> q1 @ [butlast p] | None \<Rightarrow> q1) root1)"
  by pat_completeness auto

termination
proof (relation "measure (\<lambda>(_, q, _). sum_list (map (\<lambda>p. Suc (length p)) q))", goal_cases)
  case (2 tenant q root p q1 root1)
  then show ?case by (cases p rule: rev_cases) (auto simp: parent_becomes_leaf_def split: option.splits if_splits)
qed simp

declare remove_loop.simps [simp del]

definition remove_tenant :: "string \<Rightarrow> tree \<Rightarrow> tree" where
  "remove_tenant tenant t =
     (let q = map fst (filter (\<lambda>(p, n). tenant \<in> set (leaf_of n)) (visit (t_root t)))
      in \<lparr>t_root = remove_loop tenant q (t_root t),
          tenant_char_count = hm_remove tenant (tenant_char_count t)\<rparr>)"

definition get_smallest_tenant :: "tree \<Rightarrow> string" where
  "get_smallest_tenant t =
     (case min_by_key snd (tenant_char_count t) of Some (tenant, _) \<Rightarrow> tenant | None \<Rightarrow> ''empty'')"

definition get_used_size_per_tenant :: "tree \<Rightarrow> (string, nat) hash_map" where
  "get_used_size_per_tenant t = tenant_char_count t"

end
