(* ===== verification/RadixProps.thy ===== *)
theory RadixProps
  imports RadixTree
begin

text \<open>
  What the radix tree promises: the invariant of its nodes, the strings a tenant holds, and
  insertion, matching, eviction and removal seen through them.
\<close>

subsection \<open>The invariant and the abstraction\<close>

definition tenants :: "rnode \<Rightarrow> string set" where
  "tenants n = set (hm_keys (rn_times n))"

fun node_ok :: "rnode \<Rightarrow> bool" where
  "node_ok (RNode x a cs) \<longleftrightarrow>
     hm_ok a \<and> hm_ok cs \<and>
     list_all (\<lambda>(c, m). rn_text m \<noteq> [] \<and> hd (rn_text m) = c \<and> rn_times m \<noteq> [] \<and>
       tenants m \<subseteq> set (hm_keys a) \<and> node_ok m) cs"

function holds :: "string \<Rightarrow> rnode \<Rightarrow> string \<Rightarrow> bool" where
  \<comment> \<open>below the node, the tenant is on every node the string passes or ends in\<close>
  "holds t n s =
     (case s of
        [] \<Rightarrow> True
      | c # _ \<Rightarrow>
          (case hm_get (rn_children n) c of
             None \<Rightarrow> False
           | Some m \<Rightarrow>
               has_tenant t m \<and>
               (prefix s (rn_text m) \<or>
                prefix (rn_text m) s \<and> holds t m (drop (length (rn_text m)) s))))"
  by pat_completeness auto
termination by (relation "measure (\<lambda>(_, n, _). rsize n)") (auto intro: rsize_child')

declare holds.simps [simp del]

definition enters :: "string \<Rightarrow> rnode \<Rightarrow> string \<Rightarrow> bool" where
  "enters t m s \<longleftrightarrow>
     has_tenant t m \<and> (prefix s (rn_text m) \<or> (\<exists>r. s = rn_text m @ r \<and> holds t m r))"

definition child_ok :: "rnode \<Rightarrow> char \<Rightarrow> rnode \<Rightarrow> bool" where
  "child_ok n c m \<longleftrightarrow>
     rn_text m \<noteq> [] \<and> hd (rn_text m) = c \<and> rn_times m \<noteq> [] \<and> tenants m \<subseteq> tenants n \<and> node_ok m"

lemma node_ok_iff:
  "node_ok n \<longleftrightarrow> hm_ok (rn_times n) \<and> hm_ok (rn_children n) \<and>
     (\<forall>c m. hm_get (rn_children n) c = Some m \<longrightarrow> child_ok n c m)"
proof (cases n)
  case (RNode x a cs)
  have "list_all (\<lambda>(c, m). rn_text m \<noteq> [] \<and> hd (rn_text m) = c \<and> rn_times m \<noteq> [] \<and>
      tenants m \<subseteq> set (hm_keys a) \<and> node_ok m) cs = list_all (\<lambda>(c, m). child_ok n c m) cs"
    unfolding child_ok_def RNode tenants_def by simp
  moreover have "hm_ok cs \<Longrightarrow> list_all (\<lambda>(c, m). child_ok n c m) cs \<longleftrightarrow>
      (\<forall>c m. hm_get cs c = Some m \<longrightarrow> child_ok n c m)"
    unfolding list_all_iff by (auto simp: hm_ok_def)
  ultimately show ?thesis unfolding RNode by auto
qed

lemmas node_okD = node_ok_iff [THEN iffD1, THEN conjunct1]
  node_ok_iff [THEN iffD1, THEN conjunct2, THEN conjunct1]
  node_ok_iff [THEN iffD1, THEN conjunct2, THEN conjunct2, rule_format]

lemma has_tenant_iff: "has_tenant t n \<longleftrightarrow> t \<in> tenants n"
  by (force simp: has_tenant_def tenants_def map_of_eq_None_iff)

lemma tenants_simps [simp]:
  "tenants (touch t ts n) = insert t (tenants n)"
  "tenants (set_child c m n) = tenants n"
  "tenants (RNode x [(t, ts)] cs) = {t}"
  by (auto simp: tenants_def dom_update)

lemma holds_Nil [simp]: "holds t n []"
  by (subst holds.simps) simp

lemma holds_iff:
  "holds t n s \<longleftrightarrow> s = [] \<or> (\<exists>m. hm_get (rn_children n) (hd s) = Some m \<and> enters t m s)"
  by (subst holds.simps) (auto simp: enters_def prefix_def split: list.split option.split)

lemma holds_cong: "rn_children n = rn_children n' \<Longrightarrow> holds t n s = holds t n' s"
  by (simp add: holds_iff [of t n] holds_iff [of t n'])

lemma holds_touch [simp]: "holds t (touch t' ts n) s = holds t n s"
  by (rule holds_cong) simp

lemma holds_no_tenant: "node_ok n \<Longrightarrow> \<not> has_tenant t n \<Longrightarrow> holds t n s \<longleftrightarrow> s = []"
  using node_okD(3) [of n "hd s"] by (subst holds_iff) (auto simp: enters_def has_tenant_iff child_ok_def)

lemma child_ok_mono: "child_ok n c m \<Longrightarrow> tenants n \<subseteq> tenants n' \<Longrightarrow> child_ok n' c m"
  by (auto simp: child_ok_def)

lemma node_ok_touch: "node_ok n \<Longrightarrow> node_ok (touch t ts n)"
  by (subst node_ok_iff) (auto simp: node_okD intro: child_ok_mono [of n])

lemma node_ok_set_child:
  "node_ok n \<Longrightarrow> child_ok n c m \<Longrightarrow> node_ok (set_child c m n)"
  by (subst node_ok_iff) (auto simp: hm_simps node_okD intro: child_ok_mono [of n] split: if_splits)

lemma holds_set_child:
  "holds t (set_child c m n) s \<longleftrightarrow> s = [] \<or> (if hd s = c then enters t m s else holds t n s)"
  by (cases "s = []") (simp_all add: holds_iff [of t "set_child c m n"] holds_iff [of t n] hm_simps)

subsection \<open>Splitting a node\<close>

lemma split_node_simps [simp]:
  "rn_text (split_node k m) = take k (rn_text m)" "rn_times (split_node k m) = rn_times m"
  "tenants (split_node k m) = tenants m"
  by (simp_all add: split_node_def Let_def tenants_def)

lemma split_node_eq:
  assumes "rn_text m = u @ v" and "length u = k"
  shows "split_node k m = RNode u (rn_times m) [(hd v, RNode v (rn_times m) (rn_children m))]"
proof -
  have "slice_by_chars (u @ v) k (length (u @ v)) = v" unfolding slice_simps using assms(2) by simp
  then show ?thesis using assms by (simp add: split_node_def Let_def slice_by_chars_def)
qed

lemma text_split:
  assumes "k < length (rn_text m)"
  obtains u v where "rn_text m = u @ v" "length u = k" "v \<noteq> []"
  using that [of "take k (rn_text m)" "drop k (rn_text m)"] assms by simp

lemma node_ok_children:
  "node_ok n \<Longrightarrow> tenants n \<subseteq> tenants n' \<Longrightarrow> hm_ok (rn_times n') \<Longrightarrow>
   rn_children n' = rn_children n \<Longrightarrow> node_ok n'"
  by (subst node_ok_iff) (auto intro: node_okD child_ok_mono [of n])

lemma child_ok_split:
  assumes "child_ok n c m" and "0 < k" and "k < length (rn_text m)"
  shows "child_ok n c (split_node k m)"
proof -
  obtain u v where uv: "rn_text m = u @ v" "length u = k" "v \<noteq> []" using text_split [OF assms(3)] .
  let ?low = "RNode v (rn_times m) (rn_children m)"
  have m: "node_ok m" "rn_times m \<noteq> []" "tenants m \<subseteq> tenants n" "hd (u @ v) = c"
    using assms(1) uv by (auto simp: child_ok_def)
  have "node_ok ?low" by (rule node_ok_children [OF m(1)]) (simp_all add: tenants_def node_okD(1) [OF m(1)])
  then have "node_ok (RNode u (rn_times m) [(hd v, ?low)])"
    using uv m node_okD(1) [OF m(1)] by (simp add: tenants_def hm_ok_def)
  then show ?thesis
    using assms(2) uv m unfolding split_node_eq [OF uv(1,2)] by (auto simp: child_ok_def tenants_def)
qed

lemma enters_split:
  assumes "0 < k" and "k < length (rn_text m)"
  shows "enters t (split_node k m) s = enters t m s"
proof -
  obtain u v where uv: "rn_text m = u @ v" "length u = k" "v \<noteq> []" using text_split [OF assms(2)] .
  let ?low = "RNode v (rn_times m) (rn_children m)"
  have low: "holds t ?low r = holds t m r" for r by (rule holds_cong) simp
  have up: "holds t (split_node k m) r \<longleftrightarrow> r = [] \<or> (hd r = hd v \<and> enters t ?low r)" for r
    by (subst holds_iff) (auto simp: split_node_eq [OF uv(1,2)])
  have "enters t ?low r \<Longrightarrow> r \<noteq> [] \<Longrightarrow> hd r = hd v" for r
    using uv(3) by (auto simp: enters_def prefix_def)
  then have up': "holds t (split_node k m) r \<longleftrightarrow> r = [] \<or> enters t ?low r" for r
    unfolding up by blast
  show ?thesis
    unfolding enters_def up' unfolding enters_def low
    using uv by (auto simp: has_tenant_iff tenants_def prefix_append)
qed

subsection \<open>Characters of a tenant\<close>

fun chars :: "string \<Rightarrow> rnode \<Rightarrow> nat" where
  \<comment> \<open>the length of the texts below the node that carry the tenant\<close>
  "chars t (RNode x a cs) =
     sum_list (map (\<lambda>(c, m). (if has_tenant t m then length (rn_text m) else 0) + chars t m) cs)"

definition weight :: "string \<Rightarrow> rnode \<Rightarrow> nat" where
  "weight t m = (if has_tenant t m then length (rn_text m) else 0) + chars t m"

definition weight_at :: "string \<Rightarrow> rnode option \<Rightarrow> nat" where
  "weight_at t r = (case r of None \<Rightarrow> 0 | Some m \<Rightarrow> weight t m)"

lemma chars_eq: "chars t n = sum_list (map (\<lambda>(c, m). weight t m) (rn_children n))"
  by (cases n) (simp add: weight_def)

lemma chars_cong: "rn_children n = rn_children n' \<Longrightarrow> chars t n = chars t n'"
  by (simp add: chars_eq)

lemma chars_touch [simp]: "chars t (touch t' ts n) = chars t n"
  by (rule chars_cong) simp

lemma sum_list_insert:
  "distinct (map fst cs) \<Longrightarrow>
   sum_list (map (\<lambda>(c, m). f m) (hm_insert c m cs)) + (case hm_get cs c of None \<Rightarrow> 0 | Some k \<Rightarrow> f k) =
   sum_list (map (\<lambda>(c, m). f m) cs) + (f m :: nat)"
  by (induction cs) auto

lemma sum_list_remove:
  "distinct (map fst cs) \<Longrightarrow>
   sum_list (map (\<lambda>(c, m). f m) (hm_remove c cs)) + (case hm_get cs c of None \<Rightarrow> 0 | Some k \<Rightarrow> f k) =
   (sum_list (map (\<lambda>(c, m). f m) cs) :: nat)"
  by (induction cs) (auto simp: map_of_eq_None_iff [THEN iffD2] delete_id)

lemma chars_set_child:
  "node_ok n \<Longrightarrow> chars t (set_child c m n) + weight_at t (hm_get (rn_children n) c) = chars t n + weight t m"
  using sum_list_insert [of "rn_children n" "weight t" c m] node_okD(2) [of n]
  by (simp add: chars_eq weight_at_def hm_ok_def)

lemma weight_split:
  assumes "k < length (rn_text m)"
  shows "weight t (split_node k m) = weight t m"
proof -
  obtain u v where uv: "rn_text m = u @ v" "length u = k" "v \<noteq> []" using text_split [OF assms] .
  have "chars t (RNode v (rn_times m) (rn_children m)) = chars t m" by (rule chars_cong) simp
  then show ?thesis
    unfolding split_node_eq [OF uv(1,2)] using uv by (auto simp: weight_def has_tenant_def)
qed

lemma chars_no_tenant: "node_ok n \<Longrightarrow> \<not> has_tenant t n \<Longrightarrow> chars t n = 0"
proof (induction n)
  case (RNode x a cs)
  have "weight t m = 0" if "(c, m) \<in> set cs" for c m
  proof -
    have "hm_get cs c = Some m" using that RNode.prems(1) by (auto simp: hm_ok_def)
    then have "child_ok (RNode x a cs) c m" using node_okD(3) [OF RNode.prems(1)] by simp
    then have "node_ok m" "\<not> has_tenant t m" using RNode.prems(2) by (auto simp: child_ok_def has_tenant_iff)
    with RNode.IH that show ?thesis by (fastforce simp: weight_def)
  qed
  then show ?case unfolding chars_eq by (auto simp: sum_list_eq_0_iff)
qed

subsection \<open>Insertion\<close>

definition inserted :: "string \<Rightarrow> string \<Rightarrow> rnode \<Rightarrow> rnode \<Rightarrow> bool" where
  "inserted tenant rest n n' \<longleftrightarrow>
     node_ok n' \<and> rn_text n' = rn_text n \<and> rn_times n' = rn_times n \<and>
     (\<forall>t s. holds t n' s \<longleftrightarrow> holds t n s \<or> (t = tenant \<and> prefix s rest)) \<and>
     (\<forall>t. t \<noteq> tenant \<longrightarrow> chars t n' = chars t n) \<and> chars tenant n \<le> chars tenant n'"

lemma inserted_new:
  assumes "node_ok n" and "has_tenant tenant n" and "rest \<noteq> []" and "hm_get (rn_children n) (hd rest) = None"
  shows "inserted tenant rest n (set_child (hd rest) (RNode rest [(tenant, ts)] []) n)"
    and "chars tenant (set_child (hd rest) (RNode rest [(tenant, ts)] []) n) = chars tenant n + length rest"
proof -
  let ?m = "RNode rest [(tenant, ts)] []"
  have "child_ok n (hd rest) ?m"
    using assms by (simp add: child_ok_def has_tenant_iff hm_ok_def)
  then have ok: "node_ok (set_child (hd rest) ?m n)" by (rule node_ok_set_child [OF assms(1)])
  have leaf: "holds t ?m r \<longleftrightarrow> r = []" for t r by (subst holds_iff) simp
  have "enters t ?m s \<longleftrightarrow> t = tenant \<and> prefix s rest" for t s
    unfolding enters_def leaf by (auto simp: has_tenant_iff)
  moreover have "holds t n s \<longleftrightarrow> s = []" if "hd s = hd rest" for t s
    using assms(4) that by (subst holds_iff) auto
  moreover have "s \<noteq> [] \<Longrightarrow> prefix s rest \<Longrightarrow> hd s = hd rest" for s by (auto simp: prefix_def)
  ultimately have holds: "holds t (set_child (hd rest) ?m n) s \<longleftrightarrow>
      holds t n s \<or> (t = tenant \<and> prefix s rest)" for t s
    unfolding holds_set_child by (cases "s = []") auto
  have chars: "chars t (set_child (hd rest) ?m n) = chars t n + weight t ?m" for t
    using chars_set_child [OF assms(1), of t "hd rest" ?m] assms(4) by (simp add: weight_at_def)
  show "chars tenant (set_child (hd rest) ?m n) = chars tenant n + length rest"
    unfolding chars by (simp add: weight_def has_tenant_iff)
  show "inserted tenant rest n (set_child (hd rest) ?m n)"
    unfolding inserted_def using ok holds chars by (simp add: weight_def has_tenant_iff)
qed

lemma inserted_below:
  assumes "node_ok n" and "has_tenant tenant n" and "child_ok n c nxt"
    and child: "hm_get (rn_children n) c = Some matched"
    and same: "\<And>t s. enters t nxt s = enters t matched s" "\<And>t. weight t nxt = weight t matched"
    and below: "inserted tenant rest' (touch tenant ts nxt) below"
  shows "inserted tenant (rn_text nxt @ rest') n (set_child c below n)"
    and "chars tenant (set_child c below n) + chars tenant nxt =
      chars tenant n + chars tenant below + (if has_tenant tenant nxt then 0 else length (rn_text nxt))"
proof -
  let ?n = "set_child c below n"
  have b: "node_ok below" "rn_text below = rn_text nxt" "rn_times below = hm_insert tenant ts (rn_times nxt)"
    "\<And>t s. holds t below s \<longleftrightarrow> holds t nxt s \<or> (t = tenant \<and> prefix s rest')"
    "\<And>t. t \<noteq> tenant \<Longrightarrow> chars t below = chars t nxt" "chars tenant nxt \<le> chars tenant below"
    using below by (auto simp: inserted_def)
  have ten: "has_tenant t below \<longleftrightarrow> t = tenant \<or> has_tenant t nxt" for t
    by (auto simp: has_tenant_def b(3) hm_simps)
  have nxt: "node_ok nxt" "rn_text nxt \<noteq> []" "hd (rn_text nxt) = c" using assms(3) by (auto simp: child_ok_def)
  have "child_ok n c below"
    using assms(2,3) b by (auto simp: child_ok_def tenants_def has_tenant_iff dom_update)
  then have ok: "node_ok ?n" by (rule node_ok_set_child [OF assms(1)])
  have enters: "enters t below s \<longleftrightarrow> enters t nxt s \<or> (t = tenant \<and> prefix s (rn_text nxt @ rest'))" for t s
    using holds_no_tenant [OF nxt(1)] by (auto simp: enters_def ten b(2,4) prefix_append)
  have hd: "s \<noteq> [] \<Longrightarrow> prefix s (rn_text nxt @ rest') \<Longrightarrow> hd s = c" for s
    using nxt(2,3) by (auto simp: prefix_def append_eq_append_conv2 hd_append)
  have holds: "holds t ?n s \<longleftrightarrow> holds t n s \<or> (t = tenant \<and> prefix s (rn_text nxt @ rest'))" for t s
  proof (cases "s = []")
    case False
    then show ?thesis
      unfolding holds_set_child enters same using child holds_iff [of t n s] hd [OF False] by auto
  qed simp
  have chars: "chars t ?n + weight t nxt = chars t n + weight t below" for t
    using chars_set_child [OF assms(1), of t c below] child by (simp add: weight_at_def same)
  show "chars tenant ?n + chars tenant nxt =
      chars tenant n + chars tenant below + (if has_tenant tenant nxt then 0 else length (rn_text nxt))"
    using chars [of tenant] by (auto simp: weight_def ten b(2) split: if_splits)
  show "inserted tenant (rn_text nxt @ rest') n ?n"
    unfolding inserted_def
  proof (intro conjI allI impI)
    fix t assume "t \<noteq> tenant"
    then show "chars t ?n = chars t n" using chars [of t] by (simp add: weight_def ten b split: if_splits)
  next
    show "chars tenant n \<le> chars tenant ?n"
      using chars [of tenant] b(6) by (auto simp: weight_def ten b(2) split: if_splits)
  qed (simp_all add: ok holds)
qed

lemma next_node:
  assumes "child_ok n c m" and "rest \<noteq> []" and "hd rest = c"
  defines "k \<equiv> shared_prefix_count (rn_text m) rest"
  defines "nxt \<equiv> (if k < length (rn_text m) then split_node k m else m)"
  shows "child_ok n c nxt" and "rest = rn_text nxt @ drop k rest"
    and "enters t nxt s = enters t m s" and "weight t nxt = weight t m"
proof -
  have k: "0 < k" "k \<le> length (rn_text m)"
    using assms(1-3) shared_prefix_pos [of "rn_text m" rest] shared_prefix_count_le(1) [of "rn_text m" rest]
    by (auto simp: child_ok_def k_def)
  have "take k (rn_text m) = take k rest" unfolding k_def by (rule shared_prefix_take)
  then show "rest = rn_text nxt @ drop k rest" using k by (auto simp: nxt_def) (metis append_take_drop_id)
  show "child_ok n c nxt" "enters t nxt s = enters t m s" "weight t nxt = weight t m"
    using k assms(1) by (auto simp: nxt_def child_ok_split enters_split weight_split)
qed

lemma ins_correct:
  assumes "node_ok prev" and "has_tenant tenant prev" and "hm_get counts tenant = Some c"
  shows "inserted tenant rest prev (fst (ins tenant ts rest prev counts)) \<and>
    hm_get (snd (ins tenant ts rest prev counts)) =
      (hm_get counts)(tenant \<mapsto> c + (chars tenant (fst (ins tenant ts rest prev counts)) - chars tenant prev))"
  using assms
proof (induction tenant ts rest prev counts arbitrary: c rule: ins.induct)
  case (1 tenant ts rest prev counts)
  show ?case
  proof (cases rest)
    case Nil
    then show ?thesis using 1(2-4) by (auto simp: ins.simps [of _ _ "[]"] inserted_def)
  next
    case (Cons a as)
    show ?thesis
    proof (cases "hm_get (rn_children prev) a")
      case None
      then have "ins tenant ts rest prev counts =
        (set_child a (RNode rest [(tenant, ts)] []) prev, credit tenant (length rest) counts)"
        using Cons by (subst ins.simps) simp
      then show ?thesis
        using inserted_new [OF 1(2,3), of rest ts] Cons None 1(4) by (simp add: credit_def hm_simps)
    next
      case (Some m)
      let ?k = "shared_prefix_count (rn_text m) rest"
      let ?nxt = "if ?k < length (rn_text m) then split_node ?k m else m"
      let ?c1 = "if has_tenant tenant ?nxt then counts else credit tenant (length (rn_text ?nxt)) counts"
      let ?d = "if has_tenant tenant ?nxt then 0 else length (rn_text ?nxt)"
      let ?r = "ins tenant ts (drop ?k rest) (touch tenant ts ?nxt) ?c1"
      have eq: "ins tenant ts rest prev counts = (set_child a (fst ?r) prev, snd ?r)"
        using Cons Some by (subst ins.simps) (simp add: Let_def case_prod_unfold)
      note n = next_node [OF node_okD(3) [OF 1(2) Some], of rest]
      have rest: "rest \<noteq> []" "hd rest = a" using Cons by auto
      have t: "node_ok (touch tenant ts ?nxt)" "has_tenant tenant (touch tenant ts ?nxt)"
        using n(1) [OF rest] by (auto simp: child_ok_def node_ok_touch has_tenant_iff)
      have c1: "hm_get ?c1 tenant = Some (c + ?d)" using 1(4) by (simp add: credit_def hm_simps)
      have IH: "inserted tenant (drop ?k rest) (touch tenant ts ?nxt) (fst ?r)"
        "hm_get (snd ?r) = (hm_get ?c1)(tenant \<mapsto> c + ?d + (chars tenant (fst ?r) - chars tenant ?nxt))"
        using 1(1) [OF Cons Some refl refl refl t c1] by auto
      note b = inserted_below [OF 1(2,3) n(1) [OF rest] Some n(3,4) [OF rest] IH(1)]
      have "chars tenant ?nxt \<le> chars tenant (fst ?r)" using IH(1) by (simp add: inserted_def)
      then have e1: "c + ?d + (chars tenant (fst ?r) - chars tenant ?nxt) =
          c + (chars tenant (set_child a (fst ?r) prev) - chars tenant prev)"
        using b(2) by simp
      have e2: "(hm_get ?c1)(tenant \<mapsto> x) = (hm_get counts)(tenant \<mapsto> x)" for x
        by (simp add: credit_def hm_simps)
      have "hm_get (snd ?r) =
          (hm_get counts)(tenant \<mapsto> c + (chars tenant (set_child a (fst ?r) prev) - chars tenant prev))"
        unfolding IH(2) e2 e1 ..
      moreover have "inserted tenant rest prev (set_child a (fst ?r) prev)"
        using b(1) n(2) [OF rest] by simp
      ultimately show ?thesis unfolding eq by simp
    qed
  qed
qed

subsection \<open>The tree\<close>

definition tree_ok :: "tree \<Rightarrow> bool" where
  "tree_ok t \<longleftrightarrow> node_ok (t_root t) \<and> hm_ok (tenant_char_count t) \<and>
     (\<forall>x. hm_get (tenant_char_count t) x =
        (if has_tenant x (t_root t) then Some (chars x (t_root t)) else None))"

definition tree_holds :: "string \<Rightarrow> tree \<Rightarrow> string \<Rightarrow> bool" where
  "tree_holds x t s \<longleftrightarrow> has_tenant x (t_root t) \<and> holds x (t_root t) s"

lemma ins_hm_ok: "hm_ok counts \<Longrightarrow> hm_ok (snd (ins tenant ts rest prev counts))"
proof (induction tenant ts rest prev counts rule: ins.induct)
  case (1 tenant ts rest prev counts)
  show ?case
  proof (cases rest)
    case (Cons a as)
    show ?thesis
    proof (cases "hm_get (rn_children prev) a")
      case (Some m)
      let ?k = "shared_prefix_count (rn_text m) rest"
      let ?nxt = "if ?k < length (rn_text m) then split_node ?k m else m"
      let ?c1 = "if has_tenant tenant ?nxt then counts else credit tenant (length (rn_text ?nxt)) counts"
      let ?r = "ins tenant ts (drop ?k rest) (touch tenant ts ?nxt) ?c1"
      have "snd (ins tenant ts rest prev counts) = snd ?r"
        using Cons Some by (subst ins.simps) (simp add: Let_def case_prod_unfold)
      moreover have "hm_ok ?c1" using 1(2) by (simp add: credit_def)
      ultimately show ?thesis using 1(1) [OF Cons Some refl refl refl] by simp
    next
      case None
      then have "ins tenant ts rest prev counts =
        (set_child a (RNode rest [(tenant, ts)] []) prev, credit tenant (length rest) counts)"
        using Cons by (subst ins.simps) simp
      then show ?thesis using 1(2) by (simp add: credit_def)
    qed
  qed (use 1(2) in \<open>simp add: ins.simps [of _ _ "[]"]\<close>)
qed

lemma tree_insert_correct:
  assumes "tree_ok t"
  shows "tree_ok (tree_insert ts text1 tenant t)"
    and "tree_holds x (tree_insert ts text1 tenant t) s \<longleftrightarrow>
      tree_holds x t s \<or> (x = tenant \<and> prefix s text1)"
proof -
  let ?root = "touch tenant ts (t_root t)" and ?c0 = "hm_entry tenant (\<lambda>c. c) 0 (tenant_char_count t)"
  let ?r = "ins tenant ts text1 ?root ?c0"
  have t': "tree_insert ts text1 tenant t = \<lparr>t_root = fst ?r, tenant_char_count = snd ?r\<rparr>"
    by (simp add: tree_insert_def Let_def case_prod_unfold)
  have ok: "node_ok (t_root t)" "hm_ok (tenant_char_count t)"
    "\<And>x. hm_get (tenant_char_count t) x = (if has_tenant x (t_root t) then Some (chars x (t_root t)) else None)"
    using assms by (auto simp: tree_ok_def)
  have ten: "has_tenant x ?root \<longleftrightarrow> x = tenant \<or> has_tenant x (t_root t)" for x
    by (auto simp: has_tenant_iff)
  have c0: "hm_get ?c0 x = (if has_tenant x ?root then Some (chars x (t_root t)) else None)" for x
    using chars_no_tenant [OF ok(1)] by (auto simp: hm_simps ok(3) ten)
  have "hm_get ?c0 tenant = Some (chars tenant (t_root t))" by (simp add: c0 ten)
  from ins_correct [OF node_ok_touch [OF ok(1), of tenant ts] _ this, of text1 ts]
  have r: "inserted tenant text1 ?root (fst ?r)"
    "hm_get (snd ?r) = (hm_get ?c0)(tenant \<mapsto> chars tenant (t_root t) + (chars tenant (fst ?r) - chars tenant ?root))"
    by (simp_all add: ten)
  have root: "has_tenant x (fst ?r) \<longleftrightarrow> has_tenant x ?root" for x
    using r(1) by (simp add: inserted_def has_tenant_def)
  have "hm_get (snd ?r) x = (if has_tenant x (fst ?r) then Some (chars x (fst ?r)) else None)" for x
    using r(1) unfolding r(2) root by (auto simp: inserted_def c0 ten)
  moreover have "hm_ok (snd ?r)" by (rule ins_hm_ok) (simp add: ok(2))
  ultimately show "tree_ok (tree_insert ts text1 tenant t)"
    using r(1) by (simp add: t' tree_ok_def inserted_def)
  show "tree_holds x (tree_insert ts text1 tenant t) s \<longleftrightarrow>
      tree_holds x t s \<or> (x = tenant \<and> prefix s text1)"
    using r(1) holds_no_tenant [OF ok(1), of x s]
    by (cases "has_tenant x (t_root t)") (auto simp: t' tree_holds_def root ten inserted_def)
qed

lemma tree_ok_new: "tree_ok tree_new"
  by (simp add: tree_ok_def tree_new_def has_tenant_def)

subsection \<open>The count is the number of strings held\<close>

lemma enters_set:
  assumes "rn_text m \<noteq> []" and "has_tenant t m"
  shows "{s. s \<noteq> [] \<and> enters t m s} =
    (\<lambda>i. take (Suc i) (rn_text m)) ` {..<length (rn_text m)} \<union>
    (\<lambda>r. rn_text m @ r) ` {r. r \<noteq> [] \<and> holds t m r}" (is "?L = ?A \<union> ?B")
proof -
  have "s \<in> ?A" if "prefix s (rn_text m)" "s \<noteq> []" for s
  proof -
    have "s = take (Suc (length s - 1)) (rn_text m)" using that by (auto simp: prefix_def)
    moreover have "length s - 1 < length (rn_text m)"
      using that by (cases s) (auto simp: prefix_def)
    ultimately show ?thesis by blast
  qed
  moreover have "s = rn_text m \<Longrightarrow> prefix s (rn_text m)" for s by simp
  ultimately have "?L \<subseteq> ?A \<union> ?B" using assms by (auto simp: enters_def image_iff)
  moreover have "?A \<union> ?B \<subseteq> ?L" using assms by (auto simp: enters_def take_is_prefix)
  ultimately show ?thesis by blast
qed

lemma enters_card:
  assumes "rn_text m \<noteq> []" and "has_tenant t m"
    and "finite {r. r \<noteq> [] \<and> holds t m r}" and "card {r. r \<noteq> [] \<and> holds t m r} = chars t m"
  shows "finite {s. s \<noteq> [] \<and> enters t m s}" and "card {s. s \<noteq> [] \<and> enters t m s} = weight t m"
proof -
  let ?A = "(\<lambda>i. take (Suc i) (rn_text m)) ` {..<length (rn_text m)}"
  let ?B = "(\<lambda>r. rn_text m @ r) ` {r. r \<noteq> [] \<and> holds t m r}"
  have "inj_on (\<lambda>i. take (Suc i) (rn_text m)) {..<length (rn_text m)}"
  proof (rule inj_onI)
    fix i j assume "i \<in> {..<length (rn_text m)}" "j \<in> {..<length (rn_text m)}"
      and "take (Suc i) (rn_text m) = take (Suc j) (rn_text m)"
    then have "length (take (Suc i) (rn_text m)) = length (take (Suc j) (rn_text m))" by simp
    then show "i = j" using \<open>i \<in> _\<close> \<open>j \<in> _\<close> by simp
  qed
  then have A: "card ?A = length (rn_text m)" by (simp add: card_image)
  have B: "card ?B = chars t m" using assms(4) by (simp add: card_image inj_on_def)
  have disj: "?A \<inter> ?B = {}"
  proof -
    have "length s \<le> length (rn_text m)" if "s \<in> ?A" for s using that by auto
    moreover have "length (rn_text m) < length s" if "s \<in> ?B" for s using that by auto
    ultimately show ?thesis by force
  qed
  show "finite {s. s \<noteq> [] \<and> enters t m s}" unfolding enters_set [OF assms(1,2)] using assms(3) by simp
  show "card {s. s \<noteq> [] \<and> enters t m s} = weight t m"
    unfolding enters_set [OF assms(1,2)] using A B assms(2,3) disj
    by (simp add: card_Un_disjoint weight_def)
qed

lemma chars_card:
  "node_ok n \<Longrightarrow> finite {s. s \<noteq> [] \<and> holds t n s} \<and> card {s. s \<noteq> [] \<and> holds t n s} = chars t n"
proof (induction n)
  case (RNode x a cs)
  let ?n = "RNode x a cs"
  let ?E = "\<lambda>m. {s. s \<noteq> [] \<and> enters t m s}"
  have ok: "child_ok ?n c m" if "(c, m) \<in> set cs" for c m
    using node_okD(3) [OF RNode.prems, of c m] node_okD(2) [OF RNode.prems] that by (simp add: hm_ok_def)
  have hd: "hd s = c" if "(c, m) \<in> set cs" "s \<in> ?E m" for c m s
    using ok [OF that(1)] that(2) by (auto simp: child_ok_def enters_def prefix_def)
  have E: "finite (?E m) \<and> card (?E m) = weight t m" if "(c, m) \<in> set cs" for c m
  proof (cases "has_tenant t m")
    case True
    have "node_ok m" "rn_text m \<noteq> []" using ok [OF that] by (auto simp: child_ok_def)
    moreover from this RNode.IH that have "finite {s. s \<noteq> [] \<and> holds t m s} \<and> card {s. s \<noteq> [] \<and> holds t m s} = chars t m"
      by fastforce
    ultimately show ?thesis using enters_card [of m t] True by simp
  next
    case False
    then have "?E m = {}" by (simp add: enters_def)
    moreover have "weight t m = 0"
      using False ok [OF that] by (simp add: weight_def child_ok_def chars_no_tenant)
    ultimately show ?thesis by (metis card.empty finite.emptyI)
  qed
  have "{s. s \<noteq> [] \<and> holds t ?n s} = (\<Union>p \<in> set cs. ?E (snd p))"
  proof -
    have "s \<noteq> [] \<and> holds t ?n s \<longleftrightarrow> (\<exists>p \<in> set cs. s \<in> ?E (snd p))" for s
    proof -
      have "s \<noteq> [] \<and> holds t ?n s \<longleftrightarrow> (\<exists>m. (hd s, m) \<in> set cs \<and> s \<in> ?E m)"
        using node_okD(2) [OF RNode.prems] by (subst holds_iff) (auto simp: hm_ok_def)
      also have "\<dots> \<longleftrightarrow> (\<exists>p \<in> set cs. s \<in> ?E (snd p))"
      proof
        assume "\<exists>p \<in> set cs. s \<in> ?E (snd p)"
        then obtain c m where "(c, m) \<in> set cs" "s \<in> ?E m" by auto
        with hd [of c m s] show "\<exists>m. (hd s, m) \<in> set cs \<and> s \<in> ?E m" by blast
      qed force
      finally show ?thesis .
    qed
    then show ?thesis by blast
  qed
  moreover have "card (\<Union>p \<in> set cs. ?E (snd p)) = (\<Sum>p \<in> set cs. card (?E (snd p)))"
  proof (rule card_UN_disjoint)
    show "\<forall>p \<in> set cs. \<forall>q \<in> set cs. p \<noteq> q \<longrightarrow> ?E (snd p) \<inter> ?E (snd q) = {}"
    proof (intro ballI impI)
      fix p q assume "p \<in> set cs" "q \<in> set cs" "p \<noteq> q"
      moreover from this have "fst p \<noteq> fst q"
        using node_okD(2) [OF RNode.prems] by (auto simp: hm_ok_def distinct_map inj_on_def)
      ultimately show "?E (snd p) \<inter> ?E (snd q) = {}"
        using hd [of "fst p" "snd p"] hd [of "fst q" "snd q"] by fastforce
    qed
  qed (use E in auto)
  moreover have "(\<Sum>p \<in> set cs. card (?E (snd p))) = (\<Sum>p \<in> set cs. weight t (snd p))"
    using E by (intro sum.cong) auto
  moreover have "\<dots> = chars t ?n"
    using node_okD(2) [OF RNode.prems]
    by (simp add: chars_eq hm_ok_def sum_list_distinct_conv_sum_set distinct_map case_prod_unfold)
  moreover have "finite (\<Union>p \<in> set cs. ?E (snd p))" using E by auto
  ultimately show ?case by simp
qed

end
