(* ===== verification/RadixMatch.thy ===== *)
theory RadixMatch
  imports RadixProps
begin

text \<open>Prefix matching: the longest string held by any tenant, and a tenant that holds it.\<close>

definition similar :: "rnode \<Rightarrow> rnode \<Rightarrow> bool" where
  \<comment> \<open>the same strings, tenants and characters; only the access times differ\<close>
  "similar n n' \<longleftrightarrow>
     node_ok n' \<and> rn_text n' = rn_text n \<and> tenants n' = tenants n \<and>
     (\<forall>t s. holds t n' s = holds t n s) \<and> (\<forall>t. chars t n' = chars t n)"

lemma tenants_Nil: "tenants n = {} \<longleftrightarrow> rn_times n = []"
  by (simp add: tenants_def)

lemma similar_touch: "node_ok n \<Longrightarrow> t \<in> tenants n \<Longrightarrow> similar n (touch t ts n)"
  by (auto simp: similar_def node_ok_touch)

lemma similar_trans: "similar a b \<Longrightarrow> similar b c \<Longrightarrow> similar a c"
  by (simp add: similar_def)

lemma similar_set_child:
  assumes "node_ok n" and "hm_get (rn_children n) c = Some m" and "similar m m'"
  shows "similar n (set_child c m' n)"
proof -
  have ok: "child_ok n c m" by (rule node_okD(3) [OF assms(1,2)])
  then have "child_ok n c m'"
    using assms(3) by (auto simp: child_ok_def similar_def simp flip: tenants_Nil)
  then have "node_ok (set_child c m' n)" by (rule node_ok_set_child [OF assms(1)])
  moreover have "enters t m' s = enters t m s" "weight t m' = weight t m" for t s
    using assms(3) by (simp_all add: similar_def enters_def weight_def has_tenant_iff)
  then have "holds t (set_child c m' n) s = holds t n s" "chars t (set_child c m' n) = chars t n" for t s
    using holds_iff [of t n s] assms(2) chars_set_child [OF assms(1), of t c m']
    by (auto simp: holds_set_child weight_at_def)
  ultimately show ?thesis by (simp add: similar_def)
qed

lemma node_at_tenants: "node_ok n \<Longrightarrow> node_at p n = Some m \<Longrightarrow> tenants m \<subseteq> tenants n \<and> node_ok m"
proof (induction p arbitrary: n)
  case (Cons c p)
  then obtain k where k: "hm_get (rn_children n) c = Some k" "node_at p k = Some m"
    by (auto split: Option.bind_splits)
  with Cons.IH [of k] node_okD(3) [OF Cons.prems(1) k(1)] show ?case by (auto simp: child_ok_def)
qed simp

lemma similar_touch_path:
  "node_ok n \<Longrightarrow> node_at p n = Some m \<Longrightarrow> t \<in> tenants m \<Longrightarrow> similar n (touch_path t ts p n)"
proof (induction p arbitrary: n)
  case Nil
  then show ?case by (simp add: similar_touch)
next
  case (Cons c p)
  then obtain k where k: "hm_get (rn_children n) c = Some k" "node_at p k = Some m"
    by (auto split: Option.bind_splits)
  have "child_ok n c k" by (rule node_okD(3) [OF Cons.prems(1) k(1)])
  then have ok: "node_ok k" by (simp add: child_ok_def)
  have sim: "similar n (set_child c (touch_path t ts p k) n)"
    by (rule similar_set_child [OF Cons.prems(1) k(1) Cons.IH [OF ok k(2) Cons.prems(3)]])
  moreover have "t \<in> tenants n" using node_at_tenants [OF Cons.prems(1,2)] Cons.prems(3) by auto
  ultimately have "similar (set_child c (touch_path t ts p k) n) (touch t ts (set_child c (touch_path t ts p k) n))"
    by (intro similar_touch) (auto simp: similar_def)
  with sim show ?case using k(1) by (auto intro: similar_trans)
qed

lemma walk_correct:
  assumes "node_ok n" and "walk n s = (i, p)"
  shows "i \<le> length s \<and> (\<exists>m. node_at p n = Some m \<and> (p \<noteq> [] \<longrightarrow> rn_times m \<noteq> []) \<and>
      (\<forall>t. t \<in> tenants m \<longrightarrow> holds t n (take i s))) \<and>
    (\<forall>t r. prefix r s \<longrightarrow> holds t n r \<longrightarrow> length r \<le> i)"
  using assms
proof (induction n s arbitrary: i p rule: walk.induct)
  case (1 n s)
  have r_hd: "hd r = hd s" if "prefix r s" "r \<noteq> []" for r using that by (auto simp: prefix_def)
  show ?case
  proof (cases "s = [] \<or> hm_get (rn_children n) (hd s) = None")
    case True
    then have "walk n s = (0, [])" by (subst walk.simps) (auto split: list.split)
    moreover have "length r \<le> 0" if "prefix r s" "holds t n r" for t r
      using that True r_hd [OF that(1)] holds_iff [of t n r] by (cases "r = []") auto
    ultimately show ?thesis using 1(3) by auto
  next
    case False
    then obtain c cs m where c: "s = c # cs" "hm_get (rn_children n) c = Some m" by (cases s) auto
    have ok: "child_ok n c m" by (rule node_okD(3) [OF 1(2) c(2)])
    let ?k = "shared_prefix_count (rn_text m) s"
    have k: "0 < ?k" "?k \<le> length (rn_text m)" "?k \<le> length s" "take ?k (rn_text m) = take ?k s"
      using shared_prefix_pos [of "rn_text m" s] shared_prefix_count_le [of "rn_text m" s] c ok shared_prefix_take
      by (auto simp: child_ok_def)
    have holds_m: "holds t n r \<longleftrightarrow> enters t m r" if "prefix r s" "r \<noteq> []" for t r
      using r_hd [OF that] c that(2) by (subst holds_iff) auto
    have pre: "prefix (take j s) s" for j by (rule take_is_prefix)
    show ?thesis
    proof (cases "?k = length (rn_text m)")
      case True
      obtain j q where j: "walk m (drop ?k s) = (j, q)" by (cases "walk m (drop ?k s)")
      have i: "i = ?k + j" "p = c # q" using 1(3) c True j by (subst (asm) walk.simps; simp)+
      have "node_ok m" using ok by (simp add: child_ok_def)
      note IH = 1(1) [OF c refl True this j]
      have s: "s = rn_text m @ drop ?k s" using k True by (metis append_take_drop_id take_all_iff order_refl)
      from IH obtain m' where m': "node_at q m = Some m'" "q \<noteq> [] \<longrightarrow> rn_times m' \<noteq> []"
        "\<And>t. t \<in> tenants m' \<Longrightarrow> holds t m (take j (drop ?k s))" by auto
      have ne: "rn_times m' \<noteq> []" using m'(1,2) ok by (cases q) (auto simp: child_ok_def)
      have up: "holds t n (take i s)" if "t \<in> tenants m'" for t
      proof -
        have "t \<in> tenants m" using that node_at_tenants [OF \<open>node_ok m\<close> m'(1)] by auto
        moreover have "take i s = rn_text m @ take j (drop ?k s)" using s i(1) True by (metis take_add take_all_iff k(4) order_refl)
        ultimately have "enters t m (take i s)"
          using m'(3) [OF that] unfolding enters_def has_tenant_iff by blast
        moreover have "take i s \<noteq> []" using k c i(1) by auto
        ultimately show ?thesis using holds_m [OF pre, of i t] by blast
      qed
      have "length r \<le> i" if r: "prefix r s" "holds t n r" for t r
      proof (cases "r = []")
        case False
        then consider "prefix r (rn_text m)" | r' where "r = rn_text m @ r'" "holds t m r'"
          using holds_m [OF r(1) False] r(2) by (auto simp: enters_def)
        then show ?thesis
        proof cases
          case 1
          then show ?thesis using i(1) True prefix_length_le [of r "rn_text m"] by simp
        next
          case 2
          then have "prefix r' (drop ?k s)" using r(1) s by (metis same_prefix_prefix)
          then show ?thesis using IH 2 i(1) True by auto
        qed
      qed simp
      moreover have "i \<le> length s" using IH [THEN conjunct1] i(1) k(3) by simp
      ultimately show ?thesis using i(2) up m'(1) ne c(2) by auto
    next
      case False
      then have lt: "?k < length (rn_text m)" using k(2) by simp
      have i: "i = ?k" "p = [c]" using 1(3) c False by (subst (asm) walk.simps; simp)+
      have "holds t n (take i s)" if "t \<in> tenants m" for t
      proof -
        have "prefix (take i s) (rn_text m)" using k(4) i(1) by (metis take_is_prefix)
        moreover have "take i s \<noteq> []" using k c i(1) by auto
        ultimately show ?thesis using that holds_m [OF pre] by (auto simp: enters_def has_tenant_iff)
      qed
      moreover have "length r \<le> i" if "prefix r s" "holds t n r" for t r
      proof (rule ccontr)
        assume "\<not> length r \<le> i"
        then have long: "?k < length r" "r \<noteq> []" using i(1) by auto
        then have "enters t m r" using that holds_m by blast
        then have "prefix r (rn_text m) \<or> prefix (rn_text m) r" by (auto simp: enters_def)
        then have "r ! ?k = rn_text m ! ?k" using long lt by (auto simp: prefix_def nth_append)
        moreover have "r ! ?k = s ! ?k" "?k < length s" using long that(1) by (auto simp: prefix_def nth_append)
        ultimately show False using shared_prefix_differ [OF lt] by metis
      qed
      moreover have "rn_times m \<noteq> []" using ok by (simp add: child_ok_def)
      ultimately show ?thesis using i k c by auto
    qed
  qed
qed

lemma max_by_key_max: "max_by_key f xs = Some x \<Longrightarrow> y \<in> set xs \<Longrightarrow> f y \<le> f x"
  by (induction xs arbitrary: x) (fastforce split: option.splits if_splits)+

lemma most_recent_in: "a \<noteq> [] \<Longrightarrow> most_recent a \<in> set (hm_keys a)"
  by (cases "max_by_key snd a") (force simp: most_recent_def dest: max_by_key_in)+

lemma most_recent_latest:
  assumes "hm_ok a" and "hm_get a t = Some ts" and "\<And>t' ts'. hm_get a t' = Some ts' \<Longrightarrow> t' \<noteq> t \<Longrightarrow> ts' < ts"
  shows "most_recent a = t"
proof -
  have mem: "(t, ts) \<in> set a" using assms(2) by (rule map_of_SomeD)
  then obtain x tx where x: "max_by_key snd a = Some (x, tx)" by (cases "max_by_key snd a") auto
  then have "ts \<le> tx" using max_by_key_max [OF x mem] by simp
  moreover have "hm_get a x = Some tx" using max_by_key_in [OF x] assms(1) by (simp add: hm_ok_def)
  ultimately have "x = t" using assms(3) by (metis leD)
  then show ?thesis by (simp add: most_recent_def x)
qed

definition tree_similar :: "tree \<Rightarrow> tree \<Rightarrow> bool" where
  "tree_similar t t' \<longleftrightarrow> tenant_char_count t' = tenant_char_count t \<and> (\<forall>x s. tree_holds x t' s = tree_holds x t s)"

lemma prefix_match_correct:
  assumes ok: "tree_ok t" and match: "tree_prefix_match ts text1 t = ((matched, tenant), t')"
  shows "tree_ok t'" and "tree_similar t t'" and "prefix matched text1"
    and "tree_holds x t s \<Longrightarrow> prefix s text1 \<Longrightarrow> length s \<le> length matched"
    and "rn_times (t_root t) \<noteq> [] \<Longrightarrow> tree_holds tenant t matched"
    and "rn_times (t_root t) = [] \<Longrightarrow> matched = [] \<and> tenant = ''empty'' \<and> t' = t"
proof -
  have root: "node_ok (t_root t)" using ok by (simp add: tree_ok_def)
  obtain i p where w: "walk (t_root t) text1 = (i, p)" by (cases "walk (t_root t) text1")
  note wc = walk_correct [OF root w]
  then obtain m where m: "node_at p (t_root t) = Some m" "p \<noteq> [] \<Longrightarrow> rn_times m \<noteq> []"
    "\<And>x. x \<in> tenants m \<Longrightarrow> holds x (t_root t) (take i text1)" by auto
  note sub = node_at_tenants [OF root m(1)]
  have eq: "matched = take i text1" "tenant = most_recent (rn_times m)"
    "t' = (if tenant \<noteq> ''empty'' then t\<lparr>t_root := touch_path tenant ts p (t_root t)\<rparr> else t)"
    using match by (auto simp: tree_prefix_match_def w m(1) Let_def)
  show "prefix matched text1" by (simp add: eq(1) take_is_prefix)
  show "tree_holds x t s \<Longrightarrow> prefix s text1 \<Longrightarrow> length s \<le> length matched"
    using wc by (auto simp: tree_holds_def eq(1))
  have empty: "rn_times m = [] \<Longrightarrow> p = [] \<and> m = t_root t" using m(1,2) by (cases p) auto
  have ten: "rn_times m \<noteq> [] \<Longrightarrow> tenant \<in> tenants m"
    unfolding eq(2) tenants_def by (rule most_recent_in)
  have sim: "tree_ok t' \<and> tree_similar t t'"
  proof (cases "tenant = ''empty''")
    case False
    then have "rn_times m \<noteq> []" by (auto simp: eq(2) most_recent_def)
    from similar_touch_path [OF root m(1) ten [OF this]] False ok show ?thesis
      by (simp add: eq(3) tree_ok_def tree_similar_def tree_holds_def similar_def has_tenant_iff)
  qed (simp add: eq(3) ok tree_similar_def)
  show "tree_ok t'" "tree_similar t t'" using sim by blast+
  show "tree_holds tenant t matched" if "rn_times (t_root t) \<noteq> []"
    using that empty ten sub m(3) by (auto simp: tree_holds_def eq(1) has_tenant_iff)
  show "matched = [] \<and> tenant = ''empty'' \<and> t' = t" if "rn_times (t_root t) = []"
  proof -
    have "tenants (t_root t) = {}" using that by (simp add: tenants_def)
    then have "rn_times m = []" using sub unfolding tenants_Nil [symmetric] by blast
    moreover from this have "tenant = ''empty''" by (simp add: eq(2) most_recent_def)
    moreover have "hm_get (rn_children (t_root t)) c = None" for c
      using node_okD(3) [OF root, of c] \<open>tenants (t_root t) = {}\<close>
      by (cases "hm_get (rn_children (t_root t)) c") (auto simp: child_ok_def simp flip: tenants_Nil)
    then have "walk (t_root t) text1 = (0, [])" by (subst walk.simps) (auto split: list.split)
    ultimately show ?thesis using w by (simp add: eq)
  qed
qed

end
