(* ===== verification/RadixEvict.thy ===== *)
theory RadixEvict
  imports RadixMatch
begin

text \<open>
  Eviction and removal. Both take a tenant off the nodes below which it no longer occurs, from
  the leaves up, and drop a node that nobody carries any more. One such step is \<open>deleted\<close>; the
  queues of the two loops are the leaves of the tenants that still have to shrink.
\<close>

subsection \<open>Taking a tenant off a leaf\<close>

fun del_at :: "string \<Rightarrow> node_ref \<Rightarrow> rnode \<Rightarrow> rnode" where
  "del_at t [] n = drop_tenant t n"
| "del_at t (c # p) n =
     (case hm_get (rn_children n) c of
        None \<Rightarrow> n
      | Some m \<Rightarrow>
          let m' = del_at t p m
          in if p = [] \<and> rn_children m' = [] \<and> rn_times m' = [] then drop_child c n else set_child c m' n)"

lemma rn_drop [simp]:
  "rn_text (drop_tenant t n) = rn_text n" "rn_children (drop_tenant t n) = rn_children n"
  "rn_times (drop_tenant t n) = hm_remove t (rn_times n)"
  "rn_text (drop_child c n) = rn_text n" "rn_times (drop_child c n) = rn_times n"
  "rn_children (drop_child c n) = hm_remove c (rn_children n)"
  by (simp_all add: drop_tenant_def drop_child_def)

lemma tenants_drop [simp]:
  "tenants (drop_tenant t n) = tenants n - {t}" "tenants (drop_child c n) = tenants n"
  by (auto simp: tenants_def delete_keys)

lemma set_child_twice [simp]: "set_child c m (set_child c k n) = set_child c m n"
  by (simp add: set_child_def)

lemma drop_set_child [simp]: "drop_child c (set_child c m n) = drop_child c n"
  by (simp add: set_child_def drop_child_def delete_update_same)

lemma set_child_same: "hm_get (rn_children n) c = Some m \<Longrightarrow> set_child c m n = n"
  by (cases n) (simp add: set_child_def update_triv)

lemma prune_below:
  "p \<noteq> [] \<Longrightarrow> prune_at (c # p) (set_child c m n) = set_child c (prune_at p m) n"
  by (auto simp: prune_at_def hm_simps split: option.split list.split)

lemma prune_child:
  "rn_text m \<noteq> [] \<Longrightarrow> hd (rn_text m) = c \<Longrightarrow> prune_at [c] (set_child c m n) =
     (if rn_children m = [] \<and> rn_times m = [] then drop_child c n else set_child c m n)"
  by (auto simp: prune_at_def hm_simps split: list.split)

lemma evict_step_del:
  "node_ok n \<Longrightarrow> node_at p n = Some m \<Longrightarrow> prune_at p (modify_at p (drop_tenant t) n) = del_at t p n"
proof (induction p arbitrary: n)
  case Nil
  then show ?case by (simp add: prune_at_def)
next
  case (Cons c p)
  then obtain k where k: "hm_get (rn_children n) c = Some k" "node_at p k = Some m"
    by (auto split: Option.bind_splits)
  have ok: "child_ok n c k" by (rule node_okD(3) [OF Cons.prems(1) k(1)])
  show ?case
  proof (cases p)
    case Nil
    then show ?thesis using k ok prune_child [of "drop_tenant t k" c n] by (simp add: child_ok_def)
  next
    case (Cons d q)
    then have "p \<noteq> []" by simp
    moreover have "prune_at p (modify_at p (drop_tenant t) k) = del_at t p k"
      using Cons.IH k(2) ok by (simp add: child_ok_def)
    ultimately show ?thesis using k(1) prune_below [of p c "modify_at p (drop_tenant t) k" n] by simp
  qed
qed

definition tpaths :: "string \<Rightarrow> rnode \<Rightarrow> node_ref set" where
  "tpaths t n = {p. \<exists>m. node_at p n = Some m \<and> t \<in> tenants m}"

definition leafs :: "string \<Rightarrow> rnode \<Rightarrow> node_ref set" where
  "leafs t n = {p \<in> tpaths t n. \<forall>c. p @ [c] \<notin> tpaths t n}"

definition len_at :: "node_ref \<Rightarrow> rnode \<Rightarrow> nat" where
  "len_at p n = (case node_at p n of Some m \<Rightarrow> length (rn_text m) | None \<Rightarrow> 0)"

definition deleted :: "string \<Rightarrow> node_ref \<Rightarrow> rnode \<Rightarrow> rnode \<Rightarrow> bool" where
  "deleted t p n n' \<longleftrightarrow>
     node_ok n' \<and> rn_text n' = rn_text n \<and>
     tenants n' = (if p = [] then tenants n - {t} else tenants n) \<and>
     (\<forall>x s. x \<noteq> t \<longrightarrow> holds x n' s = holds x n s) \<and> (\<forall>s. holds t n' s \<longrightarrow> holds t n s) \<and>
     (\<forall>x. x \<noteq> t \<longrightarrow> chars x n' = chars x n) \<and>
     chars t n' + (if p = [] then 0 else len_at p n) = chars t n \<and>
     (\<forall>x q. q \<in> tpaths x n' \<longleftrightarrow> q \<in> tpaths x n \<and> (x = t \<longrightarrow> q \<noteq> p))"

lemma tpaths_Nil [simp]: "[] \<in> tpaths t n \<longleftrightarrow> t \<in> tenants n"
  by (simp add: tpaths_def)

lemma tpaths_Cons: "c # q \<in> tpaths t n \<longleftrightarrow> (\<exists>m. hm_get (rn_children n) c = Some m \<and> q \<in> tpaths t m)"
  by (auto simp: tpaths_def split: Option.bind_splits)

lemma tpaths_snoc: "node_ok n \<Longrightarrow> p @ [c] \<in> tpaths t n \<Longrightarrow> p \<in> tpaths t n"
proof (induction p arbitrary: n)
  case Nil
  then obtain m where "hm_get (rn_children n) c = Some m" "t \<in> tenants m" by (auto simp: tpaths_Cons)
  with node_okD(3) [OF Nil(1)] show ?case by (auto simp: child_ok_def)
next
  case (Cons d p)
  then obtain m where m: "hm_get (rn_children n) d = Some m" "p @ [c] \<in> tpaths t m" by (auto simp: tpaths_Cons)
  with Cons.IH [of m] node_okD(3) [OF Cons.prems(1) m(1)] show ?case by (auto simp: tpaths_Cons child_ok_def)
qed

lemma no_child_tenant:
  assumes "node_ok n" and "\<And>c. [c] \<notin> tpaths t n"
  shows "chars t n = 0" and "holds t n s \<longleftrightarrow> s = []"
proof -
  have none: "\<not> has_tenant t m" if "hm_get (rn_children n) c = Some m" for c m
    using assms(2) [of c] that by (simp add: tpaths_Cons has_tenant_iff)
  then show "holds t n s \<longleftrightarrow> s = []" by (subst holds_iff) (auto simp: enters_def)
  have "weight t m = 0" if "(c, m) \<in> set (rn_children n)" for c m
  proof -
    have c: "hm_get (rn_children n) c = Some m" using that node_okD(2) [OF assms(1)] by (simp add: hm_ok_def)
    with none node_okD(3) [OF assms(1) c] show ?thesis by (simp add: weight_def chars_no_tenant child_ok_def)
  qed
  then show "chars t n = 0" unfolding chars_eq by (auto simp: sum_list_eq_0_iff)
qed

lemma node_ok_drop_child: "node_ok n \<Longrightarrow> node_ok (drop_child c n)"
  by (subst node_ok_iff) (auto simp: hm_simps node_okD intro: child_ok_mono [of n] split: if_splits)

lemma deleted_Nil:
  assumes "node_ok n" and "[] \<in> leafs t n"
  shows "deleted t [] n (drop_tenant t n)"
proof -
  have leaf: "[c] \<notin> tpaths t n" for c using assms(2) by (simp add: leafs_def)
  have "child_ok (drop_tenant t n) c m" if "hm_get (rn_children n) c = Some m" for c m
    using node_okD(3) [OF assms(1) that] leaf [of c] that by (auto simp: child_ok_def tpaths_Cons)
  then have "node_ok (drop_tenant t n)" by (subst node_ok_iff) (simp add: node_okD [OF assms(1)])
  moreover have "holds x (drop_tenant t n) s = holds x n s" "chars x (drop_tenant t n) = chars x n" for x s
    by (rule holds_cong, simp) (rule chars_cong, simp)
  moreover have "q \<in> tpaths x (drop_tenant t n) \<longleftrightarrow> q \<in> tpaths x n \<and> (x = t \<longrightarrow> q \<noteq> [])" for x q
    by (cases q) (auto simp: tpaths_Cons)
  ultimately show ?thesis by (simp add: deleted_def)
qed

lemma len_at_Cons: "hm_get (rn_children n) c = Some m \<Longrightarrow> len_at (c # p) n = len_at p m"
  by (simp add: len_at_def)

lemma deleted_child:
  assumes "child_ok n c m" and "deleted t p m m'"
  shows "x \<noteq> t \<Longrightarrow> enters x m' s = enters x m s" and "x \<noteq> t \<Longrightarrow> weight x m' = weight x m"
    and "enters t m' s \<Longrightarrow> enters t m s" and "t \<in> tenants m \<Longrightarrow> weight t m' + len_at p m = weight t m"
  using assms by (auto simp: deleted_def enters_def weight_def has_tenant_iff len_at_def child_ok_def split: if_splits)

lemma deleted_set:
  assumes n: "node_ok n" "hm_get (rn_children n) c = Some m" and m: "deleted t p m m'" "t \<in> tenants m"
    and "rn_times m' \<noteq> []"
  shows "deleted t (c # p) n (set_child c m' n)"
proof -
  have ok: "child_ok n c m" by (rule node_okD(3) [OF n])
  have "tenants m' \<subseteq> tenants m" using m by (auto simp: deleted_def)
  then have "child_ok n c m'" using ok m(1) assms(5) by (auto simp: child_ok_def deleted_def)
  then have "node_ok (set_child c m' n)" by (rule node_ok_set_child [OF n(1)])
  moreover have "holds x (set_child c m' n) s = holds x n s" if "x \<noteq> t" for x s
    using deleted_child(1) [OF ok m(1) that, of s] n(2) holds_iff [of x n s] by (auto simp: holds_set_child)
  moreover have "holds t n s" if "holds t (set_child c m' n) s" for s
    using deleted_child(3) [OF ok m(1), of s] n(2) holds_iff [of t n s] that by (auto simp: holds_set_child split: if_splits)
  moreover have "chars x (set_child c m' n) = chars x n" if "x \<noteq> t" for x
    using chars_set_child [OF n(1), of x c m'] deleted_child(2) [OF ok m(1) that] n(2) by (simp add: weight_at_def)
  moreover have "chars t (set_child c m' n) + len_at (c # p) n = chars t n"
    using chars_set_child [OF n(1), of t c m'] deleted_child(4) [OF ok m] n(2) by (simp add: weight_at_def len_at_Cons)
  moreover have "q \<in> tpaths x (set_child c m' n) \<longleftrightarrow> q \<in> tpaths x n \<and> (x = t \<longrightarrow> q \<noteq> c # p)" for x q
    using m(1) n(2) by (cases q) (auto simp: tpaths_Cons hm_simps deleted_def)
  ultimately show ?thesis by (auto simp: deleted_def)
qed

lemma deleted_drop:
  assumes n: "node_ok n" "hm_get (rn_children n) c = Some m" and m: "deleted t [] m m'" "t \<in> tenants m"
    and gone: "rn_children m' = []" "rn_times m' = []"
  shows "deleted t [c] n (drop_child c n)"
proof -
  have ok: "child_ok n c m" by (rule node_okD(3) [OF n])
  have ten: "tenants m = {t}" using m gone(2) by (auto simp: deleted_def tenants_def)
  have none: "\<not> enters x m' s" "weight x m' = 0" for x s
    using gone chars_eq [of x m'] by (simp_all add: enters_def weight_def has_tenant_def)
  have holds: "holds x (drop_child c n) s \<longleftrightarrow> s = [] \<or> (hd s \<noteq> c \<and> holds x n s)" for x s
    by (cases "s = []") (simp_all add: holds_iff [of x "drop_child c n"] holds_iff [of x n] hm_simps)
  have "holds x (drop_child c n) s = holds x n s" if "x \<noteq> t" for x s
    using deleted_child(1) [OF ok m(1) that, of s] none n(2) holds_iff [of x n s] by (auto simp: holds)
  moreover have "holds t n s" if "holds t (drop_child c n) s" for s using that by (auto simp: holds)
  moreover have chars: "chars x (drop_child c n) + weight x m = chars x n" for x
    using sum_list_remove [of "rn_children n" "weight x" c] node_okD(2) [OF n(1)] n(2)
    by (simp add: chars_eq [of x] hm_ok_def)
  moreover have "chars x (drop_child c n) = chars x n" if "x \<noteq> t" for x
    using deleted_child(2) [OF ok m(1) that] none chars [of x] by simp
  moreover have "chars t (drop_child c n) + len_at [c] n = chars t n"
    using deleted_child(4) [OF ok m] none n(2) chars [of t] by (simp add: len_at_Cons)
  moreover have "q \<in> tpaths x (drop_child c n) \<longleftrightarrow> q \<in> tpaths x n \<and> (x = t \<longrightarrow> q \<noteq> [c])" for x q
  proof (cases q)
    case (Cons d r)
    have "r \<in> tpaths x m \<longleftrightarrow> r = [] \<and> x = t"
    proof (cases r)
      case Nil
      then show ?thesis using ten by simp
    next
      case (Cons e r')
      have "r \<notin> tpaths x m'" using Cons gone(1) by (simp add: tpaths_Cons)
      with Cons m(1) show ?thesis by (auto simp: deleted_def)
    qed
    with Cons n(2) show ?thesis by (cases "d = c") (auto simp: tpaths_Cons hm_simps)
  qed simp
  ultimately show ?thesis using node_ok_drop_child [OF n(1)] by (auto simp: deleted_def)
qed

lemma leafs_Cons: "hm_get (rn_children n) c = Some m \<Longrightarrow> c # p \<in> leafs t n \<longleftrightarrow> p \<in> leafs t m"
  by (auto simp: leafs_def tpaths_Cons)

lemma no_tenant_no_children: "node_ok n \<Longrightarrow> rn_times n = [] \<Longrightarrow> rn_children n = []"
proof (rule ccontr)
  assume ok: "node_ok n" "rn_times n = []" "rn_children n \<noteq> []"
  then obtain c m where "(c, m) \<in> set (rn_children n)" by (cases "rn_children n") auto
  then have "hm_get (rn_children n) c = Some m" using node_okD(2) [OF ok(1)] by (simp add: hm_ok_def)
  from node_okD(3) [OF ok(1) this] ok(2) show False by (auto simp: child_ok_def tenants_def)
qed

lemma deleted_del_at:
  "node_ok n \<Longrightarrow> p \<in> leafs t n \<Longrightarrow> deleted t p n (del_at t p n)"
proof (induction p arbitrary: n)
  case Nil
  then show ?case by (simp add: deleted_Nil)
next
  case (Cons c p)
  then obtain m where m: "hm_get (rn_children n) c = Some m" by (auto simp: leafs_def tpaths_Cons)
  have ok: "child_ok n c m" by (rule node_okD(3) [OF Cons.prems(1) m])
  have p: "p \<in> leafs t m" using Cons.prems(2) leafs_Cons [OF m] by simp
  have del: "deleted t p m (del_at t p m)" using Cons.IH ok p by (simp add: child_ok_def)
  obtain k where k: "node_at p m = Some k" "t \<in> tenants k" using p by (auto simp: leafs_def tpaths_def)
  have t: "t \<in> tenants m" using node_at_tenants [of m p k] k ok by (auto simp: child_ok_def)
  show ?case
  proof (cases "p = [] \<and> rn_children (del_at t p m) = [] \<and> rn_times (del_at t p m) = []")
    case True
    then have "deleted t [c] n (drop_child c n)"
      using deleted_drop [OF Cons.prems(1) m _ t, of "del_at t p m"] del by blast
    moreover have "del_at t (c # p) n = drop_child c n" using True m by auto
    ultimately show ?thesis using True by simp
  next
    case False
    have "rn_times (del_at t p m) \<noteq> []"
    proof
      assume none: "rn_times (del_at t p m) = []"
      then have "rn_children (del_at t p m) = []" using del no_tenant_no_children by (simp add: deleted_def)
      with False none have "p \<noteq> []" by blast
      with del t none show False by (auto simp: deleted_def tenants_def)
    qed
    with False show ?thesis using deleted_set [OF Cons.prems(1) m del t] m by (simp add: Let_def)
  qed
qed

subsection \<open>Leaves and the collecting loops\<close>

lemma mark_all:
  "hm_ok cand \<Longrightarrow> hm_ok (fold (\<lambda>m. fold (\<lambda>t. hm_insert t False) (hm_keys (rn_times m))) ms cand) \<and>
   hm_get (fold (\<lambda>m. fold (\<lambda>t. hm_insert t False) (hm_keys (rn_times m))) ms cand) t =
     (if \<exists>m \<in> set ms. t \<in> tenants m then Some False else hm_get cand t)"
proof (induction ms arbitrary: cand)
  case (Cons m ms)
  let ?c = "fold (\<lambda>t. hm_insert t False) (hm_keys (rn_times m)) cand"
  have "hm_ok ?c" using hm.ok_fold_put [OF Cons.prems, of "\<lambda>x. x" "\<lambda>_. False"] .
  moreover have "hm_get ?c t = (if t \<in> tenants m then Some False else hm_get cand t)"
    using hm.get_fold_put [OF Cons.prems, of "\<lambda>x. x" "\<lambda>_. False" "hm_keys (rn_times m)" t]
    by (auto simp: tenants_def find_None_iff split: option.splits dest: find_SomeD)
  ultimately show ?case using Cons.IH by simp
qed simp

lemma leaf_of_marked:
  assumes "node_ok n"
  shows "t \<in> set (leaf_of n) \<longleftrightarrow> t \<in> tenants n \<and> (\<forall>m \<in> set (hm_values (rn_children n)). t \<notin> tenants m)"
    and "distinct (leaf_of n)"
proof -
  let ?cand = "map (\<lambda>t. (t, True)) (hm_keys (rn_times n))"
  let ?f = "fold (\<lambda>m. fold (\<lambda>t. hm_insert t False) (hm_keys (rn_times m))) (hm_values (rn_children n)) ?cand"
  have cand: "hm_ok ?cand" using node_okD(1) [OF assms] by (simp add: hm_ok_def comp_def)
  note f = mark_all [OF cand, of "hm_values (rn_children n)"]
  have get: "hm_get ?cand t = Some True \<longleftrightarrow> t \<in> tenants n" for t
    using cand by (force simp: hm_ok_def tenants_def)
  have "t \<in> set (leaf_of n) \<longleftrightarrow> (t, True) \<in> set ?f" by (force simp: leaf_of_def Let_def)
  also have "\<dots> \<longleftrightarrow> hm_get ?f t = Some True" using f by (intro hm_in_set_iff) blast
  finally show "t \<in> set (leaf_of n) \<longleftrightarrow>
      t \<in> tenants n \<and> (\<forall>m \<in> set (hm_values (rn_children n)). t \<notin> tenants m)"
    using f [of t] get [of t] by auto
  have "distinct (map fst ?f)" using f by (simp add: hm_ok_def)
  then show "distinct (leaf_of n)" by (simp add: leaf_of_def Let_def distinct_map_filter)
qed

lemma node_at_append: "node_at (p @ q) n = Option.bind (node_at p n) (node_at q)"
  by (induction p arbitrary: n) (auto split: Option.bind_splits)

lemma tpaths_append: "node_at p n = Some m \<Longrightarrow> p @ q \<in> tpaths t n \<longleftrightarrow> q \<in> tpaths t m"
  by (simp add: tpaths_def node_at_append)

lemma leaf_of_iff:
  assumes "node_ok n" and "node_at p n = Some m"
  shows "t \<in> set (leaf_of m) \<longleftrightarrow> p \<in> leafs t n"
proof -
  have ok: "node_ok m" using node_at_tenants [OF assms] by simp
  have "(\<forall>k \<in> set (hm_values (rn_children m)). t \<notin> tenants k) \<longleftrightarrow> (\<forall>c. [c] \<notin> tpaths t m)"
    using hm_values_iff [OF node_okD(2) [OF ok]] by (fastforce simp: tpaths_Cons dest: map_of_SomeD)
  then show ?thesis
    using leaf_of_marked(1) [OF ok, of t] tpaths_append [OF assms(2), of "[]" t] tpaths_append [OF assms(2), of "[c]" t for c]
    by (simp add: leafs_def)
qed

lemma visit_iff: "node_ok n \<Longrightarrow> (p, m) \<in> set (visit n) \<longleftrightarrow> node_at p n = Some m"
proof (induction n arbitrary: p m)
  case (RNode x a cs)
  let ?n = "RNode x a cs"
  have get: "(c, k) \<in> set cs \<longleftrightarrow> hm_get cs c = Some k" for c k
    using node_okD(2) [OF RNode.prems] by (simp add: hm_ok_def)
  have IH: "(q, m) \<in> set (visit k) \<longleftrightarrow> node_at q k = Some m" if "(c, k) \<in> set cs" for c k q
    using RNode.IH that node_okD(3) [OF RNode.prems, of c k] by (fastforce simp: child_ok_def get)
  show ?case
  proof (cases p)
    case Nil
    then show ?thesis by auto
  next
    case (Cons c q)
    then have "(p, m) \<in> set (visit ?n) \<longleftrightarrow> (\<exists>k. (c, k) \<in> set cs \<and> (q, m) \<in> set (visit k))" by force
    also have "\<dots> \<longleftrightarrow> node_at p ?n = Some m" using IH Cons by (auto simp: get split: Option.bind_splits)
    finally show ?thesis .
  qed
qed

lemma distinct_visit: "node_ok n \<Longrightarrow> distinct (map fst (visit n))"
proof (induction n)
  case (RNode x a cs)
  let ?v = "\<lambda>(c, m). map (\<lambda>(p, k). (c # p, k)) (visit m)"
  have get: "(c, k) \<in> set cs \<longleftrightarrow> hm_get cs c = Some k" for c k
    using node_okD(2) [OF RNode.prems] by (simp add: hm_ok_def)
  have ok: "distinct (map fst (visit k))" if "(c, k) \<in> set cs" for c k
    using RNode.IH that node_okD(3) [OF RNode.prems, of c k] by (fastforce simp: child_ok_def get)
  have "distinct (concat (map (\<lambda>(c, m). map ((#) c) (map fst (visit m))) ds))"
    if "distinct (map fst ds)" "set ds \<subseteq> set cs" for ds
    using that
  proof (induction ds)
    case (Cons d ds)
    then have "distinct (map ((#) (fst d)) (map fst (visit (snd d))))"
      using ok [of "fst d" "snd d"] by (subst distinct_map) (simp add: inj_on_def)
    with Cons show ?case by (cases d) force
  qed simp
  from this [of "rev cs"] node_okD(2) [OF RNode.prems]
  have "distinct (concat (map (\<lambda>(c, m). map ((#) c) (map fst (visit m))) (rev cs)))"
    by (simp add: hm_ok_def distinct_map)
  then show ?case by (auto simp: map_concat comp_def case_prod_unfold)
qed

subsection \<open>One step of the loops\<close>

lemma finite_tpaths: "node_ok n \<Longrightarrow> finite (tpaths t n)"
proof -
  assume ok: "node_ok n"
  have "tpaths t n \<subseteq> fst ` set (visit n)" using visit_iff [OF ok] by (force simp: tpaths_def)
  then show ?thesis by (rule finite_subset) simp
qed

lemma leafs_exists:
  assumes "node_ok n" and "p \<in> tpaths t n"
  shows "leafs t n \<noteq> {}"
proof -
  obtain q where q: "q \<in> tpaths t n" "\<And>r. r \<in> tpaths t n \<Longrightarrow> length r \<le> length q"
    using Max_in [of "length ` tpaths t n"] Max_ge [of "length ` tpaths t n"] finite_tpaths [OF assms(1)] assms(2)
    by (metis (no_types, lifting) empty_iff finite_imageI image_iff)
  have "q @ [c] \<notin> tpaths t n" for c using q(2) [of "q @ [c]"] by auto
  with q(1) show ?thesis by (auto simp: leafs_def)
qed

lemma leafs_deleted_other: "deleted t p n n' \<Longrightarrow> x \<noteq> t \<Longrightarrow> leafs x n' = leafs x n"
  by (auto simp: leafs_def deleted_def)

lemma leafs_deleted:
  assumes ok: "node_ok n" and p: "p \<in> leafs t n" and del: "deleted t p n n'"
  shows "leafs t n' = (leafs t n - {p}) \<union>
      (case parent_becomes_leaf t p n' of None \<Rightarrow> {} | Some _ \<Rightarrow> {butlast p})" (is "?L = ?R")
    and "p \<noteq> [] \<Longrightarrow> butlast p \<notin> leafs t n"
proof -
  have ok': "node_ok n'" and tp: "\<And>q. q \<in> tpaths t n' \<longleftrightarrow> q \<in> tpaths t n \<and> q \<noteq> p"
    using del by (auto simp: deleted_def)
  have "p \<in> tpaths t n" using p by (simp add: leafs_def)
  then show not_leaf: "butlast p \<notin> leafs t n" if "p \<noteq> []"
    using that by (auto simp: leafs_def) (metis append_butlast_last_id)
  have push: "parent_becomes_leaf t p n' \<noteq> None \<longleftrightarrow> p \<noteq> [] \<and> butlast p \<in> leafs t n'"
  proof (cases "p = []")
    case False
    then have "butlast p \<in> tpaths t n"
      using tpaths_snoc [OF ok, of "butlast p" "last p"] \<open>p \<in> tpaths t n\<close> by simp
    moreover have "butlast p \<noteq> p" using False by (metis append_butlast_last_id not_Cons_self2 self_append_conv)
    ultimately have "butlast p \<in> tpaths t n'" by (simp add: tp)
    then obtain m where m: "node_at (butlast p) n' = Some m" "t \<in> tenants m" by (auto simp: tpaths_def)
    from m(2) have "hm_get (rn_times m) t \<noteq> None" by (simp add: has_tenant_iff [symmetric] has_tenant_def)
    with m(1) leaf_of_iff [OF ok' m(1), of t] False show ?thesis by (auto simp: parent_becomes_leaf_def)
  qed (simp add: parent_becomes_leaf_def)
  have new: "q \<in> leafs t n \<and> q \<noteq> p \<or> (p \<noteq> [] \<and> q = butlast p)" if "q \<in> leafs t n'" for q
  proof (cases "\<exists>c. q @ [c] \<in> tpaths t n")
    case True
    with that have "\<exists>c. q @ [c] = p" by (auto simp: leafs_def tp)
    then show ?thesis by auto
  next
    case False
    with that show ?thesis by (auto simp: leafs_def tp)
  qed
  have old: "q \<in> leafs t n'" if "q \<in> leafs t n" "q \<noteq> p" for q using that by (auto simp: leafs_def tp)
  have "?R = (leafs t n - {p}) \<union> {q. p \<noteq> [] \<and> q = butlast p \<and> q \<in> leafs t n'}"
    using push by (auto split: option.split)
  then show "?L = ?R" using new old by blast
qed

lemma evict_step:
  assumes "node_ok n" and "p \<in> leafs t n"
  shows "deleted t p n (prune_at p (modify_at p (drop_tenant t) n))"
proof -
  obtain m where "node_at p n = Some m" using assms(2) by (auto simp: leafs_def tpaths_def)
  from evict_step_del [OF assms(1) this] deleted_del_at [OF assms] show ?thesis by simp
qed

subsection \<open>Removing a tenant\<close>

lemma remove_loop_correct:
  assumes "node_ok n" and "set q = leafs t n" and "distinct q"
  shows "node_ok (remove_loop t q n)" and "t \<notin> tenants (remove_loop t q n)"
    and "x \<noteq> t \<Longrightarrow> holds x (remove_loop t q n) s = holds x n s"
    and "x \<noteq> t \<Longrightarrow> chars x (remove_loop t q n) = chars x n"
    and "tenants (remove_loop t q n) = tenants n - {t}"
proof -
  let ?r = "remove_loop t q n"
  have "node_ok ?r \<and> t \<notin> tenants ?r \<and> tenants ?r = tenants n - {t} \<and>
    (\<forall>x s. x \<noteq> t \<longrightarrow> holds x ?r s = holds x n s) \<and> (\<forall>x. x \<noteq> t \<longrightarrow> chars x ?r = chars x n)"
    using assms
  proof (induction t q n rule: remove_loop.induct)
    case (1 t q n)
    show ?case
    proof (cases q)
      case Nil
      then have "t \<notin> tenants n" using leafs_exists [OF 1(2), of "[]" t] 1(3) by auto
      then show ?thesis using Nil 1(2) by (subst (1 2 3 4 5) remove_loop.simps) simp
    next
      case (Cons p q1)
      let ?n = "prune_at p (modify_at p (drop_tenant t) n)"
      let ?q = "case parent_becomes_leaf t p ?n of Some _ \<Rightarrow> q1 @ [butlast p] | None \<Rightarrow> q1"
      have p: "p \<in> leafs t n" using 1(3) Cons by auto
      have del: "deleted t p n ?n" by (rule evict_step [OF 1(2) p])
      have eq: "remove_loop t q n = remove_loop t ?q ?n"
        using Cons by (subst remove_loop.simps) (simp add: Let_def)
      have q: "set ?q = leafs t ?n" "distinct ?q"
      proof -
        have q1: "set q1 = leafs t n - {p}" "distinct q1" using 1(3,4) Cons by auto
        then show "set ?q = leafs t ?n" unfolding leafs_deleted(1) [OF 1(2) p del] by (auto split: option.split)
        show "distinct ?q"
          using q1 leafs_deleted(2) [OF 1(2) p del] by (auto simp: parent_becomes_leaf_def split: option.split)
      qed
      have "node_ok ?n" using del by (simp add: deleted_def)
      from 1(1) [OF Cons refl this q] del show ?thesis unfolding eq by (auto simp: deleted_def split: if_splits)
    qed
  qed
  then show "node_ok ?r" "t \<notin> tenants ?r" "x \<noteq> t \<Longrightarrow> holds x ?r s = holds x n s"
    "x \<noteq> t \<Longrightarrow> chars x ?r = chars x n" "tenants ?r = tenants n - {t}" by auto
qed

lemma leafs_visit:
  assumes "node_ok n"
  shows "(\<exists>m. (p, m) \<in> set (visit n) \<and> x \<in> set (leaf_of m)) \<longleftrightarrow> p \<in> leafs x n"
  using visit_iff [OF assms] leaf_of_iff [OF assms] by (auto simp: leafs_def tpaths_def)

lemma remove_tenant_correct:
  assumes "tree_ok t"
  shows "tree_ok (remove_tenant tenant t)"
    and "tree_holds x (remove_tenant tenant t) s \<longleftrightarrow> x \<noteq> tenant \<and> tree_holds x t s"
    and "hm_get (tenant_char_count (remove_tenant tenant t)) = (hm_get (tenant_char_count t))(tenant := None)"
proof -
  let ?q = "map fst (filter (\<lambda>(p, n). tenant \<in> set (leaf_of n)) (visit (t_root t)))"
  have ok: "node_ok (t_root t)" using assms by (simp add: tree_ok_def)
  have q: "set ?q = leafs tenant (t_root t)"
  proof -
    have "p \<in> set ?q \<longleftrightarrow> (\<exists>m. (p, m) \<in> set (visit (t_root t)) \<and> tenant \<in> set (leaf_of m))" for p by force
    then show ?thesis using leafs_visit [OF ok] by blast
  qed
  have "distinct ?q" using distinct_visit [OF ok] by (simp add: distinct_map_filter)
  note r = remove_loop_correct [OF ok q this]
  have eq: "remove_tenant tenant t = \<lparr>t_root = remove_loop tenant ?q (t_root t),
      tenant_char_count = hm_remove tenant (tenant_char_count t)\<rparr>"
    by (simp add: remove_tenant_def)
  show "tree_ok (remove_tenant tenant t)"
    using assms r unfolding eq tree_ok_def by (auto simp: hm_simps has_tenant_iff)
  show "tree_holds x (remove_tenant tenant t) s \<longleftrightarrow> x \<noteq> tenant \<and> tree_holds x t s"
    using r unfolding eq tree_holds_def by (auto simp: has_tenant_iff)
  show "hm_get (tenant_char_count (remove_tenant tenant t)) = (hm_get (tenant_char_count t))(tenant := None)"
    unfolding eq by (simp add: hm_simps)
qed

subsection \<open>Eviction\<close>

definition evict_inv :: "nat \<Rightarrow> eviction_entry list \<Rightarrow> tree \<Rightarrow> bool" where
  "evict_inv max_size pq t \<longleftrightarrow>
     tree_ok t \<and> distinct (map snd pq) \<and> (\<forall>(ts, x, p) \<in> set pq. p \<in> leafs x (t_root t)) \<and>
     (\<forall>x. max_size < chars x (t_root t) \<longrightarrow> (\<forall>p \<in> leafs x (t_root t). (x, p) \<in> set (map snd pq)))"

definition evicted :: "nat \<Rightarrow> tree \<Rightarrow> tree \<Rightarrow> bool" where
  "evicted max_size t t' \<longleftrightarrow>
     tree_ok t' \<and> tenants (t_root t') = tenants (t_root t) \<and>
     (\<forall>x s. tree_holds x t' s \<longrightarrow> tree_holds x t s) \<and>
     (\<forall>x. chars x (t_root t) \<le> max_size \<longrightarrow>
        chars x (t_root t') = chars x (t_root t) \<and> (\<forall>s. tree_holds x t' s = tree_holds x t s))"

lemma evicted_refl: "tree_ok t \<Longrightarrow> evicted max_size t t"
  by (simp add: evicted_def)

lemma evicted_trans: "evicted k a b \<Longrightarrow> evicted k b c \<Longrightarrow> evicted k a c"
  by (auto simp: evicted_def)

lemma root_leaf_empty: "node_ok n \<Longrightarrow> [] \<in> leafs t n \<Longrightarrow> chars t n = 0"
  by (rule no_child_tenant(1)) (auto simp: leafs_def)

lemma evict_one:
  assumes inv: "evict_inv max_size pq t" and e: "(ts, x, p) \<in> set pq" and big: "max_size < chars x (t_root t)"
  defines "root \<equiv> prune_at p (modify_at p (drop_tenant x) (t_root t))"
  defines "t1 \<equiv> \<lparr>t_root = root, tenant_char_count = debit x (len_at p (t_root t)) (tenant_char_count t)\<rparr>"
  defines "pq1 \<equiv> remove1 (ts, x, p) pq"
  defines "pq2 \<equiv> (case parent_becomes_leaf x p root of
    Some ts' \<Rightarrow> pq1 @ [(ts', x, butlast p)] | None \<Rightarrow> pq1)"
  shows "evict_inv max_size pq2 t1" and "evicted max_size t t1"
proof -
  have ok: "node_ok (t_root t)" "tree_ok t" and p: "p \<in> leafs x (t_root t)"
    using inv e by (auto simp: evict_inv_def tree_ok_def)
  have ne: "p \<noteq> []" using root_leaf_empty [OF ok(1), of x] p big by auto
  have del: "deleted x p (t_root t) root" unfolding root_def by (rule evict_step [OF ok(1) p])
  have chars: "chars y root = (if y = x then chars x (t_root t) - len_at p (t_root t) else chars y (t_root t))" for y
    using del ne by (auto simp: deleted_def)
  have ten: "tenants root = tenants (t_root t)" using del ne by (simp add: deleted_def)
  have "x \<in> tenants (t_root t)" using big chars_no_tenant [OF ok(1), of x] by (auto simp: has_tenant_iff)
  then have ok1: "tree_ok t1"
    using ok(2) del chars ten by (auto simp: tree_ok_def t1_def debit_def hm_simps has_tenant_iff deleted_def)
  have pq1: "distinct (map snd pq1)" "(x, p) \<notin> set (map snd pq1)" "set (map snd pq1) = set (map snd pq) - {(x, p)}"
  proof -
    have d: "distinct (map snd pq)" using inv by (simp add: evict_inv_def)
    obtain as bs where s: "pq = as @ (ts, x, p) # bs" "(ts, x, p) \<notin> set as" using e by (meson split_list_first)
    then have "pq1 = as @ bs" by (simp add: pq1_def remove1_append)
    then show "distinct (map snd pq1)" "(x, p) \<notin> set (map snd pq1)" "set (map snd pq1) = set (map snd pq) - {(x, p)}"
      using d s(1) by auto
  qed
  have leaf_old: "y = x \<and> q = p \<or> q \<in> leafs y root" if "q \<in> leafs y (t_root t)" for y q
    using that leafs_deleted(1) [OF ok(1) p del] leafs_deleted_other [OF del] by (cases "y = x") auto
  have leaf_new: "(y, q) \<in> set (map snd pq) \<and> (y, q) \<noteq> (x, p) \<or>
      (y = x \<and> q = butlast p \<and> parent_becomes_leaf x p root \<noteq> None)"
    if "q \<in> leafs y root" "max_size < chars y root" for y q
  proof -
    have "chars y root \<le> chars y (t_root t)" by (simp add: chars)
    with that(2) inv have in_pq: "r \<in> leafs y (t_root t) \<Longrightarrow> (y, r) \<in> set (map snd pq)" for r
      by (auto simp: evict_inv_def)
    show ?thesis
      using that(1) in_pq leafs_deleted(1) [OF ok(1) p del] leafs_deleted_other [OF del, of y]
      by (cases "y = x") (auto split: option.splits)
  qed
  have set2: "set (map snd pq2) = set (map snd pq1) \<union>
      (if parent_becomes_leaf x p root = None then {} else {(x, butlast p)})"
    by (auto simp: pq2_def split: option.split)
  have notin: "(x, butlast p) \<notin> set (map snd pq)"
    using inv leafs_deleted(2) [OF ok(1) p del ne] by (auto simp: evict_inv_def)
  have "distinct (map snd pq2)"
    using pq1(1,3) notin by (auto simp: pq2_def split: option.split)
  moreover have "q \<in> leafs y root" if "(s, y, q) \<in> set pq2" for s y q
  proof -
    have "(y, q) \<in> set (map snd pq2)" using that by force
    then show ?thesis
      using set2 pq1(3) inv leaf_old [of q y] leafs_deleted(1) [OF ok(1) p del]
      by (auto simp: evict_inv_def split: if_splits option.splits)
  qed
  moreover have "(y, q) \<in> set (map snd pq2)" if "q \<in> leafs y root" "max_size < chars y root" for y q
    unfolding set2 pq1(3) using leaf_new [OF that] by auto
  moreover have "t_root t1 = root" by (simp add: t1_def)
  ultimately show "evict_inv max_size pq2 t1"
    using ok1 unfolding evict_inv_def by auto
  have "holds y root s \<Longrightarrow> holds y (t_root t) s" for y s using del by (cases "y = x") (auto simp: deleted_def)
  then show "evicted max_size t t1"
    using ok1 del ten chars big by (auto simp: evicted_def t1_def tree_holds_def has_tenant_iff deleted_def)
qed

lemma evict_inv_drop:
  assumes inv: "evict_inv max_size pq t" and small: "chars x (t_root t) \<le> max_size"
  shows "evict_inv max_size (remove1 (ts, x, p) pq) t"
proof -
  let ?pq = "remove1 (ts, x, p) pq"
  have sub: "set ?pq \<subseteq> set pq" by (rule set_remove1_subset)
  have keep: "(y, q) \<in> set (map snd ?pq)" if yq: "(y, q) \<in> set (map snd pq)" "y \<noteq> x" for y q
  proof -
    obtain s where "(s, y, q) \<in> set pq" using yq(1) by auto
    then have "(s, y, q) \<in> set ?pq" using yq(2) by (simp add: in_set_remove1)
    then show ?thesis by force
  qed
  have "distinct (map snd ?pq)"
    using inv sub by (auto simp: evict_inv_def distinct_map intro: inj_on_subset)
  moreover have "\<forall>(ts, x, p) \<in> set ?pq. p \<in> leafs x (t_root t)" using inv sub by (auto simp: evict_inv_def)
  moreover have "(y, q) \<in> set (map snd ?pq)" if "max_size < chars y (t_root t)" "q \<in> leafs y (t_root t)" for y q
  proof -
    have "y \<noteq> x" using that(1) small by auto
    then show ?thesis using that inv keep [of y q] by (simp add: evict_inv_def)
  qed
  ultimately show ?thesis using inv unfolding evict_inv_def by blast
qed

lemma evict_loop_correct:
  "evict_inv max_size pq t \<Longrightarrow>
   evicted max_size t (evict_loop max_size pq t) \<and> (\<forall>x. chars x (t_root (evict_loop max_size pq t)) \<le> max_size)"
proof (induction max_size pq t rule: evict_loop.induct)
  case (1 max_size pq t)
  have ok: "tree_ok t" using 1(3) by (simp add: evict_inv_def)
  then have root: "node_ok (t_root t)" by (simp add: tree_ok_def)
  show ?case
  proof (cases "min_by_key fst pq")
    case None
    then have "chars x (t_root t) \<le> max_size" for x
    proof (rule_tac ccontr)
      assume "\<not> chars x (t_root t) \<le> max_size"
      moreover from this have "has_tenant x (t_root t)" using chars_no_tenant [OF root, of x] by auto
      then have "leafs x (t_root t) \<noteq> {}" using leafs_exists [OF root, of "[]" x] by (simp add: has_tenant_iff)
      ultimately show False using 1(3) None by (force simp: evict_inv_def)
    qed
    moreover have "evict_loop max_size pq t = t" using None by (subst evict_loop.simps) simp
    ultimately show ?thesis using evicted_refl [OF ok] by simp
  next
    case (Some e)
    obtain ts x p where e: "e = (ts, x, p)" by (cases e)
    have mem: "(ts, x, p) \<in> set pq" using Some min_by_key_in [of fst pq] e by simp
    let ?used = "case hm_get (tenant_char_count t) x of Some c \<Rightarrow> c | None \<Rightarrow> 0"
    have used: "?used = chars x (t_root t)"
      using ok chars_no_tenant [OF root, of x] by (auto simp: tree_ok_def)
    show ?thesis
    proof (cases "?used \<le> max_size")
      case True
      have "evict_loop max_size pq t = evict_loop max_size (remove1 (ts, x, p) pq) t"
        using Some e True by (subst evict_loop.simps) simp
      moreover have "evict_inv max_size (remove1 (ts, x, p) pq) t"
        using evict_inv_drop [OF 1(3)] True unfolding used .
      ultimately show ?thesis using 1(1) [OF Some e [symmetric] refl refl refl True] by simp
    next
      case False
      then have big: "max_size < chars x (t_root t)" unfolding used by simp
      have "p \<in> leafs x (t_root t)" using 1(3) mem by (auto simp: evict_inv_def)
      then obtain n where n: "node_at p (t_root t) = Some n" "has_tenant x n"
        by (auto simp: leafs_def tpaths_def has_tenant_iff)
      let ?root = "prune_at p (modify_at p (drop_tenant x) (t_root t))"
      let ?pq1 = "remove1 (ts, x, p) pq"
      let ?pq2 = "case parent_becomes_leaf x p ?root of
        Some ts' \<Rightarrow> ?pq1 @ [(ts', x, butlast p)] | None \<Rightarrow> ?pq1"
      let ?counts = "debit x (len_at p (t_root t)) (tenant_char_count t)"
      have counts: "(case node_at p (t_root t) of
            Some n \<Rightarrow> if has_tenant x n then debit x (length (rn_text n)) (tenant_char_count t) else tenant_char_count t
          | None \<Rightarrow> tenant_char_count t) = ?counts"
        using n by (simp add: len_at_def)
      have eq: "evict_loop max_size pq t = evict_loop max_size ?pq2 \<lparr>t_root = ?root, tenant_char_count = ?counts\<rparr>"
        using Some e False counts by (subst evict_loop.simps) (simp add: Let_def)
      note one = evict_one [OF 1(3) mem big]
      show ?thesis
        using 1(2) [OF Some e [symmetric] refl refl refl False counts [symmetric] refl refl one(1)] one(2)
        unfolding eq by (auto intro: evicted_trans)
    qed
  qed
qed

lemma distinct_pairs:
  "distinct (map fst vs) \<Longrightarrow> \<forall>(p, n) \<in> set vs. distinct (g n) \<Longrightarrow>
   distinct (concat (map (\<lambda>(p, n). map (\<lambda>t. (t, p)) (g n)) vs))"
proof (induction vs)
  case (Cons v vs)
  then show ?case by (cases v) (force simp: distinct_map inj_on_def)
qed simp

lemma evict_entries_inv:
  assumes ok: "tree_ok t"
  shows "evict_inv max_size (evict_entries (t_root t)) t"
proof -
  have root: "node_ok (t_root t)" using ok by (simp add: tree_ok_def)
  let ?f = "\<lambda>(p, n). List.map_filter (\<lambda>t. map_option (\<lambda>ts. (ts, t, p)) (hm_get (rn_times n) t)) (leaf_of n)"
  have f: "map snd (?f (p, n)) = map (\<lambda>t. (t, p)) (leaf_of n)" if "(p, n) \<in> set (visit (t_root t))" for p n
  proof -
    have "node_ok n" using that visit_iff [OF root] node_at_tenants [OF root] by blast
    then have "\<forall>t \<in> set (leaf_of n). hm_get (rn_times n) t \<noteq> None"
      using leaf_of_marked(1) [of n] has_tenant_iff by (auto simp: has_tenant_def)
    then show ?thesis by (induction "leaf_of n") (auto simp: List.map_filter_def)
  qed
  then have "map snd (evict_entries (t_root t)) =
      concat (map (\<lambda>(p, n). map (\<lambda>t. (t, p)) (leaf_of n)) (visit (t_root t)))"
    unfolding evict_entries_def map_concat by (auto intro!: arg_cong [where f = concat])
  moreover have "distinct (concat (map (\<lambda>(p, n). map (\<lambda>t. (t, p)) (leaf_of n)) (visit (t_root t))))"
  proof (rule distinct_pairs [OF distinct_visit [OF root]])
    show "\<forall>(p, n) \<in> set (visit (t_root t)). distinct (leaf_of n)"
      using visit_iff [OF root] node_at_tenants [OF root] leaf_of_marked(2) by blast
  qed
  moreover have "(x, p) \<in> set (concat (map (\<lambda>(p, n). map (\<lambda>t. (t, p)) (leaf_of n)) (visit (t_root t)))) \<longleftrightarrow>
      p \<in> leafs x (t_root t)" for x p
    using leafs_visit [OF root, of p x] by force
  ultimately have es: "distinct (map snd (evict_entries (t_root t)))"
    "\<And>x p. (x, p) \<in> set (map snd (evict_entries (t_root t))) \<longleftrightarrow> p \<in> leafs x (t_root t)" by simp_all
  have "p \<in> leafs x (t_root t)" if "(ts, x, p) \<in> set (evict_entries (t_root t))" for ts x p
    using that es(2) [of x p] by (metis image_eqI set_map snd_conv)
  with es ok show ?thesis unfolding evict_inv_def by blast
qed

end
