(* ===== verification/RadixHistory.thy ===== *)
theory RadixHistory
  imports RadixEvict
begin

text \<open>
  The radix tree over its whole life: any sequence of insertions, matches, evictions and
  removals, the access times they leave behind, and the properties of the tree that the
  cache-aware policy rests on.
\<close>

subsection \<open>Histories of a tree\<close>

datatype tree_op =
    Insert nat string string  \<comment> \<open>time, text, tenant\<close>
  | PrefixMatch nat string
  | Evict nat
  | Remove string

fun tree_step :: "tree_op \<Rightarrow> tree \<Rightarrow> tree" where
  "tree_step (Insert ts text1 tenant) t = tree_insert ts text1 tenant t"
| "tree_step (PrefixMatch ts text1) t = snd (tree_prefix_match ts text1 t)"
| "tree_step (Evict max_size) t = evict_tenant_by_size max_size t"
| "tree_step (Remove tenant) t = remove_tenant tenant t"

definition tree_run :: "tree_op list \<Rightarrow> tree" where
  "tree_run ops = fold tree_step ops tree_new"

lemma tree_ok_step: "tree_ok t \<Longrightarrow> tree_ok (tree_step op t)"
proof (cases op)
  case (PrefixMatch ts text1)
  moreover assume "tree_ok t"
  ultimately show ?thesis
    using prefix_match_correct(1) [of t ts text1 _ _ "snd (tree_prefix_match ts text1 t)"]
    by (cases "tree_prefix_match ts text1 t") auto
next
  case (Evict k)
  moreover assume "tree_ok t"
  ultimately show ?thesis
    using evict_loop_correct [OF evict_entries_inv, of t k] by (simp add: evict_tenant_by_size_def evicted_def)
qed (simp_all add: tree_insert_correct remove_tenant_correct)

lemma tree_ok_run: "tree_ok (tree_run ops)"
proof -
  have "tree_ok t \<Longrightarrow> tree_ok (fold tree_step ops t)" for t
    by (induction ops arbitrary: t) (simp_all add: tree_ok_step)
  then show ?thesis by (simp add: tree_run_def tree_ok_new)
qed

lemma count_card:
  assumes "tree_ok t"
  shows "hm_get (tenant_char_count t) x =
    (if tree_holds x t [] then Some (card {s. s \<noteq> [] \<and> tree_holds x t s}) else None)"
proof (cases "has_tenant x (t_root t)")
  case True
  have "node_ok (t_root t)" using assms by (simp add: tree_ok_def)
  from chars_card [OF this, of x] True assms show ?thesis by (simp add: tree_ok_def tree_holds_def)
qed (use assms in \<open>simp add: tree_ok_def tree_holds_def\<close>)

lemma holds_prefix: "holds t n s \<Longrightarrow> prefix r s \<Longrightarrow> holds t n r"
proof (induction t n s arbitrary: r rule: holds.induct)
  case (1 t n s)
  show ?case
  proof (cases "r = []")
    case False
    then have hd: "hd r = hd s" "s \<noteq> []" using 1(3) by (auto simp: prefix_def)
    then obtain c cs where c: "s = c # cs" by (cases s) auto
    then obtain m where m: "hm_get (rn_children n) c = Some m" "enters t m s"
      using 1(2) holds_iff [of t n s] by auto
    from m(2) have "enters t m r"
      unfolding enters_def
    proof (elim conjE disjE exE)
      assume "has_tenant t m" "prefix s (rn_text m)"
      with 1(3) show "has_tenant t m \<and> (prefix r (rn_text m) \<or> (\<exists>q. r = rn_text m @ q \<and> holds t m q))"
        by (auto intro: prefix_order.trans)
    next
      fix q assume q: "has_tenant t m" "s = rn_text m @ q" "holds t m q"
      have "holds t m q'" if "prefix q' q" for q'
        using 1(1) [OF c m(1), of q'] q(2,3) that by simp
      with 1(3) q show "has_tenant t m \<and> (prefix r (rn_text m) \<or> (\<exists>q. r = rn_text m @ q \<and> holds t m q))"
        by (auto simp: prefix_append)
    qed
    with m(1) hd c show ?thesis by (subst holds_iff) auto
  qed simp
qed

definition held :: "string \<Rightarrow> tree \<Rightarrow> string set" where
  "held x t = {s. tree_holds x t s}"

text \<open>
  C13. After any sequence of insertions, matches, evictions and removals, the size the tree
  reports for a tenant is the number of non-empty strings the tenant holds, a tenant is
  reported exactly when it is in the tree, and what a tenant holds is closed under prefixes.
\<close>

theorem radix_sizes_exact:
  "hm_get (get_used_size_per_tenant (tree_run ops)) x =
     (if held x (tree_run ops) = {} then None else Some (card (held x (tree_run ops) - {[]}))) \<and>
   (\<forall>s \<in> held x (tree_run ops). \<forall>r. prefix r s \<longrightarrow> r \<in> held x (tree_run ops))"
proof -
  let ?t = "tree_run ops"
  have "\<forall>s \<in> held x ?t. \<forall>r. prefix r s \<longrightarrow> r \<in> held x ?t"
    unfolding held_def tree_holds_def using holds_prefix by blast
  moreover have "held x ?t = {} \<longleftrightarrow> \<not> tree_holds x ?t []"
    using holds_Nil unfolding held_def tree_holds_def by blast
  moreover have "held x ?t - {[]} = {s. s \<noteq> [] \<and> tree_holds x ?t s}" unfolding held_def by auto
  ultimately show ?thesis
    using count_card [OF tree_ok_run, of ops x] by (simp add: get_used_size_per_tenant_def)
qed

theorem radix_sizes_exact_witness:
  "hm_get (get_used_size_per_tenant (tree_run [Insert 1 ''apple'' ''a'', Insert 2 ''apply'' ''b''])) ''b'' = Some 5 \<and>
   card (held ''b'' (tree_run [Insert 1 ''apple'' ''a'', Insert 2 ''apply'' ''b'']) - {[]}) = 5"
proof -
  let ?ops = "[Insert 1 ''apple'' ''a'', Insert 2 ''apply'' ''b'']"
  have "hm_get (get_used_size_per_tenant (tree_run ?ops)) ''b'' = Some 5" by code_simp
  with radix_sizes_exact [of ?ops "''b''"] show ?thesis by (auto split: if_splits)
qed

text \<open>
  C14. A match finds the longest prefix of the text that any tenant of the tree holds, and
  names a tenant that holds it (unless the tree has no tenant at all); it changes access times
  only.
\<close>

theorem prefix_match_longest:
  assumes "tree_prefix_match ts text1 (tree_run ops) = ((matched, tenant), t')"
  shows "prefix matched text1 \<and>
    (\<forall>x s. tree_holds x (tree_run ops) s \<and> prefix s text1 \<longrightarrow> length s \<le> length matched) \<and>
    ((\<exists>x. tree_holds x (tree_run ops) []) \<longrightarrow> tree_holds tenant (tree_run ops) matched) \<and>
    (\<forall>x s. tree_holds x t' s = tree_holds x (tree_run ops) s)"
proof -
  note m = prefix_match_correct [OF tree_ok_run assms]
  have "rn_times (t_root (tree_run ops)) \<noteq> []" if "tree_holds x (tree_run ops) []" for x
    using that by (auto simp: tree_holds_def has_tenant_def)
  with m(2-5) show ?thesis unfolding tree_similar_def by blast
qed

theorem prefix_match_longest_witness:
  "\<exists>t'. tree_prefix_match 3 ''application'' (tree_run [Insert 1 ''apple'' ''a'', Insert 2 ''apply'' ''b'']) =
      ((''appl'', ''b''), t') \<and>
    tree_holds ''b'' (tree_run [Insert 1 ''apple'' ''a'', Insert 2 ''apply'' ''b'']) ''appl''"
proof -
  let ?t = "tree_run [Insert 1 ''apple'' ''a'', Insert 2 ''apply'' ''b'']"
  have "fst (tree_prefix_match 3 ''application'' ?t) = (''appl'', ''b'')" by code_simp
  then have m: "tree_prefix_match 3 ''application'' ?t =
      ((''appl'', ''b''), snd (tree_prefix_match 3 ''application'' ?t))" by (simp add: prod_eq_iff)
  have "tree_holds ''a'' ?t []" by code_simp
  with prefix_match_longest [OF m] m show ?thesis by blast
qed

subsection \<open>Access times\<close>

fun older :: "nat \<Rightarrow> rnode \<Rightarrow> bool" where
  \<comment> \<open>every access time of the node and below is before the given time\<close>
  "older ts (RNode x a cs) \<longleftrightarrow> list_all (\<lambda>(_, t). t < ts) a \<and> list_all (\<lambda>(_, m). older ts m) cs"

definition latest :: "string \<Rightarrow> nat \<Rightarrow> rnode \<Rightarrow> bool" where
  "latest x ts n \<longleftrightarrow> hm_ok (rn_times n) \<and> hm_get (rn_times n) x = Some ts \<and>
     (\<forall>y t. hm_get (rn_times n) y = Some t \<longrightarrow> y \<noteq> x \<longrightarrow> t < ts)"

lemma older_iff:
  "older ts n \<longleftrightarrow> (\<forall>(x, t) \<in> set (rn_times n). t < ts) \<and> (\<forall>(c, m) \<in> set (rn_children n). older ts m)"
  by (cases n) (simp add: list_all_iff)

lemma set_update: "set (AList.update k v xs) \<subseteq> insert (k, v) (set xs)"
  by (induction xs) auto

lemma set_delete: "set (AList.delete k xs) \<subseteq> set xs"
  by (auto simp: AList.delete_eq)

lemma older_touch: "older ts n \<Longrightarrow> t < ts \<Longrightarrow> older ts (touch x t n)"
  using set_update [of x t "rn_times n"] by (auto simp: older_iff [of ts n] older_iff [of ts "touch x t n"])

lemma older_set_child: "older ts n \<Longrightarrow> older ts m \<Longrightarrow> older ts (set_child c m n)"
  using set_update [of c m "rn_children n"] by (auto simp: older_iff [of ts n] older_iff [of ts "set_child c m n"])

lemma older_drop: "older ts n \<Longrightarrow> older ts (drop_tenant t n)" "older ts n \<Longrightarrow> older ts (drop_child c n)"
  using set_delete [of t "rn_times n"] set_delete [of c "rn_children n"]
  by (auto simp: older_iff [of ts n] older_iff [of ts "drop_tenant t n"] older_iff [of ts "drop_child c n"])

lemma older_child: "older ts n \<Longrightarrow> hm_get (rn_children n) c = Some m \<Longrightarrow> older ts m"
  by (auto simp: older_iff [of ts n] dest: map_of_SomeD)

lemma older_modify: "older ts n \<Longrightarrow> (\<And>m. older ts m \<Longrightarrow> older ts (f m)) \<Longrightarrow> older ts (modify_at p f n)"
  by (induction p arbitrary: n) (auto split: option.split intro: older_set_child older_child)

lemma older_prune: "older ts n \<Longrightarrow> older ts (prune_at p n)"
  by (auto simp: prune_at_def split: option.split list.split intro: older_modify older_drop)

lemma older_touch_path: "older ts n \<Longrightarrow> t < ts \<Longrightarrow> older ts (touch_path x t p n)"
  by (induction p arbitrary: n) (auto split: option.split intro: older_set_child older_child older_touch)

lemma older_split: "older ts m \<Longrightarrow> older ts (split_node k m)"
  by (simp add: older_iff [of ts m] split_node_def Let_def list_all_iff)

lemma older_ins: "older ts prev \<Longrightarrow> t < ts \<Longrightarrow> older ts (fst (ins tenant t rest prev counts))"
proof (induction tenant t rest prev counts rule: ins.induct)
  case (1 tenant t rest prev counts)
  show ?case
  proof (cases "rest = [] \<or> hm_get (rn_children prev) (hd rest) = None")
    case True
    then show ?thesis
      using 1(2,3) by (subst ins.simps) (auto split: list.split intro!: older_set_child)
  next
    case False
    then obtain a as m where c: "rest = a # as" "hm_get (rn_children prev) a = Some m" by (cases rest) auto
    let ?k = "shared_prefix_count (rn_text m) rest"
    let ?nxt = "if ?k < length (rn_text m) then split_node ?k m else m"
    let ?c1 = "if has_tenant tenant ?nxt then counts else credit tenant (length (rn_text ?nxt)) counts"
    have "older ts (touch tenant t ?nxt)"
      using older_child [OF 1(2) c(2)] 1(3) by (auto intro: older_touch older_split)
    note IH = 1(1) [OF c refl refl refl this 1(3)]
    have "fst (ins tenant t rest prev counts) =
        set_child a (fst (ins tenant t (drop ?k rest) (touch tenant t ?nxt) ?c1)) prev"
      using c by (subst ins.simps) (simp add: Let_def case_prod_unfold)
    with IH show ?thesis using 1(2) by (simp add: older_set_child)
  qed
qed

lemma ins_root:
  "rn_text (fst (ins tenant ts rest prev counts)) = rn_text prev"
  "rn_times (fst (ins tenant ts rest prev counts)) = rn_times prev"
  by (subst ins.simps, simp add: Let_def case_prod_unfold split: list.split option.split)+

lemma shared_prefix_append [simp]: "shared_prefix_count x (x @ y) = length x"
  by (induction x) auto

lemma walk_child:
  assumes "rn_text m \<noteq> []" and "rest = rn_text m @ rest'" and "c = hd rest"
  shows "walk (set_child c m n) rest = (let (i, p) = walk m rest' in (length (rn_text m) + i, c # p))"
proof -
  have "rest \<noteq> []" using assms(1,2) by simp
  then obtain cs where "rest = c # cs" using assms(3) by (metis list.collapse)
  then have "walk (set_child c m n) rest =
      (let shared = shared_prefix_count (rn_text m) rest
       in if shared = length (rn_text m)
          then let (i, p) = walk m (drop shared rest) in (shared + i, c # p) else (shared, [c]))"
    by (subst walk.simps) (simp add: hm_simps)
  moreover have "shared_prefix_count (rn_text m) rest = length (rn_text m)"
    unfolding assms(2) by (rule shared_prefix_append)
  ultimately show ?thesis using assms(2) by (simp add: Let_def)
qed

lemma latest_touch: "node_ok n \<Longrightarrow> older ts n \<Longrightarrow> latest x ts (touch x ts n)"
  by (auto simp: latest_def hm_simps node_okD older_iff [of ts n] dest: map_of_SomeD)

lemma ins_walk:
  assumes "node_ok prev" and "has_tenant tenant prev" and "latest tenant ts prev"
    and "\<forall>(c, m) \<in> set (rn_children prev). older ts m"
  shows "\<exists>p m. walk (fst (ins tenant ts rest prev counts)) rest = (length rest, p) \<and>
    node_at p (fst (ins tenant ts rest prev counts)) = Some m \<and> latest tenant ts m"
  using assms
proof (induction tenant ts rest prev counts rule: ins.induct)
  case (1 tenant ts rest prev counts)
  show ?case
  proof (cases rest)
    case Nil
    then show ?thesis using 1(4) by (simp add: ins.simps [of tenant ts "[]"] walk.simps [of prev "[]"])
  next
    case (Cons a as)
    show ?thesis
    proof (cases "hm_get (rn_children prev) a")
      case None
      let ?m = "RNode rest [(tenant, ts)] []"
      have "fst (ins tenant ts rest prev counts) = set_child a ?m prev"
        using None Cons by (subst ins.simps) simp
      moreover have "walk ?m [] = (0, [])" by (subst walk.simps) simp
      moreover have "walk (set_child a ?m prev) rest = (let (i, p) = walk ?m [] in (length (rn_text ?m) + i, a # p))"
        by (rule walk_child) (simp_all add: Cons)
      moreover have "node_at [a] (set_child a ?m prev) = Some ?m" by (simp add: hm_simps)
      moreover have "latest tenant ts ?m" by (simp add: latest_def hm_ok_def)
      ultimately show ?thesis by (intro exI [of _ "[a]"] exI [of _ ?m]) simp
    next
      case (Some m)
      let ?k = "shared_prefix_count (rn_text m) rest"
      let ?nxt = "if ?k < length (rn_text m) then split_node ?k m else m"
      let ?c1 = "if has_tenant tenant ?nxt then counts else credit tenant (length (rn_text ?nxt)) counts"
      let ?b = "fst (ins tenant ts (drop ?k rest) (touch tenant ts ?nxt) ?c1)"
      have rest: "rest \<noteq> []" "hd rest = a" using Cons by auto
      note n = next_node [OF node_okD(3) [OF 1(2) Some] rest]
      have ok: "node_ok ?nxt" "rn_text ?nxt \<noteq> []" using n(1) by (auto simp: child_ok_def)
      have "older ts m" using 1(5) Some by (auto dest: map_of_SomeD)
      then have old: "older ts ?nxt" by (auto intro: older_split)
      have t: "node_ok (touch tenant ts ?nxt)" "has_tenant tenant (touch tenant ts ?nxt)"
        "latest tenant ts (touch tenant ts ?nxt)" "\<forall>(c, m) \<in> set (rn_children (touch tenant ts ?nxt)). older ts m"
        using ok(1) old by (auto simp: node_ok_touch has_tenant_iff latest_touch older_iff [of ts ?nxt])
      obtain p q where p: "walk ?b (drop ?k rest) = (length (drop ?k rest), p)" "node_at p ?b = Some q" "latest tenant ts q"
        using 1(1) [OF Cons Some refl refl refl t] by blast
      have eq: "fst (ins tenant ts rest prev counts) = set_child a ?b prev"
        using Cons Some by (subst ins.simps) (simp add: Let_def case_prod_unfold)
      have "rn_text ?b = rn_text ?nxt" by (simp add: ins_root)
      then have "walk (set_child a ?b prev) rest =
          (let (i, p) = walk ?b (drop ?k rest) in (length (rn_text ?nxt) + i, a # p))"
        using walk_child [of ?b rest "drop ?k rest" a prev] ok(2) n(2) rest by simp
      moreover have "length rest = length (rn_text ?nxt) + length (drop ?k rest)"
        by (subst n(2)) (rule length_append)
      ultimately have "walk (set_child a ?b prev) rest = (length rest, a # p)" by (simp only: p(1) Let_def prod.case)
      moreover have "node_at (a # p) (set_child a ?b prev) = Some q" using p(2) by (simp add: hm_simps)
      ultimately show ?thesis unfolding eq using p(3) by blast
    qed
  qed
qed

fun op_time :: "tree_op \<Rightarrow> nat" where
  "op_time (Insert ts _ _) = ts"
| "op_time (PrefixMatch ts _) = ts"
| "op_time _ = 0"

lemma older_remove_loop: "older ts n \<Longrightarrow> older ts (remove_loop t q n)"
proof (induction t q n rule: remove_loop.induct)
  case (1 t q n)
  show ?case
  proof (cases q)
    case (Cons p q1)
    have "older ts (prune_at p (modify_at p (drop_tenant t) n))"
      using 1(2) by (intro older_prune older_modify older_drop)
    from 1(1) [OF Cons refl this] Cons show ?thesis by (subst remove_loop.simps) (simp add: Let_def)
  qed (use 1(2) in \<open>simp add: remove_loop.simps [of _ "[]"]\<close>)
qed

lemma older_evict_loop: "older ts (t_root t) \<Longrightarrow> older ts (t_root (evict_loop k pq t))"
proof (induction k pq t rule: evict_loop.induct)
  case (1 k pq t)
  show ?case
  proof (cases "min_by_key fst pq")
    case (Some e)
    obtain s x p where e: "e = (s, x, p)" by (cases e)
    have new: "older ts (prune_at p (modify_at p (drop_tenant x) (t_root t)))"
      using 1(3) by (intro older_prune older_modify older_drop)
    show ?thesis
      using 1(1) [OF Some e [symmetric] refl refl refl] 1(2) [OF Some e [symmetric] refl refl refl _ refl refl refl] 1(3) new
      by (subst evict_loop.simps) (simp add: Some e Let_def)
  qed (use 1(3) in \<open>subst evict_loop.simps, simp\<close>)
qed

lemma older_run: "\<forall>op \<in> set ops. op_time op < ts \<Longrightarrow> older ts (t_root (tree_run ops))"
proof -
  have step: "older ts (t_root (tree_step op t))" if "older ts (t_root t)" "op_time op < ts" for op t
    using that by (cases op)
      (auto simp: tree_insert_def tree_prefix_match_def evict_tenant_by_size_def remove_tenant_def Let_def
        case_prod_unfold intro: older_ins older_touch older_touch_path older_evict_loop older_remove_loop)
  have "\<forall>op \<in> set ops. op_time op < ts \<Longrightarrow> older ts (t_root t) \<Longrightarrow> older ts (t_root (fold tree_step ops t))" for t
    by (induction ops arbitrary: t) (simp_all add: step)
  moreover have "older ts (t_root tree_new)" by (simp add: tree_new_def)
  ultimately show "\<forall>op \<in> set ops. op_time op < ts \<Longrightarrow> ?thesis" by (simp add: tree_run_def)
qed

lemma insert_match_tenant:
  assumes "tree_ok t" and "older ts (t_root t)"
  shows "fst (tree_prefix_match ts' text1 (tree_insert ts text1 tenant t)) = (text1, tenant)"
proof -
  let ?root = "touch tenant ts (t_root t)" and ?c0 = "hm_entry tenant (\<lambda>c. c) 0 (tenant_char_count t)"
  have ok: "node_ok (t_root t)" using assms(1) by (simp add: tree_ok_def)
  have "\<exists>p m. walk (fst (ins tenant ts text1 ?root ?c0)) text1 = (length text1, p) \<and>
      node_at p (fst (ins tenant ts text1 ?root ?c0)) = Some m \<and> latest tenant ts m"
    using ok assms(2)
    by (intro ins_walk) (simp_all add: node_ok_touch has_tenant_iff latest_touch older_iff [of ts "t_root t"])
  then obtain p m where w: "walk (fst (ins tenant ts text1 ?root ?c0)) text1 = (length text1, p)"
      "node_at p (fst (ins tenant ts text1 ?root ?c0)) = Some m" "latest tenant ts m" by blast
  have "most_recent (rn_times m) = tenant"
    using w(3) unfolding latest_def by (intro most_recent_latest [of _ _ ts]) auto
  moreover have "t_root (tree_insert ts text1 tenant t) = fst (ins tenant ts text1 ?root ?c0)"
    by (simp add: tree_insert_def Let_def case_prod_unfold)
  ultimately show ?thesis using w by (simp add: tree_prefix_match_def Let_def)
qed

text \<open>
  C15. Inserting a text for a tenant adds exactly the prefixes of the text to what this tenant
  holds and nothing to the others, so a match for the text then finds all of it; and the tenant
  it names is the inserting one when the insertion is later than every earlier access.
\<close>

theorem insert_then_match:
  "(tree_holds x (tree_run (ops @ [Insert ts text1 tenant])) s \<longleftrightarrow>
      tree_holds x (tree_run ops) s \<or> x = tenant \<and> prefix s text1) \<and>
   fst (fst (tree_prefix_match ts' text1 (tree_run (ops @ [Insert ts text1 tenant])))) = text1 \<and>
   ((\<forall>op \<in> set ops. op_time op < ts) \<longrightarrow>
      snd (fst (tree_prefix_match ts' text1 (tree_run (ops @ [Insert ts text1 tenant])))) = tenant)"
proof -
  let ?t = "tree_run (ops @ [Insert ts text1 tenant])"
  have eq: "?t = tree_insert ts text1 tenant (tree_run ops)" by (simp add: tree_run_def)
  note holds = tree_insert_correct(2) [OF tree_ok_run [of ops], of _ ts text1 tenant]
  obtain w y t' where m: "tree_prefix_match ts' text1 ?t = ((w, y), t')" by (metis prod.exhaust)
  note pm = prefix_match_correct [OF tree_ok_run m]
  have "length text1 \<le> length w" by (rule pm(4) [of tenant]) (simp_all add: eq holds)
  with pm(3) have "w = text1" by (auto simp: prefix_def)
  moreover have "y = tenant" if "\<forall>op \<in> set ops. op_time op < ts"
    using insert_match_tenant [OF tree_ok_run older_run [OF that], of ts' text1 tenant] m eq by simp
  ultimately show ?thesis using m by (simp add: eq holds)
qed

theorem insert_then_match_witness:
  "fst (tree_prefix_match 4 ''apply'' (tree_run ([Insert 1 ''apple'' ''a'', PrefixMatch 2 ''ap''] @ [Insert 3 ''apply'' ''b'']))) =
     (''apply'', ''b'')"
  using insert_then_match [of "''b''" "[Insert 1 ''apple'' ''a'', PrefixMatch 2 ''ap'']" 3 "''apply''" "''b''" "[]" 4]
  by (simp add: prod_eq_iff)

text \<open>
  C16. Eviction brings every tenant down to the size limit, leaves alone the tenants that were
  within it, gives nobody a string it did not hold, and keeps every tenant known.
\<close>

theorem eviction_respects_limit:
  "(\<forall>x n. hm_get (tenant_char_count (evict_tenant_by_size max_size (tree_run ops))) x = Some n \<longrightarrow> n \<le> max_size) \<and>
   (\<forall>x n. hm_get (tenant_char_count (tree_run ops)) x = Some n \<and> n \<le> max_size \<longrightarrow>
      held x (evict_tenant_by_size max_size (tree_run ops)) = held x (tree_run ops)) \<and>
   (\<forall>x. held x (evict_tenant_by_size max_size (tree_run ops)) \<subseteq> held x (tree_run ops)) \<and>
   (\<forall>x. [] \<in> held x (tree_run ops) \<longrightarrow> [] \<in> held x (evict_tenant_by_size max_size (tree_run ops)))"
proof -
  let ?t = "tree_run ops" and ?t' = "evict_tenant_by_size max_size (tree_run ops)"
  have ok: "tree_ok ?t" by (rule tree_ok_run)
  have ev: "evicted max_size ?t ?t'" "\<And>x. chars x (t_root ?t') \<le> max_size"
    using evict_loop_correct [OF evict_entries_inv [OF ok], of max_size] by (auto simp: evict_tenant_by_size_def)
  have cnt: "hm_get (tenant_char_count t) x = Some n \<Longrightarrow> n = chars x (t_root t)" if "tree_ok t" for t x n
    using that by (auto simp: tree_ok_def split: if_splits)
  have "tree_ok ?t'" using ev(1) by (simp add: evicted_def)
  then have "n \<le> max_size" if "hm_get (tenant_char_count ?t') x = Some n" for x n
    using ev(2) [of x] cnt [of ?t' x n] that by simp
  moreover have "held x ?t' = held x ?t" if "hm_get (tenant_char_count ?t) x = Some n" "n \<le> max_size" for x n
    using ev(1) cnt [OF ok that(1)] that(2) by (simp add: evicted_def held_def)
  moreover have "held x ?t' \<subseteq> held x ?t" for x using ev(1) by (auto simp: evicted_def held_def)
  moreover have "[] \<in> held x ?t'" if "[] \<in> held x ?t" for x
    using that ev(1) by (simp add: evicted_def held_def tree_holds_def has_tenant_iff)
  ultimately show ?thesis by blast
qed

theorem eviction_respects_limit_witness:
  "hm_get (tenant_char_count (evict_tenant_by_size 5 (tree_run
      [Insert 1 ''hello'' ''a'', Insert 2 ''help'' ''a'', Insert 3 ''hi'' ''b'']))) ''a'' = Some 4 \<and>
   held ''b'' (evict_tenant_by_size 5 (tree_run
      [Insert 1 ''hello'' ''a'', Insert 2 ''help'' ''a'', Insert 3 ''hi'' ''b''])) =
   held ''b'' (tree_run [Insert 1 ''hello'' ''a'', Insert 2 ''help'' ''a'', Insert 3 ''hi'' ''b''])"
proof -
  let ?t = "tree_run [Insert 1 ''hello'' ''a'', Insert 2 ''help'' ''a'', Insert 3 ''hi'' ''b'']"
  have "hm_get (tenant_char_count ?t) ''b'' = Some 2" by code_simp
  moreover have "hm_get (tenant_char_count (evict_tenant_by_size 5 ?t)) ''a'' = Some 4" by code_simp
  ultimately show ?thesis
    using eviction_respects_limit [of 5 "[Insert 1 ''hello'' ''a'', Insert 2 ''help'' ''a'', Insert 3 ''hi'' ''b'']"]
    by fastforce
qed

text \<open>
  Removing a tenant forgets all it holds and its size, and changes nothing for the others.
\<close>

theorem removal_forgets_tenant:
  "held x (remove_tenant tenant (tree_run ops)) = (if x = tenant then {} else held x (tree_run ops)) \<and>
   hm_get (tenant_char_count (remove_tenant tenant (tree_run ops))) x =
     (if x = tenant then None else hm_get (tenant_char_count (tree_run ops)) x)"
  using remove_tenant_correct(2) [OF tree_ok_run [of ops], where tenant = tenant]
    remove_tenant_correct(3) [OF tree_ok_run [of ops], where tenant = tenant]
  by (simp add: held_def)

end
