(* ===== verification/CacheAware.thy ===== *)
theory CacheAware
  imports Policies RadixHistory "HOL-Library.Log_Nat" "HOL-Library.Multiset"
begin

text \<open>
  The cache-aware policy, \<^verbatim>\<open>policies/cache_aware.rs\<close>: a radix tree per model, routing to the
  worker with the longest matching history while the load is balanced and to the least
  loaded worker otherwise.

  \<^item> An \<^verbatim>\<open>f32\<close> is a rational with a 24 bit mantissa; \<open>f32_round\<close> rounds to the nearest one,
    ties to even. The exponent is not bounded: the values that are computed lie between
    \<open>2 ^ -64\<close> and \<open>2 ^ 64\<close> except for the product with a configured threshold, and where that
    over- or underflows the comparison with a load has the same outcome. The two thresholds
    of the configuration are finite.
  \<^item> \<open>clock i\<close> is the \<open>i\<close>-th reading of the system clock, \<open>order\<close> the iteration order of the
    map that groups the workers by model; both are part of the environment of a call.
  \<^item> A poisoned lock (\<open>ca_poisoned\<close>) is what \<^verbatim>\<open>if let Ok(..) = self.trees.lock()\<close> guards against.
  \<^item> The thread that evicts periodically performs \<open>evict_cache\<close> with the configured size.
\<close>

subsection \<open>Single precision\<close>

type_synonym f32 = rat

definition two_pow :: "int \<Rightarrow> rat" where
  "two_pow e = (if 0 \<le> e then 2 ^ nat e else 1 / 2 ^ nat (- e))"

definition round_half_even :: "rat \<Rightarrow> int" where
  "round_half_even s =
     (let fl = \<lfloor>s\<rfloor>; fr = s - of_int fl
      in if fr < 1 / 2 \<or> (fr = 1 / 2 \<and> even fl) then fl else fl + 1)"

definition exponent :: "rat \<Rightarrow> int" where
  \<comment> \<open>the binary logarithm of a positive rational, rounded down\<close>
  "exponent r =
     (let (n, d) = quotient_of r;
          k = int (floorlog 2 (nat n)) - int (floorlog 2 (nat d))
      in if r < two_pow k then k - 1 else k)"

definition f32_round :: "rat \<Rightarrow> f32" where
  "f32_round r =
     (if r = 0 then 0
      else let e = exponent \<bar>r\<bar> - 23
           in sgn r * of_int (round_half_even (\<bar>r\<bar> / two_pow e)) * two_pow e)"

definition usize_as_f32 :: "nat \<Rightarrow> f32" where
  "usize_as_f32 n = f32_round (of_nat n)"

definition f32_div :: "f32 \<Rightarrow> f32 \<Rightarrow> f32" where
  "f32_div a b = f32_round (a / b)"

definition f32_mul :: "f32 \<Rightarrow> f32 \<Rightarrow> f32" where
  "f32_mul a b = f32_round (a * b)"

lemma two_pow_pos [simp]: "0 < two_pow e"
  by (simp add: two_pow_def)

lemma two_pow_diff: "two_pow (int a - int b) = 2 ^ a / 2 ^ b"
proof (cases "b \<le> a")
  case True
  then have "nat (int a - int b) = a - b" by simp
  with True show ?thesis by (simp add: two_pow_def power_diff)
next
  case False
  then have "nat (- (int a - int b)) = b - a" by simp
  with False show ?thesis by (simp add: two_pow_def power_diff)
qed

lemma exponent_le:
  assumes "0 < r"
  shows "two_pow (exponent r) \<le> r"
proof -
  obtain n d where q: "quotient_of r = (n, d)" by (cases "quotient_of r")
  have d: "0 < d" by (rule quotient_of_denom_pos [OF q])
  have r: "r = of_int n / of_int d" by (rule quotient_of_div [OF q])
  with d assms have n: "0 < n" by (simp add: zero_less_divide_iff)
  let ?a = "floorlog 2 (nat n)" and ?b = "floorlog 2 (nat d)"
  have a: "2 ^ (?a - 1) \<le> nat n" and a0: "0 < ?a" using floorlog_bounds [of "nat n" 2] n
    by (auto simp: floorlog_def)
  have b: "nat d < 2 ^ ?b" using floorlog_bounds [of "nat d" 2] d by simp
  have "(of_nat (2 ^ (?a - 1)) :: rat) \<le> of_nat (nat n)" using a by (rule of_nat_mono)
  then have A: "(2 ^ (?a - 1) :: rat) \<le> of_int n" using n by simp
  have "(of_nat (nat d) :: rat) < of_nat (2 ^ ?b)" using b by (simp only: of_nat_less_iff)
  then have B: "(of_int d :: rat) \<le> 2 ^ ?b" using d by simp
  have "two_pow (int ?a - int ?b - 1) = two_pow (int (?a - 1) - int ?b)" using a0 by (simp add: of_nat_diff algebra_simps)
  also have "\<dots> = 2 ^ (?a - 1) / 2 ^ ?b" by (rule two_pow_diff)
  also have "\<dots> \<le> r" unfolding r using A B d n by (intro frac_le) auto
  finally show ?thesis by (simp add: exponent_def q Let_def)
qed

lemma f32_round_pos:
  assumes "0 < r"
  shows "0 < f32_round r"
proof -
  let ?e = "exponent r - 23"
  have "two_pow ?e \<le> two_pow (exponent r)"
  proof -
    obtain a b where e: "exponent r = int a - int b" by (rule int_diff_cases)
    have "two_pow ?e = two_pow (int a - int (b + 23))" unfolding e by (simp add: algebra_simps)
    also have "\<dots> = 2 ^ a / 2 ^ (b + 23)" by (rule two_pow_diff)
    also have "\<dots> \<le> 2 ^ a / 2 ^ b" by (intro divide_left_mono power_increasing) auto
    finally show ?thesis unfolding e two_pow_diff .
  qed
  then have "1 \<le> r / two_pow ?e" using exponent_le [OF assms] by (simp add: pos_le_divide_eq)
  then have "1 \<le> \<lfloor>r / two_pow ?e\<rfloor>" by simp
  moreover have "\<lfloor>r / two_pow ?e\<rfloor> \<le> round_half_even (r / two_pow ?e)" by (simp add: round_half_even_def Let_def)
  ultimately have "0 < round_half_even (r / two_pow ?e)" by linarith
  then show ?thesis using assms by (simp add: f32_round_def Let_def)
qed

lemma f32_round_1 [simp]: "f32_round 1 = 1"
  by code_simp

lemma full_match_rate: "0 < n \<Longrightarrow> f32_div (usize_as_f32 n) (usize_as_f32 n) = 1"
  using f32_round_pos [of "of_nat n"] by (simp add: f32_div_def usize_as_f32_def)

subsection \<open>The policy and its workers\<close>

record cache_aware_config =
  cache_threshold :: f32
  balance_abs_threshold :: usize
  balance_rel_threshold :: f32
  eviction_interval_secs :: u64
  max_tree_size :: nat

record cache_aware_policy =
  ca_config :: cache_aware_config
  ca_trees :: "(string, tree) hash_map"
  ca_poisoned :: bool

record ca_env =
  clock :: "nat \<Rightarrow> nat"
  order :: "(string \<times> nat list) list \<Rightarrow> (string \<times> nat list) list"

definition cache_aware_config_default :: cache_aware_config where
  "cache_aware_config_default =
     \<lparr>cache_threshold = f32_round (1 / 2), balance_abs_threshold = 32,
      balance_rel_threshold = f32_round (10001 / 10000), eviction_interval_secs = 60,
      max_tree_size = 100000\<rparr>"

definition cache_aware_with_config :: "cache_aware_config \<Rightarrow> cache_aware_policy" where
  "cache_aware_with_config cfg = \<lparr>ca_config = cfg, ca_trees = [], ca_poisoned = False\<rparr>"

definition cache_aware_new :: cache_aware_policy where
  "cache_aware_new = cache_aware_with_config cache_aware_config_default"

definition tree_key :: "string \<Rightarrow> string" where
  "tree_key model_id = (if model_id = [] \<or> model_id = ''unknown'' then ''default'' else model_id)"

definition tree_entry :: "string \<Rightarrow> (string, tree) hash_map \<Rightarrow> tree" where
  \<comment> \<open>\<^verbatim>\<open>trees.entry(key).or_insert_with(Tree::new)\<close>\<close>
  "tree_entry key trees = (case hm_get trees key of Some t \<Rightarrow> t | None \<Rightarrow> tree_new)"

definition entry_insert ::
  "nat \<Rightarrow> string \<Rightarrow> string \<Rightarrow> string \<Rightarrow> (string, tree) hash_map \<Rightarrow> (string, tree) hash_map" where
  "entry_insert ts key text1 url trees =
     hm_insert key (tree_insert ts text1 url (tree_entry key trees)) trees"

definition with_trees ::
  "((string, tree) hash_map \<Rightarrow> (string, tree) hash_map) \<Rightarrow> cache_aware_policy \<Rightarrow> cache_aware_policy" where
  \<comment> \<open>\<^verbatim>\<open>if let Ok(mut trees) = self.trees.lock()\<close>\<close>
  "with_trees f p = (if ca_poisoned p then p else p\<lparr>ca_trees := f (ca_trees p)\<rparr>)"

definition group_by_model :: "(worker \<Rightarrow> 'a) \<Rightarrow> worker list \<Rightarrow> (string, 'a list) hash_map" where
  "group_by_model f ws =
     fold (\<lambda>w. hm_entry (tree_key (w_model_id w)) (\<lambda>l. l @ [f w]) [f w]) ws []"

definition init_workers :: "nat \<Rightarrow> worker list \<Rightarrow> cache_aware_policy \<Rightarrow> cache_aware_policy" where
  "init_workers ts ws =
     with_trees (\<lambda>trees.
       fold (\<lambda>(key, urls). fold (entry_insert ts key []) urls) (group_by_model w_url ws) trees)"

definition ca_add_worker :: "nat \<Rightarrow> worker \<Rightarrow> cache_aware_policy \<Rightarrow> cache_aware_policy" where
  "ca_add_worker ts w = with_trees (entry_insert ts (tree_key (w_model_id w)) [] (w_url w))"

definition ca_add_worker_by_url :: "nat \<Rightarrow> string \<Rightarrow> string \<Rightarrow> cache_aware_policy \<Rightarrow> cache_aware_policy" where
  "ca_add_worker_by_url ts url model_id = with_trees (entry_insert ts model_id [] url)"

definition ca_remove_worker :: "worker \<Rightarrow> cache_aware_policy \<Rightarrow> cache_aware_policy" where
  "ca_remove_worker w = with_trees (hm_modify (tree_key (w_model_id w)) (remove_tenant (w_url w)))"

definition ca_remove_worker_by_url :: "string \<Rightarrow> cache_aware_policy \<Rightarrow> cache_aware_policy" where
  "ca_remove_worker_by_url url = with_trees (hm_map_values (remove_tenant url))"

definition evict_cache :: "nat \<Rightarrow> cache_aware_policy \<Rightarrow> cache_aware_policy" where
  "evict_cache max_size = with_trees (hm_map_values (evict_tenant_by_size max_size))"

definition eviction_tick :: "cache_aware_policy \<Rightarrow> cache_aware_policy" where
  \<comment> \<open>one round of the background thread\<close>
  "eviction_tick p =
     (if 0 < eviction_interval_secs (ca_config p) then evict_cache (max_tree_size (ca_config p)) p else p)"

subsection \<open>Selection\<close>

definition is_imbalanced :: "cache_aware_config \<Rightarrow> worker list \<Rightarrow> bool" where
  "is_imbalanced cfg ws =
     (let loads = map w_load ws;
          max_load = fold max loads 0;
          min_load = (case loads of [] \<Rightarrow> 0 | l # ls \<Rightarrow> fold min ls l)
      in balance_abs_threshold cfg < saturating_sub max_load min_load \<and>
         f32_mul (usize_as_f32 (unat min_load)) (balance_rel_threshold cfg) < usize_as_f32 (unat max_load))"

definition least_loaded :: "worker list \<Rightarrow> nat list \<Rightarrow> nat option" where
  "least_loaded ws idxs = min_by_key (\<lambda>i. w_load (ws ! i)) idxs"

definition group_indices :: "worker list \<Rightarrow> nat list \<Rightarrow> (string, nat list) hash_map" where
  "group_indices ws healthy =
     fold (\<lambda>i. hm_entry (tree_key (w_model_id (ws ! i))) (\<lambda>l. l @ [i]) [i]) healthy []"

definition match_rate :: "string \<Rightarrow> string \<Rightarrow> f32" where
  "match_rate matched text1 =
     (if text1 = [] then 0 else f32_div (usize_as_f32 (length matched)) (usize_as_f32 (length text1)))"

type_synonym best_match = "nat option \<times> f32"

fun best_step ::
  "(nat \<Rightarrow> nat) \<Rightarrow> worker list \<Rightarrow> string \<Rightarrow> string \<times> nat list \<Rightarrow>
   best_match \<times> (string, tree) hash_map \<times> nat \<Rightarrow> best_match \<times> (string, tree) hash_map \<times> nat" where
  "best_step clk ws text1 (model_id, idxs) ((best, rate), trees, k) =
     (let ((matched, url), t) = tree_prefix_match (clk k) text1 (tree_entry model_id trees);
          r = match_rate matched text1;
          found = (if rate < r then find (\<lambda>i. w_url (ws ! i) = url) idxs else None)
      in (case found of Some i \<Rightarrow> (Some i, r) | None \<Rightarrow> (best, rate), hm_insert model_id t trees, Suc k))"

definition tree_size :: "tree \<Rightarrow> nat" where
  "tree_size t = sum_list (hm_values (get_used_size_per_tenant t))"

fun smallest_step :: "(string, tree) hash_map \<Rightarrow> string \<Rightarrow> string \<times> nat \<Rightarrow> string \<times> nat" where
  "smallest_step trees model_id (model, size1) =
     (if tree_size (tree_entry model_id trees) < size1
      then (model_id, tree_size (tree_entry model_id trees)) else (model, size1))"

definition cache_miss :: "worker list \<Rightarrow> nat list \<Rightarrow> (string \<times> nat list) list \<Rightarrow> (string, tree) hash_map \<Rightarrow> nat" where
  "cache_miss ws healthy models trees =
     (let smallest = fst (fold (smallest_step trees) (map fst models) ([], 2 ^ 64 - 1))
      in case hm_get models smallest of
           Some idxs \<Rightarrow> (case least_loaded ws idxs of Some i \<Rightarrow> i | None \<Rightarrow> healthy ! 0)
         | None \<Rightarrow> healthy ! 0)"

definition cache_aware_select ::
  "worker list \<Rightarrow> string option \<Rightarrow> request_headers option \<Rightarrow> cache_aware_policy \<times> ca_env \<Rightarrow>
   nat option \<times> cache_aware_policy \<times> ca_env" where
  "cache_aware_select ws req hdrs pe =
     (let (p, env) = pe; healthy = get_healthy_worker_indices ws; clk = clock env in
      if healthy = [] then (None, pe)
      else if is_imbalanced (ca_config p) ws then
        (case least_loaded ws healthy of
           None \<Rightarrow> (None, pe)
         | Some i \<Rightarrow>
             (case req of
                None \<Rightarrow> (Some i, pe)
              | Some text1 \<Rightarrow>
                  (Some i,
                   with_trees (entry_insert (clk 0) (tree_key (w_model_id (ws ! i))) text1 (w_url (ws ! i))) p,
                   env\<lparr>clock := \<lambda>j. clk (Suc j)\<rparr>)))
      else if ca_poisoned p then (Some (healthy ! 0), pe)
      else
        let text1 = (case req of Some s \<Rightarrow> s | None \<Rightarrow> []);
            models = order env (group_indices ws healthy);
            ((best, rate), trees, k) = fold (best_step clk ws text1) models ((None, 0), ca_trees p, 0);
            hit = (cache_threshold (ca_config p) < rate);
            trees1 = (if hit \<and> best \<noteq> None then trees
                      else fold (\<lambda>m ts. hm_insert m (tree_entry m ts) ts) (map fst models) trees);
            i = (case best of Some b \<Rightarrow> if hit then b else cache_miss ws healthy models trees
                 | None \<Rightarrow> cache_miss ws healthy models trees)
        in (Some i,
            p\<lparr>ca_trees := entry_insert (clk k) (tree_key (w_model_id (ws ! i))) text1 (w_url (ws ! i)) trees1\<rparr>,
            env\<lparr>clock := \<lambda>j. clk (Suc (k + j))\<rparr>))"

definition cache_aware_select_pair ::
  "worker list \<Rightarrow> worker list \<Rightarrow> string option \<Rightarrow> request_headers option \<Rightarrow> cache_aware_policy \<times> ca_env \<Rightarrow>
   (nat \<times> nat) option \<times> cache_aware_policy \<times> ca_env" where
  "cache_aware_select_pair prefill decode req hdrs pe =
     (case cache_aware_select prefill req hdrs pe of
        (None, pe1) \<Rightarrow> (None, pe1)
      | (Some i, pe1) \<Rightarrow>
          (case least_loaded decode (get_healthy_worker_indices decode) of
             None \<Rightarrow> (None, pe1)
           | Some j \<Rightarrow> (Some (i, j), pe1)))"

subsection \<open>The policy keeps the contract\<close>

definition env_ok :: "cache_aware_policy \<times> ca_env \<Rightarrow> bool" where
  \<comment> \<open>an iteration order lists the entries of the map, each once\<close>
  "env_ok pe \<longleftrightarrow> (\<forall>m. mset (order (snd pe) m) = mset m)"

lemma update_all:
  "\<forall>(k, v) \<in> set m. P v \<Longrightarrow> P v' \<Longrightarrow> \<forall>(k, v) \<in> set (hm_insert k' v' m). P v"
  by (induction m) auto

lemma group_indices_subset:
  "(key, idxs) \<in> set (group_indices ws healthy) \<Longrightarrow> set idxs \<subseteq> set healthy \<and> idxs \<noteq> []"
proof -
  have "\<forall>(key, idxs) \<in> set m. set idxs \<subseteq> S \<and> idxs \<noteq> [] \<Longrightarrow> set healthy \<subseteq> S \<Longrightarrow>
    \<forall>(key, idxs) \<in> set (fold (\<lambda>i. hm_entry (tree_key (w_model_id (ws ! i))) (\<lambda>l. l @ [i]) [i]) healthy m).
      set idxs \<subseteq> S \<and> idxs \<noteq> []" for m S
  proof (induction healthy arbitrary: m)
    case (Cons i js)
    let ?k = "tree_key (w_model_id (ws ! i))"
    let ?v = "case hm_get m ?k of Some l \<Rightarrow> l @ [i] | None \<Rightarrow> [i]"
    have "set ?v \<subseteq> S \<and> ?v \<noteq> []"
      using Cons.prems by (cases "hm_get m ?k") (auto dest: map_of_SomeD)
    from update_all [OF Cons.prems(1) this]
    have "\<forall>(key, idxs) \<in> set (hm_entry ?k (\<lambda>l. l @ [i]) [i] m). set idxs \<subseteq> S \<and> idxs \<noteq> []"
      unfolding hm_entry_def .
    with Cons show ?case by simp
  qed simp
  from this [of "[]" "set healthy"] show "(key, idxs) \<in> set (group_indices ws healthy) \<Longrightarrow> ?thesis"
    unfolding group_indices_def by auto
qed

lemma best_fold_in:
  assumes "\<forall>(key, idxs) \<in> set models. set idxs \<subseteq> S" and "\<forall>i. best = Some i \<longrightarrow> i \<in> S"
  shows "fst (fst (fold (best_step clk ws text1) models ((best, rate), trees, k))) = Some i \<Longrightarrow> i \<in> S"
  using assms
proof (induction models arbitrary: best rate trees k)
  case (Cons m models)
  obtain model_id idxs where m: "m = (model_id, idxs)" by (cases m)
  obtain best' rate' trees' k' where st: "best_step clk ws text1 m ((best, rate), trees, k) = ((best', rate'), trees', k')"
    by (metis prod.exhaust)
  have "\<forall>i. best' = Some i \<longrightarrow> i \<in> S"
    using st Cons.prems(2,3)
    by (auto simp: m Let_def case_prod_unfold split: if_splits option.splits dest!: find_SomeD)
  with Cons.IH [of best' rate' trees' k'] Cons.prems st show ?case by simp
qed simp

lemma least_loaded_in: "least_loaded ws idxs = Some i \<Longrightarrow> i \<in> set idxs"
  unfolding least_loaded_def by (rule min_by_key_in)

lemma cache_miss_in:
  assumes "healthy \<noteq> []" and "\<forall>(key, idxs) \<in> set models. set idxs \<subseteq> set healthy"
  shows "cache_miss ws healthy models trees \<in> set healthy"
  using assms
  by (auto simp: cache_miss_def Let_def split: option.split dest!: least_loaded_in map_of_SomeD)

lemma cache_aware_result:
  assumes "env_ok pe" and "get_healthy_worker_indices ws \<noteq> []"
  shows "\<exists>i \<in> set (get_healthy_worker_indices ws). fst (cache_aware_select ws req hdrs pe) = Some i"
proof -
  let ?h = "get_healthy_worker_indices ws"
  obtain p env where pe: "pe = (p, env)" by (cases pe)
  let ?text = "case req of Some s \<Rightarrow> s | None \<Rightarrow> []"
  let ?models = "order env (group_indices ws ?h)"
  have "mset ?models = mset (group_indices ws ?h)" using assms(1) pe by (simp add: env_ok_def)
  then have "set ?models = set (group_indices ws ?h)" by (rule mset_eq_setD)
  then have sub: "\<forall>(key, idxs) \<in> set ?models. set idxs \<subseteq> set ?h" using group_indices_subset [of _ _ ws ?h] by blast
  obtain best rate trees k where f: "fold (best_step (clock env) ws ?text) ?models ((None, 0), ca_trees p, 0) =
      ((best, rate), trees, k)" by (metis prod.exhaust)
  have best: "i \<in> set ?h" if "best = Some i" for i
    using best_fold_in [OF sub, of None "clock env" ws ?text 0 "ca_trees p" 0 i] f that by simp
  obtain j where j: "least_loaded ws ?h = Some j" using assms(2)
    by (cases "least_loaded ws ?h") (simp_all add: least_loaded_def)
  show ?thesis
    using assms(2) f best cache_miss_in [OF assms(2) sub] least_loaded_in [OF j] j
    unfolding cache_aware_select_def pe
    by (auto simp: Let_def split: option.splits)
qed

lemma cache_aware_none:
  "get_healthy_worker_indices ws = [] \<Longrightarrow> cache_aware_select ws req hdrs pe = (None, pe)"
  by (simp add: cache_aware_select_def Let_def case_prod_unfold)

lemma cache_aware_env: "order (snd (snd (cache_aware_select ws req hdrs pe))) = order (snd pe)"
  by (auto simp: cache_aware_select_def Let_def case_prod_unfold split: option.split)

interpretation ca: lb_policy cache_aware_select env_ok
proof
  fix pe ws req hdrs i
  assume ok: "env_ok pe"
  note result = cache_aware_result [OF ok, of ws req hdrs] cache_aware_none [of ws req hdrs pe]
  show "fst (cache_aware_select ws req hdrs pe) = None \<longleftrightarrow> (\<forall>w \<in> set ws. \<not> available w)"
    using result healthy_indices_Nil [of ws] by (metis fst_conv option.distinct(1))
  show "env_ok (snd (cache_aware_select ws req hdrs pe))"
    using ok by (simp add: env_ok_def cache_aware_env)
  assume i: "fst (cache_aware_select ws req hdrs pe) = Some i"
  then have "i \<in> set (get_healthy_worker_indices ws)"
    using result by (metis fst_conv option.distinct(1) option.inject)
  then show "i < length ws \<and> available (ws ! i)" by (simp add: set_healthy_indices)
qed

subsection \<open>Policies in use\<close>

inductive ca_reachable :: "nat \<Rightarrow> cache_aware_policy \<Rightarrow> bool" where
  \<comment> \<open>the policies that operations before a point in time lead to\<close>
  created: "ca_reachable ts (cache_aware_with_config cfg)"
| init: "ca_reachable ts p \<Longrightarrow> t < ts' \<Longrightarrow> ts \<le> ts' \<Longrightarrow> ca_reachable ts' (init_workers t ws p)"
| add: "ca_reachable ts p \<Longrightarrow> t < ts' \<Longrightarrow> ts \<le> ts' \<Longrightarrow> ca_reachable ts' (ca_add_worker t w p)"
| add_by_url: "ca_reachable ts p \<Longrightarrow> t < ts' \<Longrightarrow> ts \<le> ts' \<Longrightarrow>
    ca_reachable ts' (ca_add_worker_by_url t url model_id p)"
| remove: "ca_reachable ts p \<Longrightarrow> ca_reachable ts (ca_remove_worker w p)"
| remove_by_url: "ca_reachable ts p \<Longrightarrow> ca_reachable ts (ca_remove_worker_by_url url p)"
| evict: "ca_reachable ts p \<Longrightarrow> ca_reachable ts (evict_cache n p)"
| tick: "ca_reachable ts p \<Longrightarrow> ca_reachable ts (eviction_tick p)"
| select: "ca_reachable ts p \<Longrightarrow> ts \<le> ts' \<Longrightarrow> \<forall>i \<le> length ws. clock env i < ts' \<Longrightarrow> env_ok (p, env) \<Longrightarrow>
    ca_reachable ts' (fst (snd (cache_aware_select ws req hdrs (p, env))))"

definition trees_ok :: "nat \<Rightarrow> (string, tree) hash_map \<Rightarrow> bool" where
  "trees_ok ts trees \<longleftrightarrow> (\<forall>key t. hm_get trees key = Some t \<longrightarrow> tree_ok t \<and> older ts (t_root t))"

lemma older_mono: "older ts n \<Longrightarrow> ts \<le> ts' \<Longrightarrow> older ts' n"
  by (induction n) (fastforce simp: list_all_iff)

lemma trees_ok_mono: "trees_ok ts trees \<Longrightarrow> ts \<le> ts' \<Longrightarrow> trees_ok ts' trees"
  unfolding trees_ok_def using older_mono by blast

lemma tree_entry_ok: "trees_ok ts trees \<Longrightarrow> tree_ok (tree_entry key trees) \<and> older ts (t_root (tree_entry key trees))"
  by (auto simp: trees_ok_def tree_entry_def tree_ok_new split: option.split) (simp add: tree_new_def)

lemma trees_ok_insert: "trees_ok ts trees \<Longrightarrow> tree_ok t \<Longrightarrow> older ts (t_root t) \<Longrightarrow> trees_ok ts (hm_insert key t trees)"
  by (simp add: trees_ok_def hm_simps)

lemma older_insert: "older ts (t_root t) \<Longrightarrow> t1 < ts \<Longrightarrow> older ts (t_root (tree_insert t1 text1 url t))"
  by (auto simp: tree_insert_def Let_def case_prod_unfold intro: older_ins older_touch)

lemma trees_ok_entry_insert:
  "trees_ok ts trees \<Longrightarrow> t1 < ts \<Longrightarrow> trees_ok ts (entry_insert t1 key text1 url trees)"
  using tree_entry_ok [of ts trees key]
  by (auto simp: entry_insert_def intro!: trees_ok_insert tree_insert_correct(1) older_insert)

lemma trees_ok_map:
  assumes "trees_ok ts trees" and "\<And>t. tree_ok t \<Longrightarrow> tree_ok (f t)"
    and "\<And>t. older ts (t_root t) \<Longrightarrow> older ts (t_root (f t))"
  shows "trees_ok ts (hm_map_values f trees)" and "trees_ok ts (hm_modify key f trees)"
  using assms by (auto simp: trees_ok_def hm_simps split: if_splits)

lemma older_ops:
  "older ts (t_root t) \<Longrightarrow> older ts (t_root (remove_tenant url t))"
  "older ts (t_root t) \<Longrightarrow> older ts (t_root (evict_tenant_by_size n t))"
  "older ts (t_root t) \<Longrightarrow> t1 < ts \<Longrightarrow> older ts (t_root (snd (tree_prefix_match t1 text1 t)))"
  by (auto simp: remove_tenant_def evict_tenant_by_size_def tree_prefix_match_def Let_def case_prod_unfold
      intro: older_remove_loop older_evict_loop older_touch_path)

lemma tree_ok_ops:
  "tree_ok t \<Longrightarrow> tree_ok (remove_tenant url t)"
  "tree_ok t \<Longrightarrow> tree_ok (evict_tenant_by_size n t)"
  "tree_ok t \<Longrightarrow> tree_ok (snd (tree_prefix_match t1 text1 t))"
  using tree_ok_step [of t "Remove url"] tree_ok_step [of t "Evict n"] tree_ok_step [of t "PrefixMatch t1 text1"]
  by simp_all

lemma trees_ok_best_step:
  assumes "trees_ok ts trees" and "clk k < ts"
    and "best_step clk ws text1 m ((best, rate), trees, k) = (b, trees', k')"
  shows "trees_ok ts trees' \<and> k' = Suc k"
proof -
  obtain model_id idxs where m: "m = (model_id, idxs)" by (cases m)
  let ?t = "tree_entry model_id trees"
  have "trees' = hm_insert model_id (snd (tree_prefix_match (clk k) text1 ?t)) trees" "k' = Suc k"
    using assms(3) by (auto simp: m Let_def case_prod_unfold)
  with tree_entry_ok [OF assms(1), of model_id] assms(1,2) show ?thesis
    by (auto intro!: trees_ok_insert tree_ok_ops older_ops)
qed

lemma trees_ok_best_fold:
  "trees_ok ts trees \<Longrightarrow> \<forall>i < k + length models. clk i < ts \<Longrightarrow>
   fold (best_step clk ws text1) models ((best, rate), trees, k) = (b, trees', k') \<Longrightarrow>
   trees_ok ts trees' \<and> k' = k + length models"
proof (induction models arbitrary: best rate trees k)
  case (Cons m models)
  obtain best1 rate1 trees1 k1 where st: "best_step clk ws text1 m ((best, rate), trees, k) = ((best1, rate1), trees1, k1)"
    by (metis prod.exhaust)
  from trees_ok_best_step [OF Cons.prems(1) _ st] Cons.prems(2) have "trees_ok ts trees1" "k1 = Suc k" by auto
  with Cons.IH [of trees1 k1 best1 rate1] Cons.prems st show ?case by simp
qed simp

lemma trees_ok_fill:
  "trees_ok ts trees \<Longrightarrow> trees_ok ts (fold (\<lambda>m ts. hm_insert m (tree_entry m ts) ts) ms trees)"
proof (induction ms arbitrary: trees)
  case (Cons m ms)
  have "trees_ok ts (hm_insert m (tree_entry m trees) trees)"
    using tree_entry_ok [OF Cons.prems, of m] by (intro trees_ok_insert [OF Cons.prems]) auto
  with Cons.IH show ?case by simp
qed simp

lemma tree_entry_fill:
  "tree_entry key (fold (\<lambda>m ts. hm_insert m (tree_entry m ts) ts) ms trees) = tree_entry key trees"
proof (induction ms arbitrary: trees)
  case (Cons m ms)
  have "tree_entry key (hm_insert m (tree_entry m trees) trees) = tree_entry key trees"
    by (simp add: tree_entry_def hm_simps)
  with Cons show ?case by simp
qed simp

lemma length_group: "length (group_indices ws healthy) \<le> length healthy"
proof -
  have "length (fold (\<lambda>i. hm_entry (f i) (\<lambda>l. l @ [i]) [i]) healthy m) \<le> length m + length healthy"
    for m :: "(string, nat list) hash_map" and f
  proof (induction healthy arbitrary: m)
    case (Cons i js)
    have "length (hm_entry (f i) (\<lambda>l. l @ [i]) [i] m) \<le> Suc (length m)"
      unfolding hm_entry_def by (induction m) auto
    with Cons [of "hm_entry (f i) (\<lambda>l. l @ [i]) [i] m"] show ?case by simp
  qed simp
  from this [of _ "[]"] show ?thesis by (simp add: group_indices_def)
qed

lemma select_trees_ok:
  assumes "trees_ok ts (ca_trees p)" and "\<forall>i \<le> length ws. clock env i < ts" and "env_ok (p, env)"
  shows "trees_ok ts (ca_trees (fst (snd (cache_aware_select ws req hdrs (p, env)))))"
proof -
  let ?h = "get_healthy_worker_indices ws" and ?text = "case req of Some s \<Rightarrow> s | None \<Rightarrow> []"
  let ?models = "order env (group_indices ws ?h)"
  have "length ?h \<le> length ws"
    unfolding get_healthy_worker_indices_def by (simp add: length_filter_le [THEN order_trans])
  moreover have "mset ?models = mset (group_indices ws ?h)" using assms(3) by (simp add: env_ok_def)
  then have "length ?models = length (group_indices ws ?h)" by (rule mset_eq_length)
  ultimately have len: "length ?models \<le> length ws" using length_group [of ws ?h] by simp
  obtain best rate trees k where f: "fold (best_step (clock env) ws ?text) ?models ((None, 0), ca_trees p, 0) =
      ((best, rate), trees, k)" by (metis prod.exhaust)
  have tr: "trees_ok ts trees" "k = length ?models"
    using trees_ok_best_fold [OF assms(1) _ f] assms(2) len by auto
  have "clock env k < ts" "clock env 0 < ts" using assms(2) tr(2) len by auto
  with assms(1) tr(1) trees_ok_fill [OF tr(1)] f show ?thesis
    unfolding cache_aware_select_def
    by (auto simp: Let_def with_trees_def trees_ok_entry_insert split: option.split)
qed

lemma trees_ok_with: "trees_ok ts (ca_trees p) \<Longrightarrow> (\<And>tr. trees_ok ts tr \<Longrightarrow> trees_ok ts (f tr)) \<Longrightarrow>
    trees_ok ts (ca_trees (with_trees f p))"
  by (simp add: with_trees_def)

lemma trees_ok_fold: "trees_ok ts tr \<Longrightarrow> (\<And>x tr. trees_ok ts tr \<Longrightarrow> trees_ok ts (f x tr)) \<Longrightarrow> trees_ok ts (fold f xs tr)"
  by (induction xs arbitrary: tr) auto

lemma reachable_trees_ok: "ca_reachable ts p \<Longrightarrow> trees_ok ts (ca_trees p)"
proof (induction rule: ca_reachable.induct)
  case (created ts cfg)
  then show ?case by (simp add: cache_aware_with_config_def trees_ok_def)
next
  case (init ts p t ts' ws)
  then show ?case unfolding init_workers_def
    by (intro trees_ok_with) (auto intro: trees_ok_mono intro!: trees_ok_fold trees_ok_entry_insert)
next
  case (add ts p t ts' w)
  then show ?case unfolding ca_add_worker_def
    by (intro trees_ok_with trees_ok_entry_insert) (auto intro: trees_ok_mono)
next
  case (add_by_url ts p t ts' url model_id)
  then show ?case unfolding ca_add_worker_by_url_def
    by (intro trees_ok_with trees_ok_entry_insert) (auto intro: trees_ok_mono)
next
  case (remove ts p w)
  then show ?case unfolding ca_remove_worker_def
    by (intro trees_ok_with trees_ok_map) (auto intro: tree_ok_ops older_ops)
next
  case (remove_by_url ts p url)
  then show ?case unfolding ca_remove_worker_by_url_def
    by (intro trees_ok_with trees_ok_map) (auto intro: tree_ok_ops older_ops)
next
  case (evict ts p n)
  then show ?case unfolding evict_cache_def
    by (intro trees_ok_with trees_ok_map) (auto intro: tree_ok_ops older_ops)
next
  case (tick ts p)
  then show ?case unfolding eviction_tick_def evict_cache_def
    by (auto intro!: trees_ok_with trees_ok_map intro: tree_ok_ops older_ops)
next
  case (select ts p ts' ws env req hdrs)
  then show ?case by (intro select_trees_ok) (auto intro: trees_ok_mono)
qed

lemma group_single:
  assumes "healthy \<noteq> []" and "\<forall>i \<in> set healthy. tree_key (w_model_id (ws ! i)) = key"
  shows "group_indices ws healthy = [(key, healthy)]"
proof -
  have "fold (\<lambda>i. hm_entry (tree_key (w_model_id (ws ! i))) (\<lambda>l. l @ [i]) [i]) js [(key, l)] = [(key, l @ js)]"
    if "\<forall>i \<in> set js. tree_key (w_model_id (ws ! i)) = key" for js l
    using that by (induction js arbitrary: l) (simp_all add: hm_entry_def)
  with assms show ?thesis unfolding group_indices_def by (cases healthy) (simp_all add: hm_entry_def)
qed

lemma order_single: "env_ok (p, env) \<Longrightarrow> order env [x] = [x]"
  by (simp add: env_ok_def) (metis mset_single_iff_right mset.simps(1,2))

lemma tree_entry_insert [simp]:
  "tree_entry key (entry_insert ts key text1 url trees) = tree_insert ts text1 url (tree_entry key trees)"
  by (simp add: entry_insert_def tree_entry_def hm_simps)

lemma select_records:
  assumes env: "env_ok (p, env)" and old: "trees_ok (clock env 0) (ca_trees p)" "clock env 0 < clock env 1"
    and lock: "\<not> ca_poisoned p" and one: "\<forall>w \<in> set ws. available w \<longrightarrow> tree_key (w_model_id w) = key"
    and sel: "cache_aware_select ws (Some text1) hdrs (p, env) = (Some i, p1, env1)"
  shows "\<exists>ts t. tree_entry key (ca_trees p1) = tree_insert ts text1 (w_url (ws ! i)) t \<and> tree_ok t \<and> older ts (t_root t)"
    and "\<not> ca_poisoned p1" and "ca_config p1 = ca_config p"
proof -
  let ?h = "get_healthy_worker_indices ws" and ?clk = "clock env"
  have i: "i < length ws" "available (ws ! i)" using ca.select_Some [OF env, of ws "Some text1" hdrs i] sel by auto
  then have key: "tree_key (w_model_id (ws ! i)) = key" using one by simp
  have ne: "?h \<noteq> []" using sel cache_aware_none [of ws "Some text1" hdrs "(p, env)"] by auto
  have models: "order env (group_indices ws ?h) = [(key, ?h)]"
    using order_single [OF env] group_single [OF ne, of ws key] one set_healthy_indices [of ws] by auto
  have "(\<exists>ts t. tree_entry key (ca_trees p1) = tree_insert ts text1 (w_url (ws ! i)) t \<and> tree_ok t \<and> older ts (t_root t)) \<and>
      \<not> ca_poisoned p1 \<and> ca_config p1 = ca_config p"
  proof (cases "is_imbalanced (ca_config p) ws")
    case True
    then have "p1 = with_trees (entry_insert (?clk 0) key text1 (w_url (ws ! i))) p"
      using sel ne key by (auto simp: cache_aware_select_def Let_def split: option.splits)
    with tree_entry_ok [OF old(1), of key] lock show ?thesis by (auto simp: with_trees_def)
  next
    case False
    obtain best rate trees k where f: "best_step ?clk ws text1 (key, ?h) ((None, 0), ca_trees p, 0) = ((best, rate), trees, k)"
      by (metis prod.exhaust)
    have tr: "trees_ok (?clk 1) trees" "k = 1"
      using trees_ok_best_step [OF trees_ok_mono [OF old(1)] old(2) f] old(2) by auto
    obtain trees1 where trees1: "tree_entry key trees1 = tree_entry key trees"
      and p1: "p1 = p\<lparr>ca_trees := entry_insert (?clk 1) key text1 (w_url (ws ! i)) trees1\<rparr>"
    proof (cases "cache_threshold (ca_config p) < rate \<and> best \<noteq> None")
      case True
      then show ?thesis
        using that [of trees] sel ne key False lock models f tr(2)
        by (auto simp: cache_aware_select_def Let_def)
    next
      case hit: False
      let ?trees1 = "fold (\<lambda>m ts. hm_insert m (tree_entry m ts) ts) [key] trees"
      have "p1 = p\<lparr>ca_trees := entry_insert (?clk 1) key text1 (w_url (ws ! i)) ?trees1\<rparr>"
        using sel ne key False lock models f tr(2) hit
        by (auto simp: cache_aware_select_def Let_def split: option.splits if_splits)
      then show ?thesis using that [of ?trees1] tree_entry_fill [of key "[key]" trees] by simp
    qed
    with tree_entry_ok [OF tr(1), of key] lock show ?thesis by auto
  qed
  then show "\<exists>ts t. tree_entry key (ca_trees p1) = tree_insert ts text1 (w_url (ws ! i)) t \<and> tree_ok t \<and> older ts (t_root t)"
    "\<not> ca_poisoned p1" "ca_config p1 = ca_config p" by blast+
qed


abbreviation demo_env :: ca_env where
  "demo_env \<equiv> \<lparr>clock = \<lambda>i. i, order = \<lambda>m. m\<rparr>"

abbreviation demo_pair :: "worker list" where
  "demo_pair \<equiv> [basic_worker_new ''a'', basic_worker_new ''b'']"

lemma demo_available: "\<forall>w \<in> set demo_pair. available w \<and> tree_key (w_model_id w) = ''default''"
  by (simp add: basic_worker_new_def basic_worker_with_model_def available_def tree_key_def)

abbreviation demo_policy :: cache_aware_policy where
  "demo_policy \<equiv> cache_aware_with_config (cache_aware_config_default\<lparr>cache_threshold := 1 / 2\<rparr>)"

lemma demo_balanced:
  "\<not> is_imbalanced (ca_config demo_policy) (increment_load (basic_worker_new ''b'') # demo_pair)"
  by (simp add: is_imbalanced_def cache_aware_with_config_def cache_aware_config_default_def increment_load_def
      basic_worker_new_def basic_worker_with_model_def saturating_sub_def Let_def)


end
