(* ===== verification/TensorWire.thy ===== *)
theory TensorWire
  imports RustStr "HOL-Library.Sublist"
begin

text \<open>
  Tensor messages and their two wire formats: the packed HTTP/2 body of \<^verbatim>\<open>actor/traits.rs\<close>
  (\<^verbatim>\<open>encode_wire\<close>, \<^verbatim>\<open>decode_wire\<close>) and the frames of the raw TCP data plane of
  \<^verbatim>\<open>transport/tensor.rs\<close>. A byte is an \<open>8 word\<close>, a buffer a list of bytes, a length a natural
  number whose additions and products are checked against \<open>2 ^ 64\<close> where the code checks them
  (\<^verbatim>\<open>usize\<close> has 64 bits, so that \<^verbatim>\<open>usize::try_from\<close> of a \<^verbatim>\<open>u64\<close> never fails). The limits come from
  the environment of the process. The writer of a socket accepts any positive part of what it
  is offered, a reader delivers the bytes in order.
\<close>

type_synonym byte = "8 word"
type_synonym bytes = "byte list"

subsection \<open>Little-endian numbers, checked lengths, slices\<close>

fun le_bytes :: "nat \<Rightarrow> nat \<Rightarrow> bytes" where
  "le_bytes 0 x = []"
| "le_bytes (Suc n) x = of_nat x # le_bytes n (x div 256)"

fun le_nat :: "bytes \<Rightarrow> nat" where
  "le_nat [] = 0"
| "le_nat (b # bs) = unat b + 256 * le_nat bs"

definition usize_add :: "nat \<Rightarrow> nat \<Rightarrow> nat option" where
  "usize_add a b = (if a + b < 2 ^ 64 then Some (a + b) else None)"

definition usize_mul :: "nat \<Rightarrow> nat \<Rightarrow> nat option" where
  "usize_mul a b = (if a * b < 2 ^ 64 then Some (a * b) else None)"

fun add_all :: "nat \<Rightarrow> nat list \<Rightarrow> nat option" where
  \<comment> \<open>\<^verbatim>\<open>try_fold(n, |acc, x| acc.checked_add(x))\<close>\<close>
  "add_all n [] = Some n"
| "add_all n (x # xs) = (case usize_add n x of None \<Rightarrow> None | Some m \<Rightarrow> add_all m xs)"

definition slice :: "'a list \<Rightarrow> nat \<Rightarrow> nat \<Rightarrow> 'a list" where
  "slice xs a b = take (b - a) (drop a xs)"

fun cut :: "nat list \<Rightarrow> 'a list \<Rightarrow> 'a list list" where
  \<comment> \<open>consecutive slices of the given lengths\<close>
  "cut [] xs = []"
| "cut (n # ns) xs = take n xs # cut ns (drop n xs)"

lemma length_le_bytes [simp]: "length (le_bytes n x) = n"
  by (induction n arbitrary: x) auto

lemma unat_of_nat_byte: "unat (of_nat x :: byte) = x mod 256"
  by (simp add: unat_of_nat)

lemma le_nat_bytes: "le_nat (le_bytes n x) = x mod 256 ^ n"
proof (induction n arbitrary: x)
  case (Suc n)
  then show ?case by (simp add: unat_of_nat_byte mod_mult2_eq)
qed simp

lemma le_nat_bytes_id: "x < 256 ^ n \<Longrightarrow> le_nat (le_bytes n x) = x"
  by (simp add: le_nat_bytes)

lemma le_bytes_nat: "le_bytes (length bs) (le_nat bs) = bs"
proof (induction bs)
  case (Cons b bs)
  have "unat b < 256" using unsigned_less [of b] by simp
  then have "(unat b + 256 * le_nat bs) div 256 = le_nat bs" by simp
  moreover have "(of_nat (unat b + 256 * le_nat bs) :: byte) = b"
    unfolding word_unat_eq_iff unat_of_nat_byte using \<open>unat b < 256\<close> by simp
  ultimately show ?case using Cons by simp
qed simp

lemma le_nat_less: "le_nat bs < 256 ^ length bs"
proof (induction bs)
  case (Cons b bs)
  have "unat b < 256" using unsigned_less [of b] by simp
  with Cons show ?case by simp
qed simp

lemma add_all_Some: "add_all n xs = Some m \<longleftrightarrow> m = n + sum_list xs \<and> (xs = [] \<or> m < 2 ^ 64)"
proof (induction xs arbitrary: n)
  case (Cons x xs)
  show ?case
  proof (cases "n + x < 2 ^ 64")
    case True
    then show ?thesis using Cons [of "n + x"] by (auto simp: usize_add_def)
  qed (auto simp: usize_add_def)
qed auto

lemma add_all_eq: "add_all n xs = (if xs = [] \<or> n + sum_list xs < 2 ^ 64 then Some (n + sum_list xs) else None)"
proof (cases "add_all n xs")
  case None
  then show ?thesis using add_all_Some [of n xs "n + sum_list xs"] by simp
next
  case (Some m)
  then show ?thesis using add_all_Some [of n xs m] by auto
qed

lemma cut_concat [simp]: "cut (map length xss) (concat xss @ r) = xss"
  by (induction xss) auto

lemma cut_concat' [simp]: "cut (map length xss) (concat xss) = xss"
  using cut_concat [of xss "[]"] by simp

lemma concat_cut: "sum_list ns \<le> length xs \<Longrightarrow> concat (cut ns xs) = take (sum_list ns) xs"
proof (induction ns arbitrary: xs)
  case (Cons n ns)
  then show ?case by (simp add: take_add)
qed simp

lemma length_cut [simp]: "length (cut ns xs) = length ns"
  by (induction ns arbitrary: xs) auto

lemma map_length_cut: "sum_list ns \<le> length xs \<Longrightarrow> map length (cut ns xs) = ns"
  by (induction ns arbitrary: xs) auto

subsection \<open>Limits\<close>

record tensor_limits =
  max_tensor_wire_bytes :: nat
  max_tensor_metadata_bytes :: nat
  max_tensor_buffers :: nat

definition tensor_env_limit :: "(string \<Rightarrow> string option) \<Rightarrow> string \<Rightarrow> nat \<Rightarrow> nat" where
  "tensor_env_limit env name dflt =
     (case env name of
        None \<Rightarrow> dflt
      | Some s \<Rightarrow> (case parse_uint (2 ^ 64) s of Some n \<Rightarrow> n | None \<Rightarrow> dflt))"

definition tensor_limits_of :: "(string \<Rightarrow> string option) \<Rightarrow> tensor_limits" where
  "tensor_limits_of env =
     \<lparr>max_tensor_wire_bytes = tensor_env_limit env ''PULSING_MAX_TENSOR_WIRE_BYTES'' (64 * 1024 * 1024 * 1024),
      max_tensor_metadata_bytes = tensor_env_limit env ''PULSING_MAX_TENSOR_METADATA_BYTES'' (64 * 1024 * 1024),
      max_tensor_buffers = tensor_env_limit env ''PULSING_MAX_TENSOR_BUFFERS'' 65536\<rparr>"

subsection \<open>Messages\<close>

datatype tensor_buffer_origin = Borrowed | PackedWire | OwnedReceive

record tensor_message =
  tm_version :: u32
  tm_metadata :: bytes
  tm_buffers :: "bytes list"
  tm_origin :: tensor_buffer_origin

datatype wire_error =
    BufferCountLimit nat nat
  | MetadataLimit nat nat
  | TooManyBuffers
  | HeaderOverflow
  | PayloadOverflow
  | WireLimit nat nat
  | ReceiveLimit string
  | Malformed string
  | Protocol string

definition tensor_new :: "u32 \<Rightarrow> bytes \<Rightarrow> bytes list \<Rightarrow> tensor_message" where
  "tensor_new v md bufs = \<lparr>tm_version = v, tm_metadata = md, tm_buffers = bufs, tm_origin = Borrowed\<rparr>"

definition from_owned_receive ::
  "tensor_limits \<Rightarrow> u32 \<Rightarrow> bytes \<Rightarrow> bytes list \<Rightarrow> wire_error + tensor_message" where
  "from_owned_receive lim v md bufs =
     (if length md > max_tensor_metadata_bytes lim
      then Inl (ReceiveLimit ''TensorMessage metadata exceeds configured maximum'')
      else if length bufs > max_tensor_buffers lim
      then Inl (ReceiveLimit ''TensorMessage buffer count exceeds configured maximum'')
      else if (case add_all (length md) (map length bufs) of
                 Some t \<Rightarrow> t > max_tensor_wire_bytes lim | None \<Rightarrow> True)
      then Inl (ReceiveLimit ''TensorMessage payload exceeds configured maximum'')
      else Inr \<lparr>tm_version = v, tm_metadata = md, tm_buffers = bufs, tm_origin = OwnedReceive\<rparr>)"

definition requires_owned_receive_copy :: "tensor_message \<Rightarrow> bool" where
  "requires_owned_receive_copy m = (tm_origin m = PackedWire)"

definition owns_receive_buffers :: "tensor_message \<Rightarrow> bool" where
  "owns_receive_buffers m = (tm_origin m = OwnedReceive)"

definition total_bytes :: "tensor_message \<Rightarrow> nat" where
  "total_bytes m = sum_list (map length (tm_buffers m))"

subsection \<open>The packed wire format\<close>

definition TENSOR_WIRE_MAGIC :: bytes where
  "TENSOR_WIRE_MAGIC = [80, 84, 77, 49]"

definition TENSOR_WIRE_FIXED_HEADER :: nat where
  "TENSOR_WIRE_FIXED_HEADER = 4 + 4 + 8 + 4"

definition encode_wire :: "tensor_limits \<Rightarrow> tensor_message \<Rightarrow> wire_error + bytes" where
  "encode_wire lim m =
     (let bufs = tm_buffers m; md = tm_metadata m in
      if length bufs > max_tensor_buffers lim then Inl (BufferCountLimit (length bufs) (max_tensor_buffers lim))
      else if length md > max_tensor_metadata_bytes lim
      then Inl (MetadataLimit (length md) (max_tensor_metadata_bytes lim))
      else if \<not> length bufs < 2 ^ 32 then Inl TooManyBuffers
      else case usize_mul (length bufs) 8 of
        None \<Rightarrow> Inl HeaderOverflow
      | Some lengths_bytes \<Rightarrow>
          (case Option.bind (usize_add TENSOR_WIRE_FIXED_HEADER lengths_bytes)
                  (\<lambda>n. Option.bind (usize_add n (length md)) (\<lambda>n. add_all n (map length bufs))) of
             None \<Rightarrow> Inl PayloadOverflow
           | Some total_len \<Rightarrow>
               if total_len > max_tensor_wire_bytes lim
               then Inl (WireLimit total_len (max_tensor_wire_bytes lim))
               else Inr (TENSOR_WIRE_MAGIC @ le_bytes 4 (unat (tm_version m)) @ le_bytes 8 (length md) @
                         le_bytes 4 (length bufs) @ concat (map (\<lambda>b. le_bytes 8 (length b)) bufs) @
                         md @ concat bufs)))"

definition table_lengths :: "nat \<Rightarrow> bytes \<Rightarrow> nat list" where
  "table_lengths n s = map le_nat (cut (replicate n 8) s)"

definition decode_wire :: "tensor_limits \<Rightarrow> bytes \<Rightarrow> wire_error + tensor_message" where
  "decode_wire lim wire =
     (if length wire > max_tensor_wire_bytes lim then Inl (Malformed ''wire size exceeds configured maximum'')
      else if length wire < TENSOR_WIRE_FIXED_HEADER then Inl (Malformed ''header is truncated'')
      else if take 4 wire \<noteq> TENSOR_WIRE_MAGIC then Inl (Malformed ''invalid magic'')
      else
        let version = of_nat (le_nat (slice wire 4 8));
            metadata_len = le_nat (slice wire 8 16);
            buffer_count = le_nat (slice wire 16 20) in
        if buffer_count > max_tensor_buffers lim then Inl (Malformed ''buffer count exceeds configured maximum'')
        else if metadata_len > max_tensor_metadata_bytes lim
        then Inl (Malformed ''metadata size exceeds configured maximum'')
        else case usize_mul buffer_count 8 of
          None \<Rightarrow> Inl (Malformed ''buffer count overflow'')
        | Some lengths_bytes \<Rightarrow>
            (case usize_add TENSOR_WIRE_FIXED_HEADER lengths_bytes of
               None \<Rightarrow> Inl (Malformed ''header size overflow'')
             | Some payload_start \<Rightarrow>
                 if payload_start > length wire then Inl (Malformed ''buffer length table is truncated'')
                 else
                   let lengths = table_lengths buffer_count (drop TENSOR_WIRE_FIXED_HEADER wire) in
                   (case add_all metadata_len lengths of
                      None \<Rightarrow> Inl (Malformed ''payload size overflow'')
                    | Some total_payload \<Rightarrow>
                        (case usize_add payload_start total_payload of
                           None \<Rightarrow> Inl (Malformed ''message size overflow'')
                         | Some expected_len \<Rightarrow>
                             if expected_len \<noteq> length wire
                             then Inl (Malformed (if expected_len > length wire
                                    then ''payload is truncated'' else ''payload has trailing bytes''))
                             else
                               let metadata_end = payload_start + metadata_len
                               in Inr \<lparr>tm_version = version,
                                       tm_metadata = slice wire payload_start metadata_end,
                                       tm_buffers = cut lengths (drop metadata_end wire),
                                       tm_origin = PackedWire\<rparr>))))"

subsection \<open>The format is a bijection\<close>

definition wire_of :: "u32 \<Rightarrow> bytes \<Rightarrow> bytes list \<Rightarrow> bytes" where
  "wire_of v md bufs =
     TENSOR_WIRE_MAGIC @ le_bytes 4 (unat v) @ le_bytes 8 (length md) @ le_bytes 4 (length bufs) @
     concat (map (\<lambda>b. le_bytes 8 (length b)) bufs) @ md @ concat bufs"

definition wire_fits :: "tensor_limits \<Rightarrow> bytes \<Rightarrow> bytes list \<Rightarrow> bool" where
  "wire_fits lim md bufs \<longleftrightarrow>
     length bufs \<le> max_tensor_buffers lim \<and> length md \<le> max_tensor_metadata_bytes lim \<and>
     length bufs < 2 ^ 32 \<and> 20 + 8 * length bufs + length md + length (concat bufs) < 2 ^ 64 \<and>
     20 + 8 * length bufs + length md + length (concat bufs) \<le> max_tensor_wire_bytes lim"

lemma length_table: "length (concat (map (\<lambda>b. le_bytes 8 (f b)) bs)) = 8 * length bs"
  by (induction bs) auto

lemma length_wire_of: "length (wire_of v md bufs) = 20 + 8 * length bufs + length md + length (concat bufs)"
  by (simp add: wire_of_def TENSOR_WIRE_MAGIC_def length_table)

lemma encode_iff:
  "encode_wire lim m = Inr w \<longleftrightarrow>
     wire_fits lim (tm_metadata m) (tm_buffers m) \<and> w = wire_of (tm_version m) (tm_metadata m) (tm_buffers m)"
proof -
  let ?bufs = "tm_buffers m" and ?md = "tm_metadata m"
  let ?t = "20 + 8 * length ?bufs + length ?md + length (concat ?bufs)"
  let ?sum = "Option.bind (usize_add TENSOR_WIRE_FIXED_HEADER (length ?bufs * 8))
      (\<lambda>n. Option.bind (usize_add n (length ?md)) (\<lambda>n. add_all n (map length ?bufs)))"
  have sum: "?sum = (if ?t < 2 ^ 64 then Some ?t else None)"
  proof (cases "20 + length ?bufs * 8 < 2 ^ 64 \<and> 20 + length ?bufs * 8 + length ?md < 2 ^ 64")
    case True
    let ?n = "20 + length ?bufs * 8 + length ?md"
    have "?sum = add_all ?n (map length ?bufs)" using True by (simp add: usize_add_def TENSOR_WIRE_FIXED_HEADER_def)
    moreover have "add_all ?n (map length ?bufs) = (if ?t < 2 ^ 64 then Some ?t else None)"
      using True by (auto simp: add_all_eq length_concat)
    ultimately show ?thesis by simp
  qed (auto simp: usize_add_def TENSOR_WIRE_FIXED_HEADER_def)
  show ?thesis
  proof (cases "length ?bufs \<le> max_tensor_buffers lim \<and> length ?md \<le> max_tensor_metadata_bytes lim \<and> length ?bufs < 2 ^ 32")
    case True
    then have "usize_mul (length ?bufs) 8 = Some (length ?bufs * 8)" by (simp add: usize_mul_def)
    with True sum show ?thesis
      by (auto simp: encode_wire_def wire_fits_def wire_of_def Let_def not_le)
  next
    case False
    then show ?thesis by (auto simp: encode_wire_def wire_fits_def Let_def not_le)
  qed
qed

lemma slice_append:
  "length a = i \<Longrightarrow> length b = j - i \<Longrightarrow> slice (a @ b @ r) i j = b"
  by (simp add: slice_def)

lemma table_lengths_table:
  assumes "\<forall>b \<in> set bufs. length b < 2 ^ 64"
  shows "table_lengths (length bufs) (concat (map (\<lambda>b. le_bytes 8 (length b)) bufs) @ r) = map length bufs"
proof -
  have eq: "map length (map (\<lambda>b. le_bytes 8 (length b)) bufs) = replicate (length bufs) 8"
    by (induction bufs) auto
  have "cut (replicate (length bufs) 8) (concat (map (\<lambda>b. le_bytes 8 (length b)) bufs) @ r) =
      map (\<lambda>b. le_bytes 8 (length b)) bufs"
    unfolding eq [symmetric] by (rule cut_concat)
  then show ?thesis using assms by (simp add: table_lengths_def le_nat_bytes_id)
qed

lemma header_parts:
  assumes "w = a @ b @ c @ d @ r" and "length a = 4" and "length b = 4" and "length c = 8" and "length d = 4"
  shows "take 4 w = a" and "slice w 4 8 = b" and "slice w 8 16 = c" and "slice w 16 20 = d" and "drop 20 w = r"
  using assms by (simp_all add: slice_def)

lemma decode_wire_of:
  assumes "wire_fits lim md bufs"
  shows "decode_wire lim (wire_of v md bufs) =
    Inr \<lparr>tm_version = v, tm_metadata = md, tm_buffers = bufs, tm_origin = PackedWire\<rparr>"
proof -
  let ?w = "wire_of v md bufs" and ?table = "concat (map (\<lambda>b. le_bytes 8 (length b)) bufs)"
  have fits: "length bufs \<le> max_tensor_buffers lim" "length md \<le> max_tensor_metadata_bytes lim"
    "length bufs < 2 ^ 32" "20 + 8 * length bufs + length md + length (concat bufs) < 2 ^ 64"
    "length ?w \<le> max_tensor_wire_bytes lim"
    using assms by (simp_all add: wire_fits_def length_wire_of)
  have w: "?w = TENSOR_WIRE_MAGIC @ le_bytes 4 (unat v) @ le_bytes 8 (length md) @ le_bytes 4 (length bufs) @
      (?table @ md @ concat bufs)"
    by (simp add: wire_of_def)
  have magic: "length TENSOR_WIRE_MAGIC = 4" by (simp add: TENSOR_WIRE_MAGIC_def)
  note h = header_parts [OF w magic length_le_bytes length_le_bytes length_le_bytes]
  have "unat v < 256 ^ 4" using unsigned_less [of v] by simp
  then have num: "le_nat (slice ?w 4 8) = unat v" "le_nat (slice ?w 8 16) = length md" "le_nat (slice ?w 16 20) = length bufs"
    using fits unfolding h by (simp_all add: le_nat_bytes_id)
  have small: "\<forall>b \<in> set bufs. length b < 2 ^ 64"
  proof
    fix b assume "b \<in> set bufs"
    then have "length b \<le> length (concat bufs)" unfolding length_concat by (intro member_le_sum_list) auto
    with fits(4) show "length b < 2 ^ 64" by linarith
  qed
  have lens: "table_lengths (length bufs) (drop 20 ?w) = map length bufs"
    unfolding h by (rule table_lengths_table [OF small])
  have "drop (20 + length bufs * 8) ?w = md @ concat bufs"
  proof -
    have "drop (20 + length bufs * 8) ?w = drop (length bufs * 8) (drop 20 ?w)" by (simp add: add.commute)
    then show ?thesis unfolding h(5) using length_table [of length bufs] by simp
  qed
  then have "slice ?w (20 + length bufs * 8) (20 + length bufs * 8 + length md) = md"
    and "drop (20 + length bufs * 8 + length md) ?w = concat bufs"
    by (simp_all add: slice_def) (metis add.commute append_eq_conv_conj drop_drop)
  moreover have "add_all (length md) (map length bufs) = Some (length md + length (concat bufs))"
    using fits(4) by (simp add: add_all_Some length_concat)
  ultimately show ?thesis
    using fits num lens h(1)
    by (simp add: decode_wire_def TENSOR_WIRE_FIXED_HEADER_def usize_mul_def usize_add_def length_wire_of Let_def
        mult.commute add.assoc)
qed

lemma slices_join:
  "i \<le> j \<Longrightarrow> j \<le> length w \<Longrightarrow> drop i w = slice w i j @ drop j w"
  by (simp add: slice_def) (metis add.commute append_take_drop_id drop_drop le_add_diff_inverse2)

lemma le_bytes_slice: "j = i + n \<Longrightarrow> j \<le> length w \<Longrightarrow> le_bytes n (le_nat (slice w i j)) = slice w i j"
  using le_bytes_nat [of "slice w i j"] by (simp add: slice_def)

lemma table_rebuilt:
  assumes "8 * n \<le> length s"
  shows "concat (map (le_bytes 8) (table_lengths n s)) = take (8 * n) s"
proof -
  have sum: "sum_list (replicate n 8) = 8 * n" by (simp add: sum_list_replicate)
  have "length x = 8" if "x \<in> set (cut (replicate n 8) s)" for x
    using map_length_cut [of "replicate n 8" s] assms sum that by (metis in_set_replicate list.set_map image_eqI)
  then have "map (le_bytes 8) (map le_nat (cut (replicate n 8) s)) = cut (replicate n 8) s"
    using le_bytes_nat by (metis (no_types, lifting) list.map_comp comp_apply map_idI)
  then show ?thesis using concat_cut [of "replicate n 8" s] assms sum by (simp add: table_lengths_def)
qed

lemma decode_rebuilds:
  assumes "decode_wire lim w = Inr m"
  shows "wire_fits lim (tm_metadata m) (tm_buffers m) \<and>
    w = wire_of (tm_version m) (tm_metadata m) (tm_buffers m) \<and> tm_origin m = PackedWire"
proof -
  let ?ml = "le_nat (slice w 8 16)" and ?bc = "le_nat (slice w 16 20)"
  let ?lens = "table_lengths ?bc (drop 20 w)" and ?ps = "20 + ?bc * 8"
  have hdr: "length w \<le> max_tensor_wire_bytes lim" "20 \<le> length w" "take 4 w = TENSOR_WIRE_MAGIC"
    "?bc \<le> max_tensor_buffers lim" "?ml \<le> max_tensor_metadata_bytes lim" "?ps \<le> length w"
    and len: "?ps + (?ml + sum_list ?lens) = length w" "length w < 2 ^ 64"
    and m: "m = \<lparr>tm_version = of_nat (le_nat (slice w 4 8)), tm_metadata = slice w ?ps (?ps + ?ml),
      tm_buffers = cut ?lens (drop (?ps + ?ml) w), tm_origin = PackedWire\<rparr>"
    using assms unfolding decode_wire_def TENSOR_WIRE_FIXED_HEADER_def usize_mul_def usize_add_def
    by (auto simp: Let_def add_all_Some split: option.splits if_splits)
  have lens_n: "length ?lens = ?bc" by (simp add: table_lengths_def)
  have md: "length (tm_metadata m) = ?ml" using len m by (simp add: slice_def)
  have sum: "sum_list ?lens = length (drop (?ps + ?ml) w)" using len by simp
  have bufs: "map length (tm_buffers m) = ?lens" "concat (tm_buffers m) = drop (?ps + ?ml) w" "length (tm_buffers m) = ?bc"
    using map_length_cut [of ?lens "drop (?ps + ?ml) w"] concat_cut [of ?lens "drop (?ps + ?ml) w"] sum m lens_n by simp_all
  have bc: "?bc < 2 ^ 32" using le_nat_less [of "slice w 16 20"] hdr(2) by (simp add: slice_def)
  have tot: "length w = 20 + 8 * length (tm_buffers m) + length (tm_metadata m) + length (concat (tm_buffers m))"
    using len md bufs sum by simp
  have fits: "wire_fits lim (tm_metadata m) (tm_buffers m)"
    unfolding wire_fits_def tot [symmetric] using hdr len(2) md bufs(3) bc by simp
  have "le_nat (slice w 4 8) < 2 ^ 32" using le_nat_less [of "slice w 4 8"] hdr(2) by (simp add: slice_def)
  then have ver: "unat (tm_version m) = le_nat (slice w 4 8)" using m by (simp add: unat_of_nat)
  have table: "concat (map (\<lambda>b. le_bytes 8 (length b)) (tm_buffers m)) = slice w 20 ?ps"
  proof -
    have "map (\<lambda>b. le_bytes 8 (length b)) (tm_buffers m) = map (le_bytes 8) ?lens"
      unfolding bufs(1) [symmetric] by simp
    then show ?thesis using table_rebuilt [of ?bc "drop 20 w"] hdr(6) by (simp add: slice_def mult.commute)
  qed
  have "wire_of (tm_version m) (tm_metadata m) (tm_buffers m) =
      take 4 w @ slice w 4 8 @ slice w 8 16 @ slice w 16 20 @ slice w 20 ?ps @ slice w ?ps (?ps + ?ml) @ drop (?ps + ?ml) w"
    unfolding wire_of_def hdr(3) ver md bufs(2,3) table
    using hdr(2) m by (simp add: le_bytes_slice)
  also have "\<dots> = take 4 w @ drop 4 w"
    using hdr(2,6) len(1) by (simp flip: slices_join)
  also have "\<dots> = w" by simp
  finally show ?thesis using fits m by simp
qed

lemma fits_small: "wire_fits lim md bufs \<Longrightarrow> \<forall>b \<in> set bufs. length b < 2 ^ 64"
proof
  fix b assume fits: "wire_fits lim md bufs" and "b \<in> set bufs"
  then have "length b \<le> length (concat bufs)" unfolding length_concat by (intro member_le_sum_list) auto
  with fits show "length b < 2 ^ 64" unfolding wire_fits_def by linarith
qed

lemma wire_prefix_free:
  assumes fits: "wire_fits lim md bufs" "wire_fits lim md' bufs'"
    and eq: "wire_of v' md' bufs' = wire_of v md bufs @ x"
  shows "x = []"
proof -
  have magic: "length TENSOR_WIRE_MAGIC = 4" by (simp add: TENSOR_WIRE_MAGIC_def)
  let ?table = "\<lambda>bs. concat (map (\<lambda>b. le_bytes 8 (length (b :: bytes))) bs)"
  have w: "wire_of v md bufs @ x = TENSOR_WIRE_MAGIC @ le_bytes 4 (unat v) @ le_bytes 8 (length md) @
      le_bytes 4 (length bufs) @ (?table bufs @ md @ concat bufs @ x)"
    and w': "wire_of v' md' bufs' = TENSOR_WIRE_MAGIC @ le_bytes 4 (unat v') @ le_bytes 8 (length md') @
      le_bytes 4 (length bufs') @ (?table bufs' @ md' @ concat bufs')"
    by (simp_all add: wire_of_def)
  note h = header_parts [OF w magic length_le_bytes length_le_bytes length_le_bytes]
  note h' = header_parts [OF w' magic length_le_bytes length_le_bytes length_le_bytes, unfolded eq]
  have "length md < 256 ^ 8" "length md' < 256 ^ 8" "length bufs < 256 ^ 4" "length bufs' < 256 ^ 4"
    using fits by (auto simp: wire_fits_def)
  then have md: "length md = length md'" and n: "length bufs = length bufs'"
    using h(3,4) h'(3,4) by (metis le_nat_bytes_id)+
  have "map length bufs = map length bufs'"
    using table_lengths_table [OF fits_small [OF fits(1)], of "md @ concat bufs @ x"]
      table_lengths_table [OF fits_small [OF fits(2)], of "md' @ concat bufs'"] h(5) h'(5) n by simp
  then have "length (wire_of v md bufs) = length (wire_of v' md' bufs')"
    using md n by (simp add: length_wire_of length_concat)
  with eq show ?thesis by simp
qed

lemma decode_error: "decode_wire lim w = Inl e \<Longrightarrow> \<exists>r. e = Malformed r"
  by (auto simp: decode_wire_def Let_def split: if_splits option.splits)

lemma le_bytes_numeral:
  "le_bytes (numeral k) x = of_nat x # le_bytes (pred_numeral k) (x div 256)"
  by (subst numeral_eq_Suc) (rule le_bytes.simps)

abbreviation demo_limits :: tensor_limits where
  "demo_limits \<equiv> tensor_limits_of (\<lambda>_. None)"

abbreviation demo_wire :: bytes where
  "demo_wire \<equiv> [80, 84, 77, 49, 1, 0, 0, 0, 1, 0, 0, 0, 0, 0, 0, 0, 1, 0, 0, 0, 2, 0, 0, 0, 0, 0, 0, 0, 9, 7, 8]"

lemma demo_encoded: "encode_wire demo_limits (tensor_new 1 [9] [[7, 8]]) = Inr demo_wire"
  by (simp add: encode_iff wire_fits_def wire_of_def tensor_new_def tensor_limits_of_def tensor_env_limit_def
      TENSOR_WIRE_MAGIC_def le_bytes_numeral)

text \<open>
  C38. The packed format is a bijection between the messages within the limits and the accepted
  bodies: what is encoded decodes to the same version, metadata and buffers, and a body that is
  accepted is, byte for byte, the encoding of what it decodes to.
\<close>

theorem tensor_wire_bijective:
  "(encode_wire lim m = Inr w \<longrightarrow> decode_wire lim w = Inr (m\<lparr>tm_origin := PackedWire\<rparr>)) \<and>
   (decode_wire lim w = Inr m \<longrightarrow> encode_wire lim m = Inr w \<and> tm_origin m = PackedWire)"
proof (intro conjI impI)
  assume "encode_wire lim m = Inr w"
  then show "decode_wire lim w = Inr (m\<lparr>tm_origin := PackedWire\<rparr>)"
    using decode_wire_of [of lim "tm_metadata m" "tm_buffers m" "tm_version m"] by (cases m) (simp add: encode_iff)
next
  assume "decode_wire lim w = Inr m"
  from decode_rebuilds [OF this] show "encode_wire lim m = Inr w" "tm_origin m = PackedWire"
    by (simp_all add: encode_iff)
qed

theorem tensor_wire_bijective_witness:
  "decode_wire demo_limits demo_wire = Inr (tensor_new 1 [9] [[7, 8]]\<lparr>tm_origin := PackedWire\<rparr>)"
  using tensor_wire_bijective [of demo_limits "tensor_new 1 [9] [[7, 8]]" demo_wire] demo_encoded by blast

text \<open>
  A body that has lost bytes at its end or gained bytes after it is rejected as malformed,
  whatever the bytes are: no part or extension of an encoding passes for another message.
\<close>

theorem wire_length_checked:
  assumes "encode_wire lim m = Inr w"
  shows "(\<forall>n < length w. \<exists>r. decode_wire lim (take n w) = Inl (Malformed r)) \<and>
    (\<forall>x. x \<noteq> [] \<longrightarrow> (\<exists>r. decode_wire lim (w @ x) = Inl (Malformed r)))"
proof (intro conjI allI impI)
  have fits: "wire_fits lim (tm_metadata m) (tm_buffers m)"
    and w: "w = wire_of (tm_version m) (tm_metadata m) (tm_buffers m)" using assms by (simp_all add: encode_iff)
  show "\<exists>r. decode_wire lim (take n w) = Inl (Malformed r)" if "n < length w" for n
  proof (cases "decode_wire lim (take n w)")
    case (Inr m')
    note r = decode_rebuilds [OF Inr]
    have "w = take n w @ drop n w" by simp
    then have "drop n w = []"
      using wire_prefix_free [of lim "tm_metadata m'" "tm_buffers m'" "tm_metadata m" "tm_buffers m"
          "tm_version m" "tm_version m'" "drop n w"] r fits w by metis
    with that show ?thesis by simp
  qed (use decode_error in blast)
  show "\<exists>r. decode_wire lim (w @ x) = Inl (Malformed r)" if "x \<noteq> []" for x
  proof (cases "decode_wire lim (w @ x)")
    case (Inr m')
    note r = decode_rebuilds [OF Inr]
    then have "x = []"
      using wire_prefix_free [of lim "tm_metadata m" "tm_buffers m" "tm_metadata m'" "tm_buffers m'"
          "tm_version m'" "tm_version m" x] fits w by metis
    with that show ?thesis by simp
  qed (use decode_error in blast)
qed

end
