(* ===== verification/TensorRaw.thy ===== *)
theory TensorRaw
  imports TensorWire
begin

text \<open>
  The raw TCP data plane of \<^verbatim>\<open>transport/tensor.rs\<close>: frames written with vectored writes and read
  back from a byte stream, and the counters of the transport. A \<^verbatim>\<open>&str\<close> path is its UTF-8 bytes,
  \<open>utf8_valid\<close> is what \<^verbatim>\<open>String::from_utf8\<close> accepts. The socket is an argument: \<open>wr i n\<close> is the
  result of the \<open>i\<close>-th \<^verbatim>\<open>write_vectored\<close> call when \<open>n\<close> bytes are offered.
\<close>

subsection \<open>UTF-8\<close>

definition cont :: "byte \<Rightarrow> bool" where
  "cont b \<longleftrightarrow> 0x80 \<le> b \<and> b \<le> 0xBF"

fun utf8_valid :: "bytes \<Rightarrow> bool" where
  "utf8_valid [] = True"
| "utf8_valid (a # r) =
     (if a \<le> 0x7F then utf8_valid r
      else case r of
        [] \<Rightarrow> False
      | b # r1 \<Rightarrow>
          if 0xC2 \<le> a \<and> a \<le> 0xDF then cont b \<and> utf8_valid r1
          else (case r1 of
            [] \<Rightarrow> False
          | c # r2 \<Rightarrow>
              if 0xE0 \<le> a \<and> a \<le> 0xEF
              then (if a = 0xE0 then 0xA0 \<le> b \<and> b \<le> 0xBF
                    else if a = 0xED then 0x80 \<le> b \<and> b \<le> 0x9F else cont b) \<and> cont c \<and> utf8_valid r2
              else (case r2 of
                [] \<Rightarrow> False
              | d # r3 \<Rightarrow>
                  0xF0 \<le> a \<and> a \<le> 0xF4 \<and>
                  (if a = 0xF0 then 0x90 \<le> b \<and> b \<le> 0xBF
                   else if a = 0xF4 then 0x80 \<le> b \<and> b \<le> 0x8F else cont b) \<and>
                  cont c \<and> cont d \<and> utf8_valid r3)))"

subsection \<open>Frames and counters\<close>

datatype raw_tensor_kind = Ask | Tell | TensorResponse | Ack | RawError | SingleResponse

fun kind_byte :: "raw_tensor_kind \<Rightarrow> byte" where
  "kind_byte Ask = 1"
| "kind_byte Tell = 2"
| "kind_byte TensorResponse = 3"
| "kind_byte Ack = 4"
| "kind_byte RawError = 5"
| "kind_byte SingleResponse = 6"

definition kind_try_from :: "byte \<Rightarrow> wire_error + raw_tensor_kind" where
  "kind_try_from b =
     (if b = 1 then Inr Ask else if b = 2 then Inr Tell else if b = 3 then Inr TensorResponse
      else if b = 4 then Inr Ack else if b = 5 then Inr RawError else if b = 6 then Inr SingleResponse
      else Inl (Protocol (''unknown raw tensor frame kind '' @ nat_to_dec (unat b))))"

record raw_tensor_frame =
  rf_kind :: raw_tensor_kind
  rf_path :: bytes
  rf_message :: tensor_message

record raw_counters =
  frames_sent :: u64
  frames_received :: u64
  bytes_sent :: u64
  bytes_received :: u64
  http2_fallback_frames :: u64
  http2_fallback_bytes :: u64
  last_copy_model :: u64
  raw_connections_accepted :: u64

definition active_copy_model :: "raw_counters \<Rightarrow> string" where
  "active_copy_model c =
     (if last_copy_model c = 1 then ''direct_tcp''
      else if last_copy_model c = 2 then ''packed_http2_compatibility'' else ''unused'')"

definition record_tensor_http2_fallback :: "nat \<Rightarrow> raw_counters \<Rightarrow> raw_counters" where
  "record_tensor_http2_fallback n c =
     c\<lparr>http2_fallback_frames := http2_fallback_frames c + 1,
       http2_fallback_bytes := http2_fallback_bytes c + of_nat n, last_copy_model := 2\<rparr>"

definition record_raw_tensor_connection :: "raw_counters \<Rightarrow> raw_counters" where
  "record_raw_tensor_connection c = c\<lparr>raw_connections_accepted := raw_connections_accepted c + 1\<rparr>"

definition count_sent :: "nat \<Rightarrow> raw_counters \<Rightarrow> raw_counters" where
  "count_sent n c =
     c\<lparr>frames_sent := frames_sent c + 1, bytes_sent := bytes_sent c + of_nat n, last_copy_model := 1\<rparr>"

definition count_received :: "nat \<Rightarrow> raw_counters \<Rightarrow> raw_counters" where
  "count_received n c =
     c\<lparr>frames_received := frames_received c + 1, bytes_received := bytes_received c + of_nat n\<rparr>"

definition RAW_TENSOR_MAGIC :: bytes where
  "RAW_TENSOR_MAGIC = [80, 84, 82, 49]"

definition RAW_FIXED_HEADER_LEN :: nat where
  "RAW_FIXED_HEADER_LEN = 4 + 1 + 3 + 4 + 4 + 8 + 4"

definition MAX_RAW_PATH_BYTES :: nat where
  "MAX_RAW_PATH_BYTES = 64 * 1024"

definition MAX_VECTORED_SLICES :: nat where
  "MAX_VECTORED_SLICES = 64"

subsection \<open>Writing\<close>

datatype io_write = Wrote nat | WriteError string

type_synonym writer = "nat \<Rightarrow> nat \<Rightarrow> io_write"

fun advance_slices :: "nat \<Rightarrow> bytes list \<Rightarrow> bytes list" where
  \<comment> \<open>\<^verbatim>\<open>IoSlice::advance_slices\<close>\<close>
  "advance_slices n [] = []"
| "advance_slices n (s # ss) =
     (if length s \<le> n then advance_slices (n - length s) ss else drop n s # ss)"

lemma advance_size:
  "0 < n \<Longrightarrow> ss \<noteq> [] \<Longrightarrow>
   length (concat (advance_slices n ss)) + length (advance_slices n ss) < length (concat ss) + length ss"
proof (induction ss arbitrary: n)
  case (Cons s ss)
  have "length (concat (advance_slices m ss)) + length (advance_slices m ss) \<le> length (concat ss) + length ss" for m
  proof (cases "0 < m \<and> ss \<noteq> []")
    case False
    then have "m = 0 \<or> ss = []" by auto
    moreover have "length (concat (advance_slices 0 xs)) + length (advance_slices 0 xs) \<le> length (concat xs) + length xs"
      for xs :: "bytes list" by (induction xs) auto
    ultimately show ?thesis by auto
  qed (use Cons.IH [of m] in auto)
  from this [of "n - length s"] show ?case using Cons.prems by auto
qed simp

function write_all_vectored :: "writer \<Rightarrow> nat \<Rightarrow> bytes \<Rightarrow> bytes list \<Rightarrow> bytes \<times> nat \<times> (wire_error + unit)" where
  \<comment> \<open>the bytes that reached the socket, the number of the next write, the result\<close>
  "write_all_vectored wr i out ss =
     (if ss = [] then (out, i, Inr ())
      else let batch = concat (take MAX_VECTORED_SLICES ss) in
        (case wr i (length batch) of
           WriteError e \<Rightarrow> (out, Suc i, Inl (Protocol e))
         | Wrote n \<Rightarrow>
             if n = 0 then (out, Suc i, Inl (Protocol ''failed to write tensor frame''))
             else write_all_vectored wr (Suc i) (out @ take n batch) (advance_slices n ss)))"
  by pat_completeness auto
termination
  by (relation "measure (\<lambda>(_, _, _, ss). length (concat ss) + length ss)") (auto intro!: advance_size)

declare write_all_vectored.simps [simp del]

definition raw_total :: "nat \<Rightarrow> nat \<Rightarrow> nat list \<Rightarrow> wire_error + nat" where
  \<comment> \<open>the checked size of a frame\<close>
  "raw_total path_len metadata_len lens =
     (case usize_mul (length lens) 8 of
        None \<Rightarrow> Inl (Protocol ''length table overflow'')
      | Some lengths_bytes \<Rightarrow>
          (case Option.bind (usize_add RAW_FIXED_HEADER_LEN lengths_bytes)
                  (\<lambda>n. Option.bind (usize_add n path_len)
                  (\<lambda>n. Option.bind (usize_add n metadata_len) (\<lambda>n. add_all n lens))) of
             None \<Rightarrow> Inl (Protocol ''frame size overflow'')
           | Some t \<Rightarrow> Inr t))"

definition raw_header :: "raw_tensor_kind \<Rightarrow> bytes \<Rightarrow> tensor_message \<Rightarrow> bytes" where
  "raw_header k path m =
     RAW_TENSOR_MAGIC @ [kind_byte k] @ [0, 0, 0] @ le_bytes 4 (unat (tm_version m)) @
     le_bytes 4 (length path) @ le_bytes 8 (length (tm_metadata m)) @ le_bytes 4 (length (tm_buffers m)) @
     concat (map (\<lambda>b. le_bytes 8 (length b)) (tm_buffers m))"

definition raw_slices :: "raw_tensor_kind \<Rightarrow> bytes \<Rightarrow> tensor_message \<Rightarrow> bytes list" where
  "raw_slices k path m =
     [raw_header k path m] @ (if path \<noteq> [] then [path] else []) @
     (if tm_metadata m \<noteq> [] then [tm_metadata m] else []) @ filter (\<lambda>b. b \<noteq> []) (tm_buffers m)"

definition write_raw_tensor_frame ::
  "tensor_limits \<Rightarrow> writer \<Rightarrow> string option \<Rightarrow> raw_tensor_kind \<Rightarrow> bytes \<Rightarrow> tensor_message \<Rightarrow>
   nat \<times> bytes \<times> raw_counters \<Rightarrow> (wire_error + unit) \<times> nat \<times> bytes \<times> raw_counters" where
  \<comment> \<open>\<open>fl\<close> is the error of the flush, if it has one\<close>
  "write_raw_tensor_frame lim wr fl k path m st =
     (let (i, out, c) = st; md = tm_metadata m; bufs = tm_buffers m in
      if length path > MAX_RAW_PATH_BYTES then (Inl (Protocol ''actor path is too large''), st)
      else if length md > max_tensor_metadata_bytes lim
      then (Inl (Protocol ''metadata exceeds configured maximum''), st)
      else if length bufs > max_tensor_buffers lim
      then (Inl (Protocol ''buffer count exceeds configured maximum''), st)
      else case raw_total (length path) (length md) (map length bufs) of
        Inl e \<Rightarrow> (Inl e, st)
      | Inr t \<Rightarrow>
          if t > max_tensor_wire_bytes lim then (Inl (Protocol ''frame exceeds configured maximum''), st)
          else
            (case write_all_vectored wr i out (raw_slices k path m) of
               (out', j, Inl e) \<Rightarrow> (Inl e, j, out', c)
             | (out', j, Inr _) \<Rightarrow>
                 (case fl of
                    Some e \<Rightarrow> (Inl (Protocol e), j, out', c)
                  | None \<Rightarrow> (Inr (), j, out', count_sent t c))))"

subsection \<open>Reading\<close>

definition read_exact :: "nat \<Rightarrow> bytes \<Rightarrow> wire_error + (bytes \<times> bytes)" where
  "read_exact n s = (if n \<le> length s then Inr (take n s, drop n s) else Inl (Protocol ''early eof''))"

fun read_buffers :: "nat list \<Rightarrow> bytes \<Rightarrow> wire_error + (bytes list \<times> bytes)" where
  "read_buffers [] s = Inr ([], s)"
| "read_buffers (n # ns) s =
     (case read_exact n s of
        Inl e \<Rightarrow> Inl e
      | Inr (b, s1) \<Rightarrow> (case read_buffers ns s1 of Inl e \<Rightarrow> Inl e | Inr (bs, s2) \<Rightarrow> Inr (b # bs, s2)))"

definition read_payload ::
  "tensor_limits \<Rightarrow> raw_tensor_kind \<Rightarrow> u32 \<Rightarrow> nat \<Rightarrow> nat \<Rightarrow> nat list \<Rightarrow> bytes \<Rightarrow>
   wire_error + (raw_tensor_frame \<times> bytes)" where
  "read_payload lim k v path_len metadata_len lens s =
     (case read_exact path_len s of
        Inl e \<Rightarrow> Inl e
      | Inr (path, s1) \<Rightarrow>
          if \<not> utf8_valid path then Inl (Protocol ''invalid actor path'')
          else case read_exact metadata_len s1 of
            Inl e \<Rightarrow> Inl e
          | Inr (md, s2) \<Rightarrow>
              (case read_buffers lens s2 of
                 Inl e \<Rightarrow> Inl e
               | Inr (bufs, s3) \<Rightarrow>
                   (case from_owned_receive lim v md bufs of
                      Inl e \<Rightarrow> Inl e
                    | Inr m \<Rightarrow> Inr (\<lparr>rf_kind = k, rf_path = path, rf_message = m\<rparr>, s3))))"

definition read_raw_tensor_frame ::
  "tensor_limits \<Rightarrow> bytes \<times> raw_counters \<Rightarrow> wire_error + (raw_tensor_frame \<times> bytes \<times> raw_counters)" where
  \<comment> \<open>after an error the connection is not used again\<close>
  "read_raw_tensor_frame lim st =
     (case read_exact RAW_FIXED_HEADER_LEN (fst st) of
        Inl e \<Rightarrow> Inl e
      | Inr (fixed, s1) \<Rightarrow>
          if take 4 fixed \<noteq> RAW_TENSOR_MAGIC then Inl (Protocol ''invalid magic'')
          else case kind_try_from (fixed ! 4) of
            Inl e \<Rightarrow> Inl e
          | Inr k \<Rightarrow>
              let version = of_nat (le_nat (slice fixed 8 12));
                  path_len = le_nat (slice fixed 12 16);
                  metadata_len = le_nat (slice fixed 16 24);
                  buffer_count = le_nat (slice fixed 24 28) in
              if path_len > MAX_RAW_PATH_BYTES then Inl (Protocol ''actor path exceeds configured maximum'')
              else if metadata_len > max_tensor_metadata_bytes lim
              then Inl (Protocol ''metadata exceeds configured maximum'')
              else if buffer_count > max_tensor_buffers lim
              then Inl (Protocol ''buffer count exceeds configured maximum'')
              else case read_exact (buffer_count * 8) s1 of
                Inl e \<Rightarrow> Inl e
              | Inr (table, s2) \<Rightarrow>
                  let lens = table_lengths buffer_count table in
                  (case raw_total path_len metadata_len lens of
                     Inl e \<Rightarrow> Inl e
                   | Inr t \<Rightarrow>
                       if t > max_tensor_wire_bytes lim then Inl (Protocol ''frame exceeds configured maximum'')
                       else (case read_payload lim k version path_len metadata_len lens s2 of
                               Inl e \<Rightarrow> Inl e
                             | Inr (frame, s3) \<Rightarrow> Inr (frame, s3, count_received t (snd st)))))"

fun read_frames :: "tensor_limits \<Rightarrow> nat \<Rightarrow> bytes \<times> raw_counters \<Rightarrow> raw_tensor_frame list \<times> bytes \<times> raw_counters" where
  \<comment> \<open>up to a number of frames from one connection\<close>
  "read_frames lim 0 st = ([], st)"
| "read_frames lim (Suc n) st =
     (case read_raw_tensor_frame lim st of
        Inl _ \<Rightarrow> ([], st)
      | Inr (f, st1) \<Rightarrow> (case read_frames lim n st1 of (fs, st2) \<Rightarrow> (f # fs, st2)))"

subsection \<open>What is written arrives\<close>

definition writer_ok :: "writer \<Rightarrow> bool" where
  \<comment> \<open>a socket never reports more than it was offered\<close>
  "writer_ok wr \<longleftrightarrow> (\<forall>i k n. wr i k = Wrote n \<longrightarrow> n \<le> k)"

definition writer_live :: "writer \<Rightarrow> bool" where
  "writer_live wr \<longleftrightarrow> (\<forall>i k. 0 < k \<longrightarrow> (\<exists>n. wr i k = Wrote n \<and> 0 < n \<and> n \<le> k))"

lemma concat_advance: "concat (advance_slices n ss) = drop n (concat ss)"
  by (induction ss arbitrary: n) auto

lemma nonempty_advance: "[] \<notin> set ss \<Longrightarrow> [] \<notin> set (advance_slices n ss)"
  by (induction ss arbitrary: n) auto

lemma take_batch: "n \<le> length (concat (take k ss)) \<Longrightarrow> take n (concat (take k ss)) = take n (concat ss)"
proof -
  assume "n \<le> length (concat (take k ss))"
  moreover have "concat ss = concat (take k ss) @ concat (drop k ss)" by (metis append_take_drop_id concat_append)
  ultimately show ?thesis by simp
qed

lemma write_all_sends:
  "writer_ok wr \<Longrightarrow> write_all_vectored wr i out ss = (out', j, Inr u) \<Longrightarrow> out' = out @ concat ss"
proof (induction wr i out ss rule: write_all_vectored.induct)
  case (1 wr i out ss)
  show ?case
  proof (cases "ss = []")
    case True
    with 1(3) show ?thesis by (simp add: write_all_vectored.simps)
  next
    case False
    let ?b = "concat (take MAX_VECTORED_SLICES ss)"
    from 1(3) False obtain n where n: "wr i (length ?b) = Wrote n" "n \<noteq> 0"
      by (subst (asm) write_all_vectored.simps) (auto simp: Let_def split: io_write.splits if_splits)
    have "n \<le> length ?b" using 1(2) n(1) by (auto simp: writer_ok_def)
    moreover have "write_all_vectored wr (Suc i) (out @ take n ?b) (advance_slices n ss) = (out', j, Inr u)"
      using 1(3) False n by (subst (asm) write_all_vectored.simps) (simp add: Let_def)
    note 1(1) [OF False refl n 1(2) this]
    ultimately show ?thesis by (simp add: concat_advance take_batch)
  qed
qed

lemma write_all_live:
  "writer_live wr \<Longrightarrow> [] \<notin> set ss \<Longrightarrow> \<exists>j. write_all_vectored wr i out ss = (out @ concat ss, j, Inr ())"
proof (induction wr i out ss rule: write_all_vectored.induct)
  case (1 wr i out ss)
  show ?case
  proof (cases "ss = []")
    case True
    then show ?thesis by (simp add: write_all_vectored.simps)
  next
    case False
    let ?b = "concat (take MAX_VECTORED_SLICES ss)"
    have "hd ss \<noteq> []" using False 1(3) by (cases ss) auto
    then have "0 < length ?b" using False by (cases ss) (auto simp: MAX_VECTORED_SLICES_def)
    then obtain n where n: "wr i (length ?b) = Wrote n" "0 < n" "n \<le> length ?b"
      using 1(2) unfolding writer_live_def by blast
    then have "\<exists>j. write_all_vectored wr (Suc i) (out @ take n ?b) (advance_slices n ss) =
        (out @ take n ?b @ concat (advance_slices n ss), j, Inr ())"
      using 1(1) [OF False refl n(1) _ 1(2) nonempty_advance [OF 1(3)]] by simp
    then obtain j where "write_all_vectored wr (Suc i) (out @ take n ?b) (advance_slices n ss) =
        (out @ take n ?b @ concat (advance_slices n ss), j, Inr ())" ..
    then have "write_all_vectored wr i out ss = (out @ concat ss, j, Inr ())"
      using False n by (subst write_all_vectored.simps) (simp add: Let_def concat_advance take_batch)
    then show ?thesis ..
  qed
qed

definition raw_size :: "bytes \<Rightarrow> tensor_message \<Rightarrow> nat" where
  "raw_size path m =
     28 + 8 * length (tm_buffers m) + length path + length (tm_metadata m) + length (concat (tm_buffers m))"

definition raw_fits :: "tensor_limits \<Rightarrow> bytes \<Rightarrow> tensor_message \<Rightarrow> bool" where
  "raw_fits lim path m \<longleftrightarrow>
     length path \<le> MAX_RAW_PATH_BYTES \<and> length (tm_metadata m) \<le> max_tensor_metadata_bytes lim \<and>
     length (tm_buffers m) \<le> max_tensor_buffers lim \<and> raw_size path m < 2 ^ 64 \<and>
     raw_size path m \<le> max_tensor_wire_bytes lim"

lemma raw_total_Inr:
  "raw_total pl ml lens = Inr t \<longleftrightarrow>
     t = 28 + 8 * length lens + pl + ml + sum_list lens \<and> t < 2 ^ 64"
  by (cases "lens = []")
    (auto simp: raw_total_def usize_mul_def usize_add_def add_all_eq RAW_FIXED_HEADER_LEN_def split: Option.bind_splits if_splits)

lemma concat_filter_nonempty: "concat (filter (\<lambda>b. b \<noteq> []) bs) = concat bs"
  by (induction bs) auto

lemma concat_raw_slices:
  "concat (raw_slices k path m) = raw_header k path m @ path @ tm_metadata m @ concat (tm_buffers m)"
  by (simp add: raw_slices_def concat_filter_nonempty)

lemma length_raw_header: "length (raw_header k path m) = 28 + 8 * length (tm_buffers m)"
  by (simp add: raw_header_def RAW_TENSOR_MAGIC_def length_table)

lemma raw_slices_nonempty: "[] \<notin> set (raw_slices k path m)"
proof -
  have "raw_header k path m \<noteq> []" using length_raw_header [of k path m] by (metis add_is_0 list.size(3) zero_neq_numeral)
  then show ?thesis by (auto simp: raw_slices_def)
qed

lemma write_raw_sends:
  assumes "writer_ok wr" and "write_raw_tensor_frame lim wr fl k path m (i, out, c) = (Inr u, j, out', c')"
  shows "raw_fits lim path m \<and> out' = out @ concat (raw_slices k path m) \<and> c' = count_sent (raw_size path m) c"
proof -
  from assms(2) obtain t where t: "raw_total (length path) (length (tm_metadata m)) (map length (tm_buffers m)) = Inr t"
    "t \<le> max_tensor_wire_bytes lim" "length path \<le> MAX_RAW_PATH_BYTES"
    "length (tm_metadata m) \<le> max_tensor_metadata_bytes lim" "length (tm_buffers m) \<le> max_tensor_buffers lim"
    and w: "\<exists>v. write_all_vectored wr i out (raw_slices k path m) = (out', j, Inr v)" "c' = count_sent t c"
    by (auto simp: write_raw_tensor_frame_def Let_def split: if_splits sum.splits prod.splits option.splits)
  from t(1) have "t = raw_size path m" "t < 2 ^ 64" by (simp_all add: raw_total_Inr raw_size_def length_concat)
  with t w write_all_sends [OF assms(1)] show ?thesis by (auto simp: raw_fits_def)
qed

lemma write_raw_live:
  assumes "writer_live wr" and "raw_fits lim path m"
  shows "\<exists>j. write_raw_tensor_frame lim wr None k path m (i, out, c) =
    (Inr (), j, out @ concat (raw_slices k path m), count_sent (raw_size path m) c)"
proof -
  have "raw_total (length path) (length (tm_metadata m)) (map length (tm_buffers m)) = Inr (raw_size path m)"
    using assms(2) by (simp add: raw_total_Inr raw_size_def raw_fits_def length_concat)
  moreover obtain j where "write_all_vectored wr i out (raw_slices k path m) = (out @ concat (raw_slices k path m), j, Inr ())"
    using write_all_live [OF assms(1) raw_slices_nonempty] by blast
  ultimately show ?thesis using assms(2) by (simp add: write_raw_tensor_frame_def raw_fits_def)
qed

definition received :: "raw_tensor_kind \<times> bytes \<times> tensor_message \<Rightarrow> raw_tensor_frame" where
  "received f = (case f of (k, path, m) \<Rightarrow>
     \<lparr>rf_kind = k, rf_path = path, rf_message = m\<lparr>tm_origin := OwnedReceive\<rparr>\<rparr>)"

lemma kind_roundtrip: "kind_try_from (kind_byte k) = Inr k"
  by (cases k) (simp_all add: kind_try_from_def)

lemma raw_parts:
  assumes "w = a @ [b] @ c @ d @ e @ f @ g" and "length a = 4" and "length c = 3" and "length d = 4"
    and "length e = 4" and "length f = 8" and "length g = 4"
  shows "length w = 28" and "take 4 w = a" and "w ! 4 = b" and "slice w 8 12 = d" and "slice w 12 16 = e"
    and "slice w 16 24 = f" and "slice w 24 28 = g"
  using assms by (simp_all add: slice_def nth_append)

lemma read_buffers_concat: "read_buffers (map length bs) (concat bs @ r) = Inr (bs, r)"
  by (induction bs) (simp_all add: read_exact_def)

lemma read_written:
  assumes fits: "raw_fits lim path m" and utf8: "utf8_valid path" and bufs: "length (tm_buffers m) < 2 ^ 32"
  shows "read_raw_tensor_frame lim (concat (raw_slices k path m) @ r, c) =
    Inr (received (k, path, m), r, count_received (raw_size path m) c)"
proof -
  let ?bufs = "tm_buffers m" and ?md = "tm_metadata m"
  let ?table = "concat (map (\<lambda>b. le_bytes 8 (length b)) ?bufs)"
  let ?fixed = "RAW_TENSOR_MAGIC @ [kind_byte k] @ [0, 0, 0] @ le_bytes 4 (unat (tm_version m)) @
     le_bytes 4 (length path) @ le_bytes 8 (length ?md) @ le_bytes 4 (length ?bufs)"
  let ?rest = "path @ ?md @ concat ?bufs @ r"
  have in_eq: "concat (raw_slices k path m) @ r = ?fixed @ ?table @ ?rest"
    unfolding concat_raw_slices raw_header_def by simp
  have size: "raw_size path m < 2 ^ 64" "raw_size path m \<le> max_tensor_wire_bytes lim" "length path \<le> MAX_RAW_PATH_BYTES"
    "length ?md \<le> max_tensor_metadata_bytes lim" "length ?bufs \<le> max_tensor_buffers lim"
    using fits by (simp_all add: raw_fits_def)
  have magic: "length RAW_TENSOR_MAGIC = 4" by (simp add: RAW_TENSOR_MAGIC_def)
  have three: "length [0, 0, 0 :: byte] = 3" by simp
  note h = raw_parts [OF refl magic three length_le_bytes length_le_bytes length_le_bytes length_le_bytes,
      of "kind_byte k" "unat (tm_version m)" "length path" "length ?md" "length ?bufs"]
  have "unat (tm_version m) < 256 ^ 4" using unsigned_less [of "tm_version m"] by simp
  moreover have "length path < 256 ^ 4" using size(3) by (simp add: MAX_RAW_PATH_BYTES_def)
  moreover have "length ?md < 256 ^ 8" "length ?bufs < 256 ^ 4" using size(1) bufs by (simp_all add: raw_size_def)
  ultimately have num: "le_nat (slice ?fixed 8 12) = unat (tm_version m)" "le_nat (slice ?fixed 12 16) = length path"
    "le_nat (slice ?fixed 16 24) = length ?md" "le_nat (slice ?fixed 24 28) = length ?bufs"
    unfolding h by (simp_all add: le_nat_bytes_id)
  have r1: "read_exact RAW_FIXED_HEADER_LEN (?fixed @ ?table @ ?rest) = Inr (?fixed, ?table @ ?rest)"
    using h(1) by (simp add: read_exact_def RAW_FIXED_HEADER_LEN_def)
  have r2: "read_exact (length ?bufs * 8) (?table @ ?rest) = Inr (?table, ?rest)"
    using length_table [of length ?bufs] by (simp add: read_exact_def)
  have small: "\<forall>b \<in> set ?bufs. length b < 2 ^ 64"
  proof
    fix b assume "b \<in> set ?bufs"
    then have "length b \<le> length (concat ?bufs)" unfolding length_concat by (intro member_le_sum_list) auto
    with size(1) show "length b < 2 ^ 64" unfolding raw_size_def by linarith
  qed
  have lens: "table_lengths (length ?bufs) ?table = map length ?bufs" using table_lengths_table [OF small, of "[]"] by simp
  have t: "raw_total (length path) (length ?md) (map length ?bufs) = Inr (raw_size path m)"
    using size(1) by (simp add: raw_total_Inr raw_size_def length_concat)
  have own: "from_owned_receive lim (tm_version m) ?md ?bufs = Inr (m\<lparr>tm_origin := OwnedReceive\<rparr>)"
    using size by (cases m) (simp add: from_owned_receive_def add_all_eq raw_size_def length_concat)
  have pay: "read_payload lim k (tm_version m) (length path) (length ?md) (map length ?bufs) ?rest =
      Inr (received (k, path, m), r)"
    using utf8 by (simp add: read_payload_def read_exact_def read_buffers_concat own received_def)
  show ?thesis
    unfolding read_raw_tensor_frame_def in_eq fst_conv snd_conv r1
    using size kind_roundtrip [of k]
    by (simp add: h(2,3) num r2 lens t pay magic Let_def del: append.simps append_assoc)
qed

fun write_frames ::
  "tensor_limits \<Rightarrow> writer \<Rightarrow> (raw_tensor_kind \<times> bytes \<times> tensor_message) list \<Rightarrow> nat \<times> bytes \<times> raw_counters \<Rightarrow>
   bool \<times> nat \<times> bytes \<times> raw_counters" where
  "write_frames lim wr [] st = (True, st)"
| "write_frames lim wr ((k, path, m) # fs) st =
     (case write_raw_tensor_frame lim wr None k path m st of
        (Inl _, st1) \<Rightarrow> (False, st1)
      | (Inr _, st1) \<Rightarrow> write_frames lim wr fs st1)"

lemma write_frames_live:
  "writer_live wr \<Longrightarrow> \<forall>(k, path, m) \<in> set fs. raw_fits lim path m \<Longrightarrow> fst (write_frames lim wr fs (i, out, c))"
proof (induction fs arbitrary: i out c)
  case (Cons f fs)
  obtain k path m where f: "f = (k, path, m)" by (cases f)
  with Cons.prems(2) have "raw_fits lim path m" by simp
  from write_raw_live [OF Cons.prems(1) this, of k i out c] obtain j where
    "write_raw_tensor_frame lim wr None k path m (i, out, c) =
      (Inr (), j, out @ concat (raw_slices k path m), count_sent (raw_size path m) c)" by blast
  with Cons f show ?case by simp
qed simp

lemma write_frames_sends:
  assumes "writer_ok wr"
  shows "write_frames lim wr fs (i, out, c) = (True, j, out', c') \<Longrightarrow>
    out' = out @ concat (map (\<lambda>(k, path, m). concat (raw_slices k path m)) fs) \<and>
    (\<forall>(k, path, m) \<in> set fs. raw_fits lim path m)"
proof (induction fs arbitrary: i out c)
  case (Cons f fs)
  obtain k path m where f: "f = (k, path, m)" by (cases f)
  obtain r i1 out1 c1 where w: "write_raw_tensor_frame lim wr None k path m (i, out, c) = (r, i1, out1, c1)"
    by (metis prod.exhaust)
  show ?case
  proof (cases r)
    case (Inr u)
    from write_raw_sends [OF assms w [unfolded Inr]] Cons.IH [of i1 out1 c1] Cons.prems w Inr f
    show ?thesis by simp
  qed (use Cons.prems w f in simp)
qed simp

lemma read_frames_written:
  assumes "max_tensor_buffers lim < 2 ^ 32"
  shows "\<forall>(k, path, m) \<in> set fs. raw_fits lim path m \<and> utf8_valid path \<Longrightarrow>
    \<exists>c'. read_frames lim (length fs) (concat (map (\<lambda>(k, path, m). concat (raw_slices k path m)) fs) @ r, c) =
      (map received fs, r, c') \<and> frames_received c' = frames_received c + of_nat (length fs)"
proof (induction fs arbitrary: c)
  case (Cons f fs)
  obtain k path m where f: "f = (k, path, m)" by (cases f)
  let ?tail = "concat (map (\<lambda>(k, path, m). concat (raw_slices k path m)) fs)"
  have fits: "raw_fits lim path m" "utf8_valid path" using Cons.prems f by auto
  then have "length (tm_buffers m) < 2 ^ 32" using assms by (auto simp: raw_fits_def)
  from read_written [OF fits this, of k "?tail @ r" c]
  have rd: "read_raw_tensor_frame lim (concat (raw_slices k path m) @ ?tail @ r, c) =
      Inr (received f, ?tail @ r, count_received (raw_size path m) c)" by (simp add: f)
  from Cons.IH [of "count_received (raw_size path m) c"] Cons.prems obtain c' where
    "read_frames lim (length fs) (?tail @ r, count_received (raw_size path m) c) = (map received fs, r, c')"
    "frames_received c' = frames_received (count_received (raw_size path m) c) + of_nat (length fs)" by auto
  with rd f show ?case by (simp add: count_received_def)
qed simp

text \<open>
  C39. Frames survive the raw data plane: when every write of a sequence of frames succeeds, then,
  however the socket splits the writes, reading as many frames from the receiving end returns
  the same kinds, paths, versions, metadata and buffers in the same order and consumes exactly
  their bytes. A socket that keeps accepting bytes makes every write of a fitting frame succeed.
\<close>

theorem raw_stream_roundtrip:
  assumes "writer_ok wr" and "max_tensor_buffers lim < 2 ^ 32" and "\<forall>(k, path, m) \<in> set fs. utf8_valid path"
  shows "(write_frames lim wr fs (i, [], c) = (True, j, out, c') \<longrightarrow>
      (\<exists>d'. read_frames lim (length fs) (out @ r, d) = (map received fs, r, d') \<and>
        frames_received d' = frames_received d + of_nat (length fs))) \<and>
    (writer_live wr \<and> (\<forall>(k, path, m) \<in> set fs. raw_fits lim path m) \<longrightarrow>
      fst (write_frames lim wr fs (i, [], c)))"
proof (intro conjI impI)
  assume "write_frames lim wr fs (i, [], c) = (True, j, out, c')"
  from write_frames_sends [OF assms(1) this]
  have out: "out = concat (map (\<lambda>(k, path, m). concat (raw_slices k path m)) fs)"
    and "\<forall>(k, path, m) \<in> set fs. raw_fits lim path m" by simp_all
  with assms(3) have "\<forall>(k, path, m) \<in> set fs. raw_fits lim path m \<and> utf8_valid path" by blast
  from read_frames_written [OF assms(2) this] show "\<exists>d'. read_frames lim (length fs) (out @ r, d) = (map received fs, r, d') \<and>
      frames_received d' = frames_received d + of_nat (length fs)" unfolding out by blast
qed (use write_frames_live in blast)

abbreviation zero_counters :: raw_counters where
  "zero_counters \<equiv> \<lparr>frames_sent = 0, frames_received = 0, bytes_sent = 0, bytes_received = 0,
     http2_fallback_frames = 0, http2_fallback_bytes = 0, last_copy_model = 0, raw_connections_accepted = 0\<rparr>"

theorem raw_stream_roundtrip_witness:
  "let fs = [(Tell, [97], tensor_new 1 [9] [[7, 8], []]), (Ack, [], tensor_new 2 [] [])];
       (ok, _, out, _) = write_frames demo_limits (\<lambda>i n. Wrote (min n 3)) fs (0, [], zero_counters)
   in ok \<and> fst (read_frames demo_limits 2 (out, zero_counters)) = map received fs"
proof -
  let ?fs = "[(Tell, [97], tensor_new 1 [9] [[7, 8], []]), (Ack, [], tensor_new 2 [] [])]"
  let ?wr = "\<lambda>i n. Wrote (min n 3)"
  obtain ok j out c where w: "write_frames demo_limits ?wr ?fs (0, [], zero_counters) = (ok, j, out, c)"
    by (metis prod.exhaust)
  have ok_wr: "writer_ok ?wr" "writer_live ?wr" by (simp_all add: writer_ok_def writer_live_def)
  have lim: "max_tensor_buffers demo_limits < 2 ^ 32" by (simp add: tensor_limits_of_def tensor_env_limit_def)
  have utf8: "\<forall>(k, path, m) \<in> set ?fs. utf8_valid path" by simp
  have fits: "\<forall>(k, path, m) \<in> set ?fs. raw_fits demo_limits path m"
    by (simp add: raw_fits_def raw_size_def tensor_new_def tensor_limits_of_def tensor_env_limit_def MAX_RAW_PATH_BYTES_def)
  note rt = raw_stream_roundtrip [OF ok_wr(1) lim utf8, of 0 zero_counters _ out _ "[]" zero_counters]
  have "ok" using rt [of j c, THEN conjunct2] ok_wr(2) fits w by simp
  then have "\<exists>d'. read_frames demo_limits (length ?fs) (out @ [], zero_counters) = (map received ?fs, [], d') \<and>
      frames_received d' = frames_received zero_counters + of_nat (length ?fs)"
    using rt [of j c, THEN conjunct1] w by simp
  then show ?thesis using w \<open>ok\<close> by (auto simp: Let_def numeral_2_eq_2)
qed

end
