(* ===== verification/Errors.thy ===== *)
theory Errors
  imports RustStr
begin

text \<open>
  The errors of the system, \<^verbatim>\<open>error.rs\<close>: the two categories, the text each error prints
  (the attributes of the \<^verbatim>\<open>Error\<close> derivation) and the stable kind used in structured
  replies. The retry policy decides by the printed text, so the texts are part of the model.
\<close>

datatype runtime_error =
    ActorNotFound string
  | ActorAlreadyExists string
  | ActorNotLocal string
  | ActorStopped string
  | ActorMailboxFull string
  | InvalidActorPath string
  | MessageTypeMismatch string string
  | ActorSpawnFailed string
  | ConnectionFailed string string
  | ConnectionClosed string
  | RequestTimeout u64
  | InvalidResponse string
  | TlsError string
  | ProtocolError string
  | ClusterNotInitialized
  | NodeNotFound string
  | NamedActorNotFound string
  | NoHealthyInstances string
  | JoinFailed string
  | GossipError string
  | InvalidConfigValue string string string
  | MissingRequiredConfig string
  | ConflictingConfig string
  | InvalidAddress string string
  | Io string
  | Serialization string
  | Other string

datatype actor_error =
    Business u32 string "string option"
  | System string bool
  | Timeout string u64
  | Unsupported string

datatype pulsing_error = Runtime runtime_error | Actor actor_error

fun display_runtime :: "runtime_error \<Rightarrow> string" where
  "display_runtime (ActorNotFound name) = ''Actor not found: '' @ name"
| "display_runtime (ActorAlreadyExists name) = ''Actor already exists: '' @ name"
| "display_runtime (ActorNotLocal name) = ''Actor is not local: '' @ name"
| "display_runtime (ActorStopped name) = ''Actor stopped: '' @ name"
| "display_runtime (ActorMailboxFull name) = ''Actor mailbox full: '' @ name"
| "display_runtime (InvalidActorPath path) = ''Invalid actor path: '' @ path"
| "display_runtime (MessageTypeMismatch expected actual) = ''Message type mismatch: expected '' @ expected @ '', got '' @ actual"
| "display_runtime (ActorSpawnFailed reason) = ''Failed to spawn actor: '' @ reason"
| "display_runtime (ConnectionFailed addr reason) = ''Connection failed to '' @ addr @ '': '' @ reason"
| "display_runtime (ConnectionClosed reason) = ''Connection closed: '' @ reason"
| "display_runtime (RequestTimeout timeout_ms) = ''Request timeout after '' @ nat_to_dec (unat timeout_ms) @ ''ms''"
| "display_runtime (InvalidResponse reason) = ''Invalid response: '' @ reason"
| "display_runtime (TlsError reason) = ''TLS error: '' @ reason"
| "display_runtime (ProtocolError reason) = ''Protocol error: '' @ reason"
| "display_runtime ClusterNotInitialized = ''Cluster not initialized''"
| "display_runtime (NodeNotFound node_id) = ''Node not found: '' @ node_id"
| "display_runtime (NamedActorNotFound path) = ''Named actor not found: '' @ path"
| "display_runtime (NoHealthyInstances path) = ''No healthy instances for: '' @ path"
| "display_runtime (JoinFailed reason) = ''Failed to join cluster: '' @ reason"
| "display_runtime (GossipError reason) = ''Gossip error: '' @ reason"
| "display_runtime (InvalidConfigValue field value reason) = ''Invalid configuration: '' @ field @ '' = '' @ value @ '' ('' @ reason @ '')''"
| "display_runtime (MissingRequiredConfig field) = ''Missing required configuration: '' @ field"
| "display_runtime (ConflictingConfig reason) = ''Conflicting configuration: '' @ reason"
| "display_runtime (InvalidAddress addr reason) = ''Invalid address '' @ [CHR 0x27] @ addr @ [CHR 0x27] @ '': '' @ reason"
| "display_runtime (Io msg) = ''I/O error: '' @ msg"
| "display_runtime (Serialization msg) = ''Serialization error: '' @ msg"
| "display_runtime (Other msg) = msg"

fun display_actor :: "actor_error \<Rightarrow> string" where
  "display_actor (Business code msg details) = ''Business error ['' @ nat_to_dec (unat code) @ '']: '' @ msg"
| "display_actor (System error recoverable) = ''System error: '' @ error"
| "display_actor (Timeout operation duration_ms) =
     ''Timeout: operation '' @ [CHR 0x27] @ operation @ [CHR 0x27] @ '' timed out after '' @ nat_to_dec (unat duration_ms) @ ''ms''"
| "display_actor (Unsupported operation) = ''Unsupported operation: '' @ operation"

fun display :: "pulsing_error \<Rightarrow> string" where
  "display (Runtime e) = ''Runtime error: '' @ display_runtime e"
| "display (Actor e) = ''Actor error: '' @ display_actor e"

fun is_runtime :: "pulsing_error \<Rightarrow> bool" where
  "is_runtime (Runtime _) = True"
| "is_runtime (Actor _) = False"

fun is_actor :: "pulsing_error \<Rightarrow> bool" where
  "is_actor (Actor _) = True"
| "is_actor (Runtime _) = False"

fun runtime_kind :: "runtime_error \<Rightarrow> string" where
  "runtime_kind (ActorNotFound _) = ''actor_not_found''"
| "runtime_kind (ActorAlreadyExists _) = ''actor_already_exists''"
| "runtime_kind (ActorNotLocal _) = ''actor_not_local''"
| "runtime_kind (ActorStopped _) = ''actor_stopped''"
| "runtime_kind (ActorMailboxFull _) = ''actor_mailbox_full''"
| "runtime_kind (InvalidActorPath _) = ''invalid_actor_path''"
| "runtime_kind (MessageTypeMismatch _ _) = ''message_type_mismatch''"
| "runtime_kind (ActorSpawnFailed _) = ''actor_spawn_failed''"
| "runtime_kind (ConnectionFailed _ _) = ''connection_failed''"
| "runtime_kind (ConnectionClosed _) = ''connection_closed''"
| "runtime_kind (RequestTimeout _) = ''request_timeout''"
| "runtime_kind (InvalidResponse _) = ''invalid_response''"
| "runtime_kind (TlsError _) = ''tls_error''"
| "runtime_kind (ProtocolError _) = ''protocol_error''"
| "runtime_kind ClusterNotInitialized = ''cluster_not_initialized''"
| "runtime_kind (NodeNotFound _) = ''node_not_found''"
| "runtime_kind (NamedActorNotFound _) = ''named_actor_not_found''"
| "runtime_kind (NoHealthyInstances _) = ''no_healthy_instances''"
| "runtime_kind (JoinFailed _) = ''join_failed''"
| "runtime_kind (GossipError _) = ''gossip_error''"
| "runtime_kind (InvalidConfigValue _ _ _) = ''invalid_config_value''"
| "runtime_kind (MissingRequiredConfig _) = ''missing_required_config''"
| "runtime_kind (ConflictingConfig _) = ''conflicting_config''"
| "runtime_kind (InvalidAddress _ _) = ''invalid_address''"
| "runtime_kind (Io _) = ''io_error''"
| "runtime_kind (Serialization _) = ''serialization_error''"
| "runtime_kind (Other _) = ''other''"

fun runtime_actor_name :: "runtime_error \<Rightarrow> string option" where
  "runtime_actor_name (ActorNotFound name) = Some name"
| "runtime_actor_name (ActorAlreadyExists name) = Some name"
| "runtime_actor_name (ActorNotLocal name) = Some name"
| "runtime_actor_name (ActorStopped name) = Some name"
| "runtime_actor_name (ActorMailboxFull name) = Some name"
| "runtime_actor_name _ = None"

fun is_recoverable :: "actor_error \<Rightarrow> bool" where
  "is_recoverable (Business _ _ _) = True"
| "is_recoverable (System _ recoverable) = recoverable"
| "is_recoverable (Timeout _ _) = True"
| "is_recoverable (Unsupported _) = False"

end
