(* ===== verification/Pool.thy ===== *)
theory Pool
  imports RustStr
begin

text \<open>
  The connection pool of the HTTP/2 client, \<^verbatim>\<open>transport/http2/pool.rs\<close>. The heap of
  \<^verbatim>\<open>Arc<Mutex<PooledConnection>>\<close> is explicit (\<open>cp_conns\<close>): a connection is reachable from the
  vector of its host and from the guards handed out, and when the last of these goes its
  permit returns to the semaphore of the host. Every call of \<^verbatim>\<open>get_connection\<close> is a task; the
  code between two points at which another thread can interfere is one step of the task
  (\<open>task_step\<close>), and \<open>pool_step\<close> interleaves the steps of all tasks with the use and the
  dropping of guards, the cancellation of tasks and the cleanup. What the network and the
  clock do is the input of a step. The semaphore is a counter that any waiting task may take
  from; tokio serves the waiters in order, which is one of the orders covered.
\<close>

subsection \<open>Data\<close>

type_synonym socket_addr = string
type_synonym conn_id = nat

record pool_stats =
  connections_created :: u64
  connections_closed :: u64
  connections_reused :: u64
  connection_errors :: u64
  pool_expansions :: u64
  active_connections :: usize
  idle_connections :: usize

datatype connection_state = Idle | Active | Unhealthy | Expired

record pooled_connection =
  pc_host :: socket_addr  \<comment> \<open>the host whose semaphore the permit belongs to\<close>
  pc_created_at :: instant
  pc_last_used :: instant
  pc_request_count :: u64
  pc_state :: connection_state

record pool_config =
  max_connections_per_host :: nat
  min_idle_per_host :: nat
  max_total_connections :: nat
  connect_timeout :: duration
  max_connection_age :: "duration option"
  max_idle_time :: "duration option"
  max_requests_per_connection :: "u64 option"
  cleanup_interval :: duration
  enable_warming :: bool

definition pool_config_default :: pool_config where
  "pool_config_default =
     \<lparr>max_connections_per_host = 8, min_idle_per_host = 1, max_total_connections = 100,
      connect_timeout = from_secs 5, max_connection_age = Some (from_secs 300),
      max_idle_time = Some (from_secs 60), max_requests_per_connection = Some 1000,
      cleanup_interval = from_secs 30, enable_warming = False\<rparr>"

definition pool_config_from :: "nat \<Rightarrow> duration \<Rightarrow> pool_config" where
  \<comment> \<open>the two fields of the transport's configuration that are taken over\<close>
  "pool_config_from per_host timeout =
     pool_config_default\<lparr>max_connections_per_host := per_host, connect_timeout := timeout\<rparr>"

definition pooled_connection_new :: "instant \<Rightarrow> socket_addr \<Rightarrow> pooled_connection" where
  "pooled_connection_new now host =
     \<lparr>pc_host = host, pc_created_at = now, pc_last_used = now, pc_request_count = 0, pc_state = Idle\<rparr>"

definition is_healthy :: "pool_config \<Rightarrow> instant \<Rightarrow> bool \<Rightarrow> pooled_connection \<Rightarrow> bool" where
  \<comment> \<open>\<open>ready\<close>: what \<^verbatim>\<open>SendRequest::is_ready\<close> answers\<close>
  "is_healthy cfg now ready c \<longleftrightarrow>
     (if \<not> ready then False
      else if (case max_connection_age cfg of Some a \<Rightarrow> elapsed now (pc_created_at c) > a | None \<Rightarrow> False) then False
      else if (case max_idle_time cfg of Some i \<Rightarrow> elapsed now (pc_last_used c) > i | None \<Rightarrow> False) then False
      else if (case max_requests_per_connection cfg of Some n \<Rightarrow> pc_request_count c \<ge> n | None \<Rightarrow> False) then False
      else True)"

definition mark_used :: "instant \<Rightarrow> pooled_connection \<Rightarrow> pooled_connection" where
  "mark_used now c = c\<lparr>pc_last_used := now, pc_request_count := pc_request_count c + 1, pc_state := Active\<rparr>"

definition mark_idle :: "pooled_connection \<Rightarrow> pooled_connection" where
  "mark_idle c = c\<lparr>pc_state := Idle\<rparr>"

subsection \<open>The pool of one host\<close>

definition MAX_PERMITS :: nat where
  \<comment> \<open>\<^verbatim>\<open>usize::MAX >> 3\<close>\<close>
  "MAX_PERMITS = 2 ^ 61 - 1"

record host_pool =
  hp_connections :: "conn_id list"
  hp_permits :: nat  \<comment> \<open>the permits available in the semaphore\<close>
  hp_cap :: nat
  hp_last_error :: "instant option"
  hp_error_count :: u32

definition host_pool_new :: "nat \<Rightarrow> host_pool" where
  "host_pool_new initial_cap =
     (let cap = max 1 (min initial_cap MAX_PERMITS) in
      \<lparr>hp_connections = [], hp_permits = cap, hp_cap = cap, hp_last_error = None, hp_error_count = 0\<rparr>)"

definition record_error :: "instant \<Rightarrow> host_pool \<Rightarrow> host_pool" where
  "record_error now hp =
     hp\<lparr>hp_last_error := Some now, hp_error_count := saturating_add (hp_error_count hp) 1\<rparr>"

definition record_success :: "host_pool \<Rightarrow> host_pool" where
  "record_success hp = hp\<lparr>hp_error_count := 0\<rparr>"

definition expand :: "host_pool \<Rightarrow> (nat \<times> nat) option \<times> host_pool" where
  "expand hp =
     (let old = hp_cap hp; target = min (min (old * 2) (2 ^ 64 - 1)) MAX_PERMITS; added = target - old in
      if added = 0 then (None, hp)
      else (Some (old, target), hp\<lparr>hp_permits := hp_permits hp + added, hp_cap := target\<rparr>))"

definition should_backoff :: "instant \<Rightarrow> host_pool \<Rightarrow> bool" where
  "should_backoff now hp =
     (case hp_last_error hp of
        Some t \<Rightarrow> elapsed now t < from_millis (100 * 2 ^ min (unat (hp_error_count hp)) 6)
      | None \<Rightarrow> False)"

subsection \<open>The pool\<close>

record connection_pool =
  cp_pools :: "(socket_addr, host_pool) hash_map"
  cp_config :: pool_config
  cp_stats :: pool_stats
  cp_conns :: "(conn_id, pooled_connection) hash_map"  \<comment> \<open>the heap\<close>
  cp_next :: conn_id  \<comment> \<open>the next address of the heap\<close>
  cp_guards :: "conn_id list"  \<comment> \<open>the guards that exist\<close>
  cp_locked :: "conn_id list"  \<comment> \<open>the connections whose mutex a user holds\<close>

definition stats_default :: pool_stats where
  "stats_default =
     \<lparr>connections_created = 0, connections_closed = 0, connections_reused = 0, connection_errors = 0,
      pool_expansions = 0, active_connections = 0, idle_connections = 0\<rparr>"

definition with_config :: "pool_config \<Rightarrow> connection_pool" where
  "with_config cfg =
     \<lparr>cp_pools = [], cp_config = cfg, cp_stats = stats_default, cp_conns = [], cp_next = 0,
      cp_guards = [], cp_locked = []\<rparr>"

definition on_stats :: "(pool_stats \<Rightarrow> pool_stats) \<Rightarrow> connection_pool \<Rightarrow> connection_pool" where
  "on_stats f p = p\<lparr>cp_stats := f (cp_stats p)\<rparr>"

definition on_host :: "socket_addr \<Rightarrow> (host_pool \<Rightarrow> host_pool) \<Rightarrow> connection_pool \<Rightarrow> connection_pool" where
  "on_host a f p = p\<lparr>cp_pools := hm_modify a f (cp_pools p)\<rparr>"

definition release_permit :: "socket_addr \<Rightarrow> connection_pool \<Rightarrow> connection_pool" where
  \<comment> \<open>the drop of an \<^verbatim>\<open>OwnedSemaphorePermit\<close>\<close>
  "release_permit a = on_host a (\<lambda>hp. hp\<lparr>hp_permits := hp_permits hp + 1\<rparr>)"

definition pooled :: "connection_pool \<Rightarrow> conn_id list" where
  "pooled p = concat (map hp_connections (hm_values (cp_pools p)))"

definition drop_arc :: "conn_id \<Rightarrow> connection_pool \<Rightarrow> connection_pool" where
  \<comment> \<open>a reference to a connection is gone: the last one frees it\<close>
  "drop_arc c p =
     (if c \<in> set (pooled p) \<or> c \<in> set (cp_guards p) then p
      else case hm_get (cp_conns p) c of
        None \<Rightarrow> p
      | Some conn \<Rightarrow> release_permit (pc_host conn) (p\<lparr>cp_conns := hm_remove c (cp_conns p)\<rparr>))"

record poll_input =
  pi_now :: instant
  pi_ready :: "conn_id \<Rightarrow> bool"  \<comment> \<open>which senders are ready\<close>
  pi_busy :: "conn_id \<Rightarrow> bool"  \<comment> \<open>which mutexes another thread is holding for a moment\<close>
  pi_connect :: "string option"  \<comment> \<open>the error of the TCP connect or the handshake\<close>
  pi_timed_out :: bool  \<comment> \<open>whether the wait for a permit is over\<close>

definition try_lock :: "poll_input \<Rightarrow> conn_id \<Rightarrow> connection_pool \<Rightarrow> pooled_connection option" where
  "try_lock i c p = (if c \<in> set (cp_locked p) \<or> pi_busy i c then None else hm_get (cp_conns p) c)"

definition reusable :: "poll_input \<Rightarrow> connection_pool \<Rightarrow> conn_id \<Rightarrow> bool" where
  "reusable i p c =
     (case try_lock i c p of
        Some conn \<Rightarrow> pc_state conn = Idle \<and> is_healthy (cp_config p) (pi_now i) (pi_ready i c) conn
      | None \<Rightarrow> False)"

definition try_get_existing :: "poll_input \<Rightarrow> socket_addr \<Rightarrow> connection_pool \<Rightarrow> conn_id option \<times> connection_pool" where
  "try_get_existing i a p =
     (case hm_get (cp_pools p) a of
        None \<Rightarrow> (None, p)
      | Some hp \<Rightarrow>
          (case find (reusable i p) (hp_connections hp) of
             None \<Rightarrow> (None, p)
           | Some c \<Rightarrow>
               (Some c,
                on_stats (\<lambda>s. s\<lparr>active_connections := active_connections s + 1,
                               idle_connections := idle_connections s - 1\<rparr>)
                  (p\<lparr>cp_conns := hm_modify c (mark_used (pi_now i)) (cp_conns p),
                     cp_guards := c # cp_guards p\<rparr>))))"

datatype pool_error =
    BackingOff
  | Disappeared
  | AtMaxPermits
  | PermitTimeout
  | ConnectFailed string

datatype conn_result = Failed socket_addr pool_error | Guard conn_id

text \<open>Where a call of \<^verbatim>\<open>get_connection\<close> stands.\<close>

datatype conn_task =
    GetExisting socket_addr
  | CheckBackoff socket_addr
  | EnsureHost socket_addr
  | TryAcquire socket_addr
  | Expand socket_addr
  | WaitPermit socket_addr
  | Connecting socket_addr  \<comment> \<open>holds a permit\<close>
  | RecordResult socket_addr "string + pooled_connection"  \<comment> \<open>the connection holds the permit\<close>
  | AddToPool socket_addr pooled_connection
  | Done conn_result
  | Cancelled

definition ensure_host :: "socket_addr \<Rightarrow> connection_pool \<Rightarrow> connection_pool" where
  "ensure_host a p =
     (case hm_get (cp_pools p) a of
        Some _ \<Rightarrow> p
      | None \<Rightarrow> p\<lparr>cp_pools := hm_insert a (host_pool_new (max_connections_per_host (cp_config p))) (cp_pools p)\<rparr>)"

definition try_acquire :: "socket_addr \<Rightarrow> connection_pool \<Rightarrow> connection_pool option" where
  "try_acquire a p =
     (case hm_get (cp_pools p) a of
        Some hp \<Rightarrow> if hp_permits hp = 0 then None else Some (on_host a (\<lambda>hp. hp\<lparr>hp_permits := hp_permits hp - 1\<rparr>) p)
      | None \<Rightarrow> None)"

definition expand_host :: "socket_addr \<Rightarrow> connection_pool \<Rightarrow> pool_error + connection_pool" where
  \<comment> \<open>the locked part of \<^verbatim>\<open>expand_and_acquire\<close>\<close>
  "expand_host a p =
     (case hm_get (cp_pools p) a of
        None \<Rightarrow> Inl Disappeared
      | Some hp \<Rightarrow>
          if hp_permits hp = 0 then
            (case expand hp of
               (Some _, hp') \<Rightarrow>
                 Inr (on_stats (\<lambda>s. s\<lparr>pool_expansions := pool_expansions s + 1\<rparr>) (on_host a (\<lambda>_. hp') p))
             | (None, _) \<Rightarrow> Inl AtMaxPermits)
          else Inr p)"

definition create_connection_inner :: "poll_input \<Rightarrow> socket_addr \<Rightarrow> connection_pool \<Rightarrow> (string + pooled_connection) \<times> connection_pool" where
  \<comment> \<open>on an error the permit is dropped with the arguments\<close>
  "create_connection_inner i a p =
     (case pi_connect i of
        Some e \<Rightarrow> (Inl e, release_permit a p)
      | None \<Rightarrow> (Inr (mark_used (pi_now i) (pooled_connection_new (pi_now i) a)), p))"

definition record_result :: "poll_input \<Rightarrow> socket_addr \<Rightarrow> string + pooled_connection \<Rightarrow> connection_pool \<Rightarrow> connection_pool" where
  "record_result i a r p =
     (case hm_get (cp_pools p) a of
        None \<Rightarrow> p
      | Some _ \<Rightarrow>
          (case r of
             Inr _ \<Rightarrow> on_host a record_success p
           | Inl _ \<Rightarrow> on_stats (\<lambda>s. s\<lparr>connection_errors := connection_errors s + 1\<rparr>)
               (on_host a (record_error (pi_now i)) p)))"

definition add_to_pool :: "socket_addr \<Rightarrow> pooled_connection \<Rightarrow> connection_pool \<Rightarrow> conn_id \<times> connection_pool" where
  "add_to_pool a conn p =
     (let c = cp_next p;
          p1 = p\<lparr>cp_conns := hm_insert c conn (cp_conns p), cp_next := c + 1, cp_guards := c # cp_guards p\<rparr>;
          p2 = on_host a (\<lambda>hp. if length (hp_connections hp) < hp_cap hp
                                then hp\<lparr>hp_connections := hp_connections hp @ [c]\<rparr> else hp) p1;
          p3 = on_stats (\<lambda>s. s\<lparr>connections_created := connections_created s + 1,
                              active_connections := active_connections s + 1\<rparr>) p2
      in (c, p3))"

fun task_step :: "poll_input \<Rightarrow> conn_task \<Rightarrow> connection_pool \<Rightarrow> conn_task \<times> connection_pool" where
  "task_step i (GetExisting a) p =
     (case try_get_existing i a p of
        (Some c, p') \<Rightarrow> (Done (Guard c), on_stats (\<lambda>s. s\<lparr>connections_reused := connections_reused s + 1\<rparr>) p')
      | (None, p') \<Rightarrow> (CheckBackoff a, p'))"
| "task_step i (CheckBackoff a) p =
     ((case hm_get (cp_pools p) a of
         Some hp \<Rightarrow> if should_backoff (pi_now i) hp then Done (Failed a BackingOff) else EnsureHost a
       | None \<Rightarrow> EnsureHost a), p)"
| "task_step i (EnsureHost a) p = (TryAcquire a, ensure_host a p)"
| "task_step i (TryAcquire a) p =
     (case try_acquire a p of Some p' \<Rightarrow> (Connecting a, p') | None \<Rightarrow> (Expand a, p))"
| "task_step i (Expand a) p =
     (case expand_host a p of
        Inl e \<Rightarrow> (Done (Failed a e), p)
      | Inr p' \<Rightarrow> (WaitPermit a, p'))"
| "task_step i (WaitPermit a) p =
     (case try_acquire a p of
        Some p' \<Rightarrow> (Connecting a, p')
      | None \<Rightarrow> (if pi_timed_out i then Done (Failed a PermitTimeout) else WaitPermit a, p))"
| "task_step i (Connecting a) p =
     (case create_connection_inner i a p of (r, p') \<Rightarrow> (RecordResult a r, p'))"
| "task_step i (RecordResult a r) p =
     ((case r of Inr conn \<Rightarrow> AddToPool a conn | Inl e \<Rightarrow> Done (Failed a (ConnectFailed e))),
      record_result i a r p)"
| "task_step i (AddToPool a conn) p =
     (case add_to_pool a conn p of (c, p') \<Rightarrow> (Done (Guard c), p'))"
| "task_step i (Done r) p = (Done r, p)"
| "task_step i Cancelled p = (Cancelled, p)"

fun run_task :: "(nat \<Rightarrow> poll_input) \<Rightarrow> nat \<Rightarrow> conn_task \<times> connection_pool \<Rightarrow> conn_task \<times> connection_pool" where
  \<comment> \<open>a number of steps of one task, with nothing in between\<close>
  "run_task i 0 tp = tp"
| "run_task i (Suc n) tp = (case run_task i n tp of (t, p) \<Rightarrow> task_step (i n) t p)"

fun permit_of :: "conn_task \<Rightarrow> socket_addr option" where
  \<comment> \<open>the host whose permit a task holds\<close>
  "permit_of (Connecting a) = Some a"
| "permit_of (RecordResult a (Inr c)) = Some (pc_host c)"
| "permit_of (AddToPool a c) = Some (pc_host c)"
| "permit_of _ = None"

definition cancel_task :: "conn_task \<Rightarrow> connection_pool \<Rightarrow> connection_pool" where
  \<comment> \<open>the future of \<^verbatim>\<open>get_connection\<close> is dropped, and with it the permit\<close>
  "cancel_task t p = (case permit_of t of Some a \<Rightarrow> release_permit a p | None \<Rightarrow> p)"

definition cleanup_keep :: "poll_input \<Rightarrow> connection_pool \<Rightarrow> conn_id \<Rightarrow> bool" where
  "cleanup_keep i p c =
     (case try_lock i c p of
        Some conn \<Rightarrow> is_healthy (cp_config p) (pi_now i) (pi_ready i c) conn
      | None \<Rightarrow> True)"

definition cleanup :: "poll_input \<Rightarrow> connection_pool \<Rightarrow> connection_pool" where
  "cleanup i p =
     (let keep = cleanup_keep i p;
          removed = filter (\<lambda>c. \<not> keep c) (pooled p);
          p1 = p\<lparr>cp_pools := hm_map_values (\<lambda>hp. hp\<lparr>hp_connections := filter keep (hp_connections hp)\<rparr>) (cp_pools p)\<rparr>;
          p2 = fold drop_arc removed p1
      in if length removed > 0
         then on_stats (\<lambda>s. s\<lparr>connections_closed := connections_closed s + of_nat (length removed)\<rparr>) p2 else p2)"

definition guard_drop :: "poll_input \<Rightarrow> conn_id \<Rightarrow> connection_pool \<Rightarrow> connection_pool" where
  "guard_drop i c p =
     (let p1 = (case try_lock i c p of
                  Some _ \<Rightarrow> p\<lparr>cp_conns := hm_modify c mark_idle (cp_conns p)\<rparr>
                | None \<Rightarrow> p);
          p2 = on_stats (\<lambda>s. s\<lparr>active_connections := active_connections s - 1,
                              idle_connections := idle_connections s + 1\<rparr>) p1
      in drop_arc c (p2\<lparr>cp_guards := remove1 c (cp_guards p2)\<rparr>))"

definition pool_info_host :: "poll_input \<Rightarrow> connection_pool \<Rightarrow> host_pool \<Rightarrow> nat \<times> nat \<times> u32" where
  \<comment> \<open>the connections, the healthy ones and the errors of a host\<close>
  "pool_info_host i p hp =
     (length (hp_connections hp),
      length (filter (\<lambda>c. case try_lock i c p of
                            Some conn \<Rightarrow> is_healthy (cp_config p) (pi_now i) (pi_ready i c) conn
                          | None \<Rightarrow> False) (hp_connections hp)),
      hp_error_count hp)"

subsection \<open>Interleaving\<close>

type_synonym pool_system = "connection_pool \<times> conn_task list"

inductive pool_step :: "pool_system \<Rightarrow> pool_system \<Rightarrow> bool" where
  start: "pool_step (p, ts) (p, ts @ [GetExisting a])"
| poll: "k < length ts \<Longrightarrow> task_step i (ts ! k) p = (t, p') \<Longrightarrow> pool_step (p, ts) (p', ts[k := t])"
| cancel: "k < length ts \<Longrightarrow> pool_step (p, ts) (cancel_task (ts ! k) p, ts[k := Cancelled])"
| lock: "c \<in> set (cp_guards p) \<Longrightarrow> c \<notin> set (cp_locked p) \<Longrightarrow> pool_step (p, ts) (p\<lparr>cp_locked := c # cp_locked p\<rparr>, ts)"
| unlock: "pool_step (p, ts) (p\<lparr>cp_locked := removeAll c (cp_locked p)\<rparr>, ts)"
| drop_guard: "c \<in> set (cp_guards p) \<Longrightarrow> c \<notin> set (cp_locked p) \<Longrightarrow> pool_step (p, ts) (guard_drop i c p, ts)"
| clean: "pool_step (p, ts) (cleanup i p, ts)"

inductive pool_reachable :: "pool_config \<Rightarrow> pool_system \<Rightarrow> bool" for cfg where
  init: "pool_reachable cfg (with_config cfg, [])"
| step: "pool_reachable cfg s \<Longrightarrow> pool_step s s' \<Longrightarrow> pool_reachable cfg s'"

end
