(* ===== verification/PoolProps.thy ===== *)
theory PoolProps
  imports Pool
begin

text \<open>The invariant of the pool and what follows from it.\<close>

subsection \<open>The invariant\<close>

definition conns_of :: "connection_pool \<Rightarrow> socket_addr \<Rightarrow> conn_id set" where
  "conns_of p a = {c. \<exists>v. hm_get (cp_conns p) c = Some v \<and> pc_host v = a}"

definition held :: "socket_addr \<Rightarrow> socket_addr option \<Rightarrow> nat" where
  "held a h = (if h = Some a then 1 else 0)"

definition holders :: "conn_task list \<Rightarrow> socket_addr \<Rightarrow> nat" where
  "holders ts a = (\<Sum>t\<leftarrow>ts. held a (permit_of t))"

definition balanced :: "connection_pool \<Rightarrow> nat \<Rightarrow> socket_addr \<Rightarrow> bool" where
  \<comment> \<open>\<open>n\<close>: the permits of \<open>a\<close> that are held, but not by a connection\<close>
  "balanced p n a =
     (case hm_get (cp_pools p) a of
        None \<Rightarrow> conns_of p a = {} \<and> n = 0
      | Some hp \<Rightarrow> hp_permits hp + n + card (conns_of p a) = hp_cap hp \<and> 1 \<le> hp_cap hp \<and> hp_cap hp \<le> MAX_PERMITS)"

definition host_conns :: "connection_pool \<Rightarrow> socket_addr \<Rightarrow> conn_id list" where
  "host_conns p a = (case hm_get (cp_pools p) a of Some hp \<Rightarrow> hp_connections hp | None \<Rightarrow> [])"

definition heap_ok :: "conn_id set \<Rightarrow> connection_pool \<Rightarrow> bool" where
  \<comment> \<open>\<open>X\<close>: connections that are about to be freed\<close>
  "heap_ok X p \<longleftrightarrow>
     hm_ok (cp_pools p) \<and> distinct (cp_guards p) \<and> set (cp_locked p) \<subseteq> set (cp_guards p) \<and>
     (\<forall>c v. hm_get (cp_conns p) c = Some v \<longrightarrow>
        c < cp_next p \<and> (c \<in> set (host_conns p (pc_host v)) \<or> c \<in> set (cp_guards p) \<or> c \<in> X) \<and>
        (c \<in> set (cp_guards p) \<longrightarrow> pc_state v = Active)) \<and>
     set (cp_guards p) \<subseteq> dom (hm_get (cp_conns p)) \<and>
     (\<forall>a. distinct (host_conns p a) \<and> set (host_conns p a) \<subseteq> conns_of p a)"

definition knows :: "connection_pool \<Rightarrow> socket_addr set" where
  "knows p = dom (hm_get (cp_pools p))"

fun task_ok :: "connection_pool \<Rightarrow> conn_task \<Rightarrow> bool" where
  "task_ok p (TryAcquire a) = (a \<in> knows p)"
| "task_ok p (Expand a) = (a \<in> knows p)"
| "task_ok p (WaitPermit a) = (a \<in> knows p)"
| "task_ok p (RecordResult a (Inr c)) = (pc_host c = a \<and> pc_state c = Active)"
| "task_ok p (AddToPool a c) = (pc_host c = a \<and> pc_state c = Active)"
| "task_ok p _ = True"

definition pool_inv :: "pool_system \<Rightarrow> bool" where
  "pool_inv s \<longleftrightarrow>
     heap_ok {} (fst s) \<and> (\<forall>t \<in> set (snd s). task_ok (fst s) t) \<and>
     (\<forall>a. balanced (fst s) (holders (snd s) a) a)"

subsection \<open>Frames\<close>

lemma held_None [simp]: "held a None = 0"
  by (simp add: held_def)

lemma finite_conns_of: "finite (conns_of p a)"
  by (rule finite_subset [OF _ finite_dom_map_of [of "cp_conns p"]]) (auto simp: conns_of_def)

lemma mem_pooled: "hm_ok (cp_pools p) \<Longrightarrow> c \<in> set (pooled p) \<longleftrightarrow> (\<exists>a. c \<in> set (host_conns p a))"
proof
  assume ok: "hm_ok (cp_pools p)" and "c \<in> set (pooled p)"
  then obtain a hp where "(a, hp) \<in> set (cp_pools p)" "c \<in> set (hp_connections hp)" by (auto simp: pooled_def)
  with ok have "c \<in> set (host_conns p a)" by (simp add: host_conns_def hm_in_set_iff)
  then show "\<exists>a. c \<in> set (host_conns p a)" ..
next
  assume ok: "hm_ok (cp_pools p)" and "\<exists>a. c \<in> set (host_conns p a)"
  then obtain a hp where "hm_get (cp_pools p) a = Some hp" "c \<in> set (hp_connections hp)"
    unfolding host_conns_def by (metis (no_types, lifting) empty_iff empty_set option.case_eq_if option.collapse)
  then show "c \<in> set (pooled p)" by (force simp: pooled_def dest: map_of_SomeD)
qed

lemma host_frame [simp]:
  "cp_conns (on_host a f p) = cp_conns p" "cp_guards (on_host a f p) = cp_guards p"
  "cp_locked (on_host a f p) = cp_locked p" "cp_next (on_host a f p) = cp_next p"
  "cp_stats (on_host a f p) = cp_stats p" "cp_config (on_host a f p) = cp_config p"
  by (simp_all add: on_host_def)

lemma stats_frame [simp]:
  "cp_conns (on_stats f p) = cp_conns p" "cp_guards (on_stats f p) = cp_guards p"
  "cp_locked (on_stats f p) = cp_locked p" "cp_next (on_stats f p) = cp_next p"
  "cp_pools (on_stats f p) = cp_pools p" "cp_config (on_stats f p) = cp_config p"
  "cp_stats (on_stats f p) = f (cp_stats p)"
  by (simp_all add: on_stats_def)

lemma get_on_host: "hm_get (cp_pools (on_host a f p)) b = (if b = a then map_option f (hm_get (cp_pools p) a) else hm_get (cp_pools p) b)"
  by (simp add: on_host_def hm_simps)

lemma conns_of_cong: "cp_conns p = cp_conns q \<Longrightarrow> conns_of p = conns_of q"
  by (simp add: conns_of_def fun_eq_iff)

lemma heap_ok_cong:
  assumes "heap_ok X p" and "cp_conns p = cp_conns q" "cp_guards p = cp_guards q" "cp_locked p = cp_locked q"
    "cp_next p = cp_next q" "host_conns p = host_conns q" "hm_ok (cp_pools q)"
  shows "heap_ok X q"
  using assms(1,7) unfolding heap_ok_def assms(2-6) conns_of_cong [OF assms(2)] by blast

lemma balanced_at:
  assumes "hm_get (cp_pools p) a = hm_get (cp_pools q) a" and "conns_of p a = conns_of q a"
  shows "balanced p n a = balanced q n a"
  unfolding balanced_def assms ..

lemma balanced_cong: "conns_of p = conns_of q \<Longrightarrow> cp_pools p = cp_pools q \<Longrightarrow> balanced p n a = balanced q n a"
  by (rule balanced_at) simp_all

lemma task_ok_cong: "cp_pools p = cp_pools q \<Longrightarrow> task_ok p t = task_ok q t"
  by (induction p t rule: task_ok.induct) (auto simp: knows_def)

lemma on_stats_ok [simp]:
  "heap_ok X (on_stats f p) = heap_ok X p" "balanced (on_stats f p) n a = balanced p n a"
  "task_ok (on_stats f p) t = task_ok p t"
proof -
  have "host_conns (on_stats f p) = host_conns p" by (simp add: host_conns_def fun_eq_iff)
  then show "heap_ok X (on_stats f p) = heap_ok X p"
    unfolding heap_ok_def stats_frame conns_of_cong [OF stats_frame(1)] by simp
qed (simp_all add: balanced_cong [OF conns_of_cong, of "on_stats f p" p] task_ok_cong [of "on_stats f p" p])

text \<open>An update of a host that leaves its vector alone.\<close>

lemma host_conns_on_host:
  "(\<And>hp. hm_get (cp_pools p) a = Some hp \<Longrightarrow> hp_connections (f hp) = hp_connections hp) \<Longrightarrow> host_conns (on_host a f p) = host_conns p"
  by (auto simp: host_conns_def get_on_host fun_eq_iff split: option.split)

lemma heap_ok_on_host:
  assumes "heap_ok X p" and "\<And>hp. hm_get (cp_pools p) a = Some hp \<Longrightarrow> hp_connections (f hp) = hp_connections hp"
  shows "heap_ok X (on_host a f p)"
proof (rule heap_ok_cong [OF assms(1)])
  show "hm_ok (cp_pools (on_host a f p))" using assms(1) by (simp add: on_host_def heap_ok_def)
qed (simp_all add: host_conns_on_host assms(2))

lemma balanced_on_host:
  assumes b: "balanced p n b"
    and same: "\<And>hp. hm_get (cp_pools p) a = Some hp \<Longrightarrow> a = b \<Longrightarrow>
           hp_permits hp + n + card (conns_of p a) = hp_cap hp \<Longrightarrow> 1 \<le> hp_cap hp \<Longrightarrow> hp_cap hp \<le> MAX_PERMITS \<Longrightarrow>
           hp_permits (f hp) + m + card (conns_of p a) = hp_cap (f hp) \<and> 1 \<le> hp_cap (f hp) \<and> hp_cap (f hp) \<le> MAX_PERMITS"
    and other: "a \<noteq> b \<or> hm_get (cp_pools p) a = None \<Longrightarrow> m = n"
  shows "balanced (on_host a f p) m b"
proof -
  have eq: "conns_of (on_host a f p) = conns_of p" by (rule conns_of_cong) simp
  consider (same) hp where "a = b" "hm_get (cp_pools p) a = Some hp" | (other) "a \<noteq> b \<or> hm_get (cp_pools p) a = None"
    by (meson not_None_eq)
  then show ?thesis
  proof cases
    case (same hp)
    with b have "hp_permits hp + n + card (conns_of p a) = hp_cap hp" "1 \<le> hp_cap hp" "hp_cap hp \<le> MAX_PERMITS"
      by (simp_all add: balanced_def)
    from assms(2) [OF same(2,1) this] show ?thesis using same unfolding balanced_def eq by (simp add: get_on_host)
  next
    case other
    then have "hm_get (cp_pools (on_host a f p)) b = hm_get (cp_pools p) b" by (auto simp: get_on_host)
    with b show ?thesis unfolding balanced_def eq assms(3) [OF other] by simp
  qed
qed

lemma release_balanced:
  assumes "balanced p (n + held b (Some a)) b"
  shows "balanced (release_permit a p) n b"
proof -
  have "hm_get (cp_pools p) a \<noteq> None" if "a = b" using assms that by (auto simp: balanced_def held_def split: option.splits)
  then show ?thesis using assms unfolding release_permit_def
    by (intro balanced_on_host [OF assms]) (auto simp: balanced_def held_def)
qed

lemma release_heap: "heap_ok X p \<Longrightarrow> heap_ok X (release_permit a p)"
  unfolding release_permit_def by (rule heap_ok_on_host) auto

lemma release_frame [simp]:
  "cp_conns (release_permit a p) = cp_conns p" "cp_guards (release_permit a p) = cp_guards p"
  "cp_stats (release_permit a p) = cp_stats p" "cp_locked (release_permit a p) = cp_locked p"
  "cp_config (release_permit a p) = cp_config p"
  by (simp_all add: release_permit_def)

lemma task_ok_mono: "task_ok p t \<Longrightarrow> knows p \<subseteq> knows q \<Longrightarrow> task_ok q t"
  by (induction p t rule: task_ok.induct) auto

lemma knows_on_host [simp]: "knows (on_host a f p) = knows p"
  by (auto simp: knows_def get_on_host split: if_splits)

lemma knows_release [simp]: "knows (release_permit a p) = knows p"
  by (simp add: release_permit_def)

lemma knows_on_stats [simp]: "knows (on_stats f p) = knows p"
  by (simp add: knows_def)


subsection \<open>The heap\<close>

lemma heap_ok_weaken: "heap_ok X p \<Longrightarrow> X \<subseteq> Y \<Longrightarrow> heap_ok Y p"
  unfolding heap_ok_def by blast

lemma unreferenced:
  assumes "heap_ok X p" and "c \<notin> set (pooled p)" and "c \<notin> set (cp_guards p)"
  shows "\<forall>a. c \<notin> set (host_conns p a)" "c \<notin> set (cp_locked p)"
  using assms mem_pooled [of p c] by (auto simp: heap_ok_def)

lemma conns_of_remove: "conns_of (p\<lparr>cp_conns := hm_remove c (cp_conns p)\<rparr>) a = conns_of p a - {c}"
  by (auto simp: conns_of_def hm_simps)

lemma drop_arc_heap:
  assumes "heap_ok (insert c X) p"
  shows "heap_ok X (drop_arc c p)"
proof (cases "c \<in> set (pooled p) \<or> c \<in> set (cp_guards p)")
  case True
  have "c \<in> set (host_conns p (pc_host v)) \<or> c \<in> set (cp_guards p)" if "hm_get (cp_conns p) c = Some v" for v
  proof -
    have "hm_ok (cp_pools p)" using assms by (simp add: heap_ok_def)
    with True mem_pooled have "(\<exists>a. c \<in> set (host_conns p a)) \<or> c \<in> set (cp_guards p)" by blast
    moreover have "pc_host v = a" if "c \<in> set (host_conns p a)" for a
      using assms that \<open>hm_get (cp_conns p) c = Some v\<close> by (force simp: heap_ok_def conns_of_def)
    ultimately show ?thesis by blast
  qed
  with True assms show ?thesis by (auto simp: drop_arc_def heap_ok_def)
next
  case False
  then have un: "\<forall>a. c \<notin> set (host_conns p a)" "c \<notin> set (cp_locked p)" "c \<notin> set (cp_guards p)"
    using unreferenced [OF assms] by auto
  show ?thesis
  proof (cases "hm_get (cp_conns p) c")
    case None
    with assms have "heap_ok X p" unfolding heap_ok_def by (metis insert_iff option.distinct(1))
    with False None show ?thesis by (simp add: drop_arc_def)
  next
    case (Some v)
    let ?q = "p\<lparr>cp_conns := hm_remove c (cp_conns p)\<rparr>"
    have "host_conns ?q = host_conns p" by (simp add: host_conns_def fun_eq_iff)
    with assms un have "heap_ok X ?q" unfolding heap_ok_def conns_of_remove by (auto simp: hm_simps)
    with False Some show ?thesis by (simp add: drop_arc_def release_heap)
  qed
qed

lemma drop_arc_balanced:
  assumes "balanced p n a"
  shows "balanced (drop_arc c p) n a"
proof (cases "(c \<in> set (pooled p) \<or> c \<in> set (cp_guards p)) \<or> hm_get (cp_conns p) c = None")
  case True
  with assms show ?thesis by (auto simp: drop_arc_def)
next
  case False
  then obtain v where v: "hm_get (cp_conns p) c = Some v" by auto
  let ?q = "p\<lparr>cp_conns := hm_remove c (cp_conns p)\<rparr>"
  have "card (conns_of ?q a) + held a (Some (pc_host v)) = card (conns_of p a)"
  proof (cases "a = pc_host v")
    case True
    then have "c \<in> conns_of p a" using v by (simp add: conns_of_def)
    with True show ?thesis using card_Suc_Diff1 [OF finite_conns_of] by (simp add: conns_of_remove held_def)
  next
    case no: False
    then have "c \<notin> conns_of p a" using v by (simp add: conns_of_def)
    with no show ?thesis by (simp add: conns_of_remove held_def)
  qed
  moreover have "a \<noteq> pc_host v" if "conns_of p a = {}" using that v by (auto simp: conns_of_def)
  ultimately have "balanced ?q (n + held a (Some (pc_host v))) a"
    using assms by (auto simp: balanced_def conns_of_remove held_def split: option.splits)
  with False v show ?thesis by (simp add: drop_arc_def release_balanced)
qed

lemma drop_arc_frame [simp]:
  "cp_guards (drop_arc c p) = cp_guards p" "cp_stats (drop_arc c p) = cp_stats p"
  "cp_config (drop_arc c p) = cp_config p" "knows (drop_arc c p) = knows p"
proof -
  have "knows (p\<lparr>cp_conns := m\<rparr>) = knows p" for m by (simp add: knows_def)
  then show "knows (drop_arc c p) = knows p" by (simp add: drop_arc_def split: option.split)
qed (simp_all add: drop_arc_def split: option.split)

lemma drop_arcs_heap: "heap_ok (set cs \<union> X) p \<Longrightarrow> heap_ok X (fold drop_arc cs p)"
proof (induction cs arbitrary: p)
  case (Cons c cs)
  then have "heap_ok (set cs \<union> X) (drop_arc c p)" using drop_arc_heap [of c "set cs \<union> X" p] by simp
  from Cons.IH [OF this] show ?case by simp
qed simp

lemma drop_arcs_balanced: "balanced p n a \<Longrightarrow> balanced (fold drop_arc cs p) n a"
  by (induction cs arbitrary: p) (auto intro: drop_arc_balanced)

lemma drop_arcs_frame [simp]:
  "cp_guards (fold drop_arc cs p) = cp_guards p" "cp_stats (fold drop_arc cs p) = cp_stats p"
  "cp_config (fold drop_arc cs p) = cp_config p" "knows (fold drop_arc cs p) = knows p"
  by (induction cs arbitrary: p) auto


subsection \<open>The steps of a task\<close>

text \<open>
  A step of a task keeps the heap and turns the permit the task holds before it into the one it
  holds after it.
\<close>

lemma in_host_conns: "heap_ok X p \<Longrightarrow> c \<in> set (host_conns p a) \<Longrightarrow> \<exists>v. hm_get (cp_conns p) c = Some v \<and> pc_host v = a"
  by (auto simp: heap_ok_def conns_of_def)

lemma try_get_existing_SomeD:
  assumes "try_get_existing i a p = (Some c, p')"
  shows "c \<in> set (host_conns p a)" "reusable i p c"
    "p' = on_stats (\<lambda>s. s\<lparr>active_connections := active_connections s + 1, idle_connections := idle_connections s - 1\<rparr>)
       (p\<lparr>cp_conns := hm_modify c (mark_used (pi_now i)) (cp_conns p), cp_guards := c # cp_guards p\<rparr>)"
  using assms by (auto simp: try_get_existing_def host_conns_def dest: find_SomeD split: option.splits)

lemma conns_of_modify:
  assumes "\<And>v. pc_host (f v) = pc_host v"
  shows "conns_of (p\<lparr>cp_conns := hm_modify c f (cp_conns p), cp_guards := g\<rparr>) = conns_of p"
  using assms by (auto simp: conns_of_def hm_simps fun_eq_iff)

lemma try_get_existing_keeps:
  assumes "try_get_existing i a p = (Some c, p')"
  shows "heap_ok {} p \<Longrightarrow> heap_ok {} p'" and "knows p' = knows p" and "balanced p' n b = balanced p n b"
proof -
  note * = try_get_existing_SomeD [OF assms]
  let ?q = "p\<lparr>cp_conns := hm_modify c (mark_used (pi_now i)) (cp_conns p), cp_guards := c # cp_guards p\<rparr>"
  have eq: "conns_of ?q = conns_of p" by (rule conns_of_modify) (simp add: mark_used_def)
  have hc: "host_conns ?q = host_conns p" by (simp add: host_conns_def fun_eq_iff)
  show "knows p' = knows p" "balanced p' n b = balanced p n b"
    using balanced_cong [OF eq] by (simp_all add: *(3) knows_def)
  show "heap_ok {} p'" if ok: "heap_ok {} p"
  proof -
    obtain v where v: "hm_get (cp_conns p) c = Some v" "pc_host v = a" using in_host_conns [OF ok *(1)] by blast
    with *(2) have "pc_state v = Idle" by (auto simp: reusable_def try_lock_def split: if_splits)
    with ok v have "c \<notin> set (cp_guards p)" by (auto simp: heap_ok_def)
    with ok v *(1) have "heap_ok {} ?q" unfolding heap_ok_def eq hc
      by (auto simp: hm_simps mark_used_def)
    then show ?thesis by (simp add: *(3))
  qed
qed


lemma ensure_host_ok:
  assumes "heap_ok {} p"
  shows "heap_ok {} (ensure_host a p)" and "knows (ensure_host a p) = insert a (knows p)"
    and "balanced p n b \<Longrightarrow> balanced (ensure_host a p) n b"
proof -
  let ?hp = "host_pool_new (max_connections_per_host (cp_config p))"
  let ?q = "p\<lparr>cp_pools := hm_insert a ?hp (cp_pools p)\<rparr>"
  show "knows (ensure_host a p) = insert a (knows p)"
    by (auto simp: ensure_host_def knows_def hm_simps split: option.split)
  have new: "heap_ok {} ?q" if "hm_get (cp_pools p) a = None"
  proof (rule heap_ok_cong [OF assms])
    show "host_conns p = host_conns ?q"
      using that by (auto simp: host_conns_def hm_simps host_pool_new_def fun_eq_iff Let_def)
    show "hm_ok (cp_pools ?q)" using assms by (simp add: heap_ok_def)
  qed simp_all
  then show "heap_ok {} (ensure_host a p)" using assms by (auto simp: ensure_host_def split: option.split)
  have eq: "conns_of ?q = conns_of p" by (rule conns_of_cong) simp
  have cap: "hp_permits ?hp = hp_cap ?hp" "1 \<le> hp_cap ?hp" "hp_cap ?hp \<le> MAX_PERMITS"
    by (auto simp: host_pool_new_def Let_def MAX_PERMITS_def)
  show "balanced (ensure_host a p) n b" if "balanced p n b"
  proof (cases "hm_get (cp_pools p) a")
    case None
    then have "balanced ?q n b" using that cap unfolding balanced_def eq
      by (cases "a = b") (simp_all add: hm_simps)
    with None show ?thesis by (simp add: ensure_host_def)
  qed (use that in \<open>simp add: ensure_host_def\<close>)
qed

lemma try_acquire_ok:
  assumes "try_acquire a p = Some p'"
  shows "heap_ok {} p \<Longrightarrow> heap_ok {} p'" and "knows p' = knows p"
    and "balanced p n b \<Longrightarrow> balanced p' (n + held b (Some a)) b"
proof -
  from assms obtain hp where hp: "hm_get (cp_pools p) a = Some hp" "hp_permits hp \<noteq> 0"
    and p': "p' = on_host a (\<lambda>hp. hp\<lparr>hp_permits := hp_permits hp - 1\<rparr>) p"
    by (auto simp: try_acquire_def split: option.splits if_splits)
  show "heap_ok {} p \<Longrightarrow> heap_ok {} p'" unfolding p' by (rule heap_ok_on_host) auto
  show "knows p' = knows p" by (simp add: p')
  show "balanced p n b \<Longrightarrow> balanced p' (n + held b (Some a)) b"
    unfolding p' using hp by (elim balanced_on_host) (auto simp: held_def)
qed

lemma try_acquire_None: "hm_get (cp_pools p) a = Some hp \<Longrightarrow> try_acquire a p = None \<longleftrightarrow> hp_permits hp = 0"
  by (simp add: try_acquire_def)

lemma expand_SomeD:
  assumes "expand hp = (Some (old, new), hp')" and "hp_cap hp \<le> MAX_PERMITS"
  shows "hp_cap hp' = min (2 * hp_cap hp) MAX_PERMITS" "hp_cap hp < hp_cap hp'" "hp_connections hp' = hp_connections hp"
    "hp_permits hp' = hp_permits hp + (hp_cap hp' - hp_cap hp)"
  using assms by (auto simp: expand_def Let_def MAX_PERMITS_def split: if_splits)

lemma expand_host_ok:
  assumes "expand_host a p = Inr p'" and ok: "heap_ok {} p"
  shows "heap_ok {} p'" and "knows p' = knows p" and "balanced p n b \<Longrightarrow> balanced p' n b"
proof -
  from assms(1) obtain hp where hp: "hm_get (cp_pools p) a = Some hp"
    by (auto simp: expand_host_def split: option.splits)
  show "heap_ok {} p'" "knows p' = knows p"
    using assms hp by (auto simp: expand_host_def expand_def Let_def intro!: heap_ok_on_host split: if_splits prod.splits option.splits)
  show "balanced p' n b" if b: "balanced p n b"
  proof (cases "hp_permits hp = 0")
    case False
    with assms hp b show ?thesis by (simp add: expand_host_def)
  next
    case True
    with assms hp obtain old new hp' where e: "expand hp = (Some (old, new), hp')"
      and p': "p' = on_stats (\<lambda>s. s\<lparr>pool_expansions := pool_expansions s + 1\<rparr>) (on_host a (\<lambda>_. hp') p)"
      by (auto simp: expand_host_def split: prod.splits option.splits)
    have "balanced (on_host a (\<lambda>_. hp') p) n b"
    proof (rule balanced_on_host [OF b])
      fix hp1 assume h1: "hm_get (cp_pools p) a = Some hp1"
        and bal: "hp_permits hp1 + n + card (conns_of p a) = hp_cap hp1" "1 \<le> hp_cap hp1" "hp_cap hp1 \<le> MAX_PERMITS"
      have "hp1 = hp" using h1 hp by simp
      with bal expand_SomeD [OF e]
      show "hp_permits hp' + n + card (conns_of p a) = hp_cap hp' \<and> 1 \<le> hp_cap hp' \<and> hp_cap hp' \<le> MAX_PERMITS" by auto
    qed simp_all
    then show ?thesis by (simp add: p')
  qed
qed


lemma add_to_pool_room:
  assumes "heap_ok {} p" and "balanced p (Suc n) a"
  shows "\<exists>hp. hm_get (cp_pools p) a = Some hp \<and> length (hp_connections hp) < hp_cap hp"
proof -
  from assms(2) obtain hp where hp: "hm_get (cp_pools p) a = Some hp" "card (conns_of p a) < hp_cap hp"
    by (auto simp: balanced_def split: option.splits)
  have "distinct (hp_connections hp)" "set (hp_connections hp) \<subseteq> conns_of p a"
    using assms(1) hp(1) unfolding heap_ok_def host_conns_def by (metis option.simps(5))+
  then have "length (hp_connections hp) \<le> card (conns_of p a)"
    using card_mono [OF finite_conns_of] by (metis distinct_card)
  with hp show ?thesis by auto
qed

lemma add_to_pool_ok:
  assumes ok: "heap_ok {} p" and a: "pc_host conn = a" "pc_state conn = Active"
    and bal: "\<And>b. balanced p (n b + held b (Some a)) b" and eq: "add_to_pool a conn p = (c, p')"
  shows "heap_ok {} p'" and "knows p' = knows p" and "balanced p' (n b) b" and "c \<in> set (host_conns p' a)"
    and "cp_guards p' = c # cp_guards p" and "hm_get (cp_conns p') c = Some conn"
    and "cp_stats p' = (cp_stats p)\<lparr>connections_created := connections_created (cp_stats p) + 1,
                              active_connections := active_connections (cp_stats p) + 1\<rparr>"
proof -
  obtain hp where hp: "hm_get (cp_pools p) a = Some hp" "length (hp_connections hp) < hp_cap hp"
    using add_to_pool_room [OF ok] bal [of a] by (fastforce simp: held_def)
  have c: "c = cp_next p" using eq by (simp add: add_to_pool_def Let_def)
  define q where "q = p\<lparr>cp_conns := hm_insert c conn (cp_conns p), cp_next := c + 1, cp_guards := c # cp_guards p\<rparr>"
  define f where "f hp = (if length (hp_connections hp) < hp_cap hp
                    then hp\<lparr>hp_connections := hp_connections hp @ [c]\<rparr> else hp)" for hp :: host_pool
  define r where "r = on_host a f q"
  have p': "p' = on_stats (\<lambda>s. s\<lparr>connections_created := connections_created s + 1,
                   active_connections := active_connections s + 1\<rparr>) r"
    using arg_cong [OF eq, of snd] unfolding add_to_pool_def Let_def c [symmetric] r_def q_def f_def [abs_def] snd_conv
    by (rule sym)
  have fresh: "hm_get (cp_conns p) c = None" using ok c unfolding heap_ok_def by (metis less_irrefl not_None_eq)
  have conns: "conns_of r = (conns_of p)(a := insert c (conns_of p a))"
    using fresh a by (auto simp: conns_of_def r_def q_def c hm_simps fun_eq_iff)
  have hc: "host_conns r = (host_conns p)(a := hp_connections hp @ [c])"
    using hp by (auto simp: host_conns_def r_def get_on_host q_def f_def c fun_eq_iff)
  have old: "host_conns p a = hp_connections hp" using hp by (simp add: host_conns_def)
  have new: "c \<notin> conns_of p b" for b using fresh by (simp add: conns_of_def)
  have "host_conns p' = host_conns r" by (simp add: p' host_conns_def fun_eq_iff)
  then show "c \<in> set (host_conns p' a)" by (simp add: hc)
  show "knows p' = knows p" by (auto simp: p' knows_def r_def get_on_host q_def split: if_splits)
  show "cp_guards p' = c # cp_guards p" "hm_get (cp_conns p') c = Some conn"
    by (simp_all add: p' r_def q_def c hm_simps)
  show "cp_stats p' = (cp_stats p)\<lparr>connections_created := connections_created (cp_stats p) + 1,
                              active_connections := active_connections (cp_stats p) + 1\<rparr>"
    by (simp add: p' r_def q_def)
  have "heap_ok {} r"
  proof -
    have pools: "hm_ok (cp_pools r)" using ok by (simp add: r_def on_host_def q_def heap_ok_def)
    have guard: "c \<notin> set (cp_guards p)" using ok fresh by (auto simp: heap_ok_def)
    have vec: "distinct (hp_connections hp)" "set (hp_connections hp) \<subseteq> conns_of p a"
      using ok unfolding heap_ok_def old [symmetric] by blast+
    then have dist: "c \<notin> set (hp_connections hp)" using new [of a] by blast
    show ?thesis
      using ok pools guard dist vec a old unfolding heap_ok_def conns hc
      by (auto simp: r_def q_def c hm_simps less_Suc_eq) metis
  qed
  then show "heap_ok {} p'" by (simp add: p')
  have "balanced r (n b) b"
  proof (cases "b = a")
    case True
    have "card (insert c (conns_of p a)) = Suc (card (conns_of p a))"
      using new finite_conns_of by simp
    with True bal [of a, unfolded held_def] hp show ?thesis unfolding balanced_def conns
      by (simp add: r_def get_on_host q_def f_def)
  next
    case False
    then have "hm_get (cp_pools r) b = hm_get (cp_pools p) b" by (simp add: r_def get_on_host q_def)
    from balanced_at [OF this] False bal [of b] show ?thesis by (simp add: conns held_def)
  qed
  then show "balanced p' (n b) b" by (simp add: p')
qed


lemma record_result_ok:
  assumes "heap_ok {} p"
  shows "heap_ok {} (record_result i a r p)" and "knows (record_result i a r p) = knows p"
    and "balanced p n b \<Longrightarrow> balanced (record_result i a r p) n b"
proof -
  show "heap_ok {} (record_result i a r p)" "knows (record_result i a r p) = knows p"
    using assms by (auto simp: record_result_def record_success_def record_error_def intro!: heap_ok_on_host
        split: option.split sum.split)
  show "balanced p n b \<Longrightarrow> balanced (record_result i a r p) n b"
    by (auto simp: record_result_def record_success_def record_error_def elim!: balanced_on_host
        split: option.split sum.split)
qed

lemma task_step_ok:
  assumes "task_step i t p = (t', p')" and "heap_ok {} p" and "task_ok p t"
    and "\<And>a. balanced p (n a + held a (permit_of t)) a"
  shows "heap_ok {} p' \<and> task_ok p' t' \<and> knows p \<subseteq> knows p' \<and> (\<forall>a. balanced p' (n a + held a (permit_of t')) a)"
proof (cases t)
  case (GetExisting a)
  show ?thesis
  proof (cases "try_get_existing i a p")
    case (Pair r q)
    then show ?thesis using assms GetExisting try_get_existing_keeps [of i a p _ q]
      by (cases r) (auto simp: try_get_existing_def split: option.splits)
  qed
next
  case (CheckBackoff a)
  then show ?thesis using assms by (auto split: option.splits if_splits)
next
  case (EnsureHost a)
  with assms(1) have "t' = TryAcquire a" "p' = ensure_host a p" by auto
  then show ?thesis using assms(2-) EnsureHost ensure_host_ok [OF assms(2), where a = a] by auto
next
  case (TryAcquire a)
  with assms(4) have b: "balanced p (n a) a" for a by simp
  show ?thesis using TryAcquire assms try_acquire_ok(1,2) [of a p p'] try_acquire_ok(3) [OF _ b, of a p']
    by (cases "try_acquire a p") auto
next
  case (Expand a)
  then show ?thesis using assms expand_host_ok [of a p p']
    by (auto split: sum.splits)
next
  case (WaitPermit a)
  with assms(4) have b: "balanced p (n a) a" for a by simp
  show ?thesis using WaitPermit assms try_acquire_ok(1,2) [of a p p'] try_acquire_ok(3) [OF _ b, of a p']
    by (cases "try_acquire a p") auto
next
  case (Connecting a)
  then show ?thesis using assms release_balanced [of p _ _ a]
    by (auto simp: create_connection_inner_def release_heap mark_used_def pooled_connection_new_def split: option.splits)
next
  case (RecordResult a r)
  then show ?thesis using assms record_result_ok [OF assms(2), where i = i and a = a and r = r]
    by (cases r) auto
next
  case (AddToPool a conn)
  then obtain c where c: "add_to_pool a conn p = (c, p')" "t' = Done (Guard c)" using assms(1) by (auto split: prod.splits)
  have a: "pc_host conn = a" "pc_state conn = Active" using assms(3) AddToPool by auto
  have "balanced p (n b + held b (Some a)) b" for b using assms(4) [of b] AddToPool a by simp
  from add_to_pool_ok [OF assms(2) a this c(1)] show ?thesis using AddToPool c(2) by simp
qed (use assms in auto)


subsection \<open>Guards, cleanup and reachability\<close>

lemma guard_drop_ok:
  assumes ok: "heap_ok {} p" and c: "c \<in> set (cp_guards p)" "c \<notin> set (cp_locked p)"
  shows "heap_ok {} (guard_drop i c p)" and "knows (guard_drop i c p) = knows p"
    and "balanced p n a \<Longrightarrow> balanced (guard_drop i c p) n a"
proof -
  define q where "q = (case try_lock i c p of
                  Some _ \<Rightarrow> p\<lparr>cp_conns := hm_modify c mark_idle (cp_conns p)\<rparr> | None \<Rightarrow> p)"
  define r where "r = (on_stats (\<lambda>s. s\<lparr>active_connections := active_connections s - 1,
                              idle_connections := idle_connections s + 1\<rparr>) q)\<lparr>cp_guards := remove1 c (cp_guards p)\<rparr>"
  have q_frame: "cp_guards q = cp_guards p" "cp_locked q = cp_locked p" "cp_next q = cp_next p" "cp_pools q = cp_pools p"
    by (simp_all add: q_def split: option.split)
  have drop: "guard_drop i c p = drop_arc c r"
    using q_frame unfolding guard_drop_def Let_def q_def [symmetric] r_def by simp
  have q_conns: "dom (hm_get (cp_conns q)) = dom (hm_get (cp_conns p))"
    and get: "hm_get (cp_conns q) d = Some v \<Longrightarrow> \<exists>u. hm_get (cp_conns p) d = Some u \<and> pc_host u = pc_host v \<and> (d = c \<or> u = v)" for d v
    by (auto simp: q_def hm_simps mark_idle_def split: option.splits if_splits)
  have "conns_of r = conns_of q" by (rule conns_of_cong) (simp add: r_def)
  also have "conns_of q = conns_of p"
    by (auto simp: conns_of_def q_def hm_simps mark_idle_def fun_eq_iff split: option.split)
  finally have conns: "conns_of r = conns_of p" .
  have hc: "host_conns r = host_conns p" by (simp add: host_conns_def r_def q_frame fun_eq_iff)
  have "heap_ok {c} r"
    using ok c q_conns unfolding heap_ok_def conns hc by (auto simp: r_def q_frame dest!: get)
  then show "heap_ok {} (guard_drop i c p)" unfolding drop by (rule drop_arc_heap)
  show "knows (guard_drop i c p) = knows p" by (simp add: drop) (simp add: knows_def r_def q_frame)
  have "balanced r n a = balanced p n a" by (rule balanced_cong [OF conns]) (simp add: r_def q_frame)
  then show "balanced p n a \<Longrightarrow> balanced (guard_drop i c p) n a" by (simp add: drop drop_arc_balanced)
qed

lemma cleanup_ok:
  assumes ok: "heap_ok {} p"
  shows "heap_ok {} (cleanup i p)" and "knows (cleanup i p) = knows p"
    and "balanced p n a \<Longrightarrow> balanced (cleanup i p) n a"
proof -
  let ?keep = "cleanup_keep i p"
  define cs where "cs = filter (\<lambda>c. \<not> ?keep c) (pooled p)"
  define q where "q = p\<lparr>cp_pools := hm_map_values (\<lambda>hp. hp\<lparr>hp_connections := filter ?keep (hp_connections hp)\<rparr>) (cp_pools p)\<rparr>"
  have eq: "cleanup i p = (if length cs > 0 then on_stats (\<lambda>s. s\<lparr>connections_closed := connections_closed s + of_nat (length cs)\<rparr>)
      (fold drop_arc cs q) else fold drop_arc cs q)"
    by (simp add: cleanup_def Let_def cs_def q_def)
  have conns: "conns_of q = conns_of p" by (rule conns_of_cong) (simp add: q_def)
  have hc: "host_conns q = (\<lambda>a. filter ?keep (host_conns p a))"
    by (simp add: host_conns_def q_def hm_simps fun_eq_iff split: option.split)
  have pools: "hm_ok (cp_pools q)" "hm_ok (cp_pools p)" using ok by (simp_all add: q_def heap_ok_def)
  have "set cs = {c. \<not> ?keep c \<and> (\<exists>a. c \<in> set (host_conns p a))}"
    using mem_pooled [OF pools(2)] by (auto simp: cs_def)
  then have "heap_ok (set cs) q"
    using ok pools(1) unfolding heap_ok_def conns hc by (auto simp: q_def) metis
  moreover have "balanced q n a" if "balanced p n a" for n a
    using that unfolding balanced_def conns by (auto simp: q_def hm_simps split: option.splits)
  moreover have "knows q = knows p" by (auto simp: knows_def q_def hm_simps)
  ultimately show "heap_ok {} (cleanup i p)" "knows (cleanup i p) = knows p"
    "balanced p n a \<Longrightarrow> balanced (cleanup i p) n a"
    using drop_arcs_heap [of cs "{}" q] drop_arcs_balanced by (auto simp: eq)
qed

lemma holders_update:
  assumes "k < length ts"
  shows "\<exists>n. \<forall>t. holders (ts[k := t]) a = n + held a (permit_of t)"
proof -
  let ?f = "\<lambda>t. held a (permit_of t)"
  have "holders (ts[k := t]) a = holders ts a + ?f t - ?f (ts ! k)" for t
    using assms by (simp add: holders_def map_update sum_list_update)
  moreover have "?f (ts ! k) \<le> holders ts a"
    unfolding holders_def using assms by (intro member_le_sum_list) simp_all
  ultimately show ?thesis by (intro exI [of _ "holders ts a - ?f (ts ! k)"]) simp
qed

lemma pool_inv_split:
  assumes "pool_inv (p, ts)" and "k < length ts"
  obtains n where "\<And>a t. holders (ts[k := t]) a = n a + held a (permit_of t)"
    and "\<And>a. balanced p (n a + held a (permit_of (ts ! k))) a"
proof -
  obtain n where n: "\<And>a t. holders (ts[k := t]) a = n a + held a (permit_of t)"
    using holders_update [OF assms(2)] by metis
  have "holders ts a = n a + held a (permit_of (ts ! k))" for a using n [of "ts ! k" a] by simp
  then have "balanced p (n a + held a (permit_of (ts ! k))) a" for a
    using assms(1) unfolding pool_inv_def by (metis fst_conv snd_conv)
  with n show thesis by (rule that)
qed

lemma pool_inv_frame:
  assumes "pool_inv (p, ts)" and "heap_ok {} p \<Longrightarrow> heap_ok {} q" and "heap_ok {} p \<Longrightarrow> knows q = knows p"
    and "\<And>n a. heap_ok {} p \<Longrightarrow> balanced p n a \<Longrightarrow> balanced q n a"
  shows "pool_inv (q, ts)"
  using assms task_ok_mono [of p _ q] by (auto simp: pool_inv_def)

lemma locked_ok:
  assumes "heap_ok {} p" and "set ls \<subseteq> set (cp_guards p)"
  shows "heap_ok {} (p\<lparr>cp_locked := ls\<rparr>)"
proof -
  let ?q = "p\<lparr>cp_locked := ls\<rparr>"
  have "conns_of ?q = conns_of p" by (rule conns_of_cong) simp
  moreover have "host_conns ?q = host_conns p" by (simp add: host_conns_def fun_eq_iff)
  ultimately show ?thesis using assms unfolding heap_ok_def by simp
qed

lemma locked_frame [simp]:
  "knows (p\<lparr>cp_locked := ls\<rparr>) = knows p" "balanced (p\<lparr>cp_locked := ls\<rparr>) n a = balanced p n a"
  using balanced_cong [OF conns_of_cong, of "p\<lparr>cp_locked := ls\<rparr>" p] by (simp_all add: knows_def)

lemma pool_step_inv:
  assumes "pool_step s s'" and "pool_inv s"
  shows "pool_inv s'"
  using assms
proof (cases rule: pool_step.cases)
  case (start p ts a)
  with assms(2) show ?thesis by (auto simp: pool_inv_def holders_def)
next
  case (poll k ts i p t p')
  obtain n where n: "\<And>a t. holders (ts[k := t]) a = n a + held a (permit_of t)"
    and bal: "\<And>a. balanced p (n a + held a (permit_of (ts ! k))) a"
    using pool_inv_split [of p ts k] assms(2) poll(1,3) by blast
  have "heap_ok {} p" "task_ok p (ts ! k)" using assms(2) poll by (auto simp: pool_inv_def)
  from task_step_ok [OF poll(4) this bal]
  have "heap_ok {} p'" "task_ok p' t" "knows p \<subseteq> knows p'" "\<forall>a. balanced p' (holders (ts[k := t]) a) a"
    by (simp_all add: n)
  moreover from this(3) have "\<forall>u \<in> set ts. task_ok p' u" using assms(2) poll(1) task_ok_mono by (auto simp: pool_inv_def)
  ultimately show ?thesis using poll(2) set_update_subset_insert [of ts k t] by (auto simp: pool_inv_def)
next
  case (cancel k ts p)
  obtain n where n: "\<And>a t. holders (ts[k := t]) a = n a + held a (permit_of t)"
    and bal: "\<And>a. balanced p (n a + held a (permit_of (ts ! k))) a"
    using pool_inv_split [of p ts k] assms(2) cancel(1,3) by blast
  then have "balanced (cancel_task (ts ! k) p) (n a) a" for a
    using bal [of a] by (auto simp: cancel_task_def intro: release_balanced split: option.splits)
  moreover have "heap_ok {} (cancel_task (ts ! k) p)" "knows (cancel_task (ts ! k) p) = knows p"
    using assms(2) cancel(1) by (auto simp: pool_inv_def cancel_task_def release_heap split: option.splits)
  moreover have "\<forall>u \<in> set ts. task_ok (cancel_task (ts ! k) p) u"
    using assms(2) cancel(1) calculation(3) task_ok_mono by (auto simp: pool_inv_def)
  ultimately show ?thesis using cancel(2) set_update_subset_insert [of ts k Cancelled] n [of Cancelled]
    by (auto simp: pool_inv_def)
next
  case (lock c p ts)
  with assms(2) show ?thesis by (auto intro!: pool_inv_frame [of p ts] locked_ok simp: heap_ok_def)
next
  case (unlock p ts c)
  with assms(2) show ?thesis by (auto intro!: pool_inv_frame [of p ts] locked_ok simp: heap_ok_def)
next
  case (drop_guard c p ts i)
  with assms(2) guard_drop_ok [of p c] show ?thesis by (auto intro: pool_inv_frame [of p ts])
next
  case (clean p ts i)
  with assms(2) cleanup_ok [of p] show ?thesis by (auto intro: pool_inv_frame [of p ts])
qed

lemma pool_reachable_inv: "pool_reachable cfg s \<Longrightarrow> pool_inv s"
proof (induction rule: pool_reachable.induct)
  case init
  show ?case by (simp add: pool_inv_def heap_ok_def with_config_def host_conns_def balanced_def conns_of_def holders_def)
qed (rule pool_step_inv)


subsection \<open>The counters\<close>

definition stats_inv :: "connection_pool \<Rightarrow> bool" where
  "stats_inv p \<longleftrightarrow>
     active_connections (cp_stats p) = of_nat (length (cp_guards p)) \<and>
     idle_connections (cp_stats p) + active_connections (cp_stats p) = connections_created (cp_stats p)"

lemma stats_inv_cong:
  "cp_stats p = cp_stats q \<Longrightarrow> cp_guards p = cp_guards q \<Longrightarrow> stats_inv p = stats_inv q"
  by (simp add: stats_inv_def)

lemma task_step_frame:
  assumes "task_step i t p = (t', p')" and "\<And>a. t \<noteq> GetExisting a" and "\<And>a c. t \<noteq> AddToPool a c"
  shows "cp_guards p' = cp_guards p" and "stats_inv p' = stats_inv p"
  using assms by (cases t; auto simp: ensure_host_def try_acquire_def expand_host_def create_connection_inner_def
      record_result_def stats_inv_def split: option.splits sum.splits if_splits prod.splits)+

lemma task_step_stats:
  assumes "task_step i t p = (t', p')" and "stats_inv p"
  shows "stats_inv p'"
proof -
  consider (get) a where "t = GetExisting a" | (add) a c where "t = AddToPool a c"
    | (other) "\<And>a. t \<noteq> GetExisting a" "\<And>a c. t \<noteq> AddToPool a c" by blast
  then show ?thesis
  proof cases
    case get
    with assms show ?thesis
      by (auto simp: try_get_existing_def stats_inv_def algebra_simps split: option.splits prod.splits)
  next
    case add
    with assms show ?thesis by (auto simp: add_to_pool_def Let_def stats_inv_def algebra_simps)
  qed (use assms task_step_frame in blast)
qed

lemma guard_drop_stats:
  assumes "c \<in> set (cp_guards p)" and "stats_inv p"
  shows "stats_inv (guard_drop i c p)"
proof -
  obtain n where "length (cp_guards p) = Suc n" using assms(1) by (cases "cp_guards p") auto
  then have "of_nat (length (remove1 c (cp_guards p))) = (of_nat (length (cp_guards p)) - 1 :: usize)"
    using assms(1) by (simp add: length_remove1)
  with assms(2) show ?thesis
    by (auto simp: guard_drop_def stats_inv_def Let_def algebra_simps split: option.split)
qed

lemma pool_reachable_stats: "pool_reachable cfg s \<Longrightarrow> stats_inv (fst s)"
proof (induction rule: pool_reachable.induct)
  case init
  show ?case by (simp add: stats_inv_def with_config_def stats_default_def)
next
  case (step s s')
  from step.hyps(2) step.IH show ?case
  proof (cases rule: pool_step.cases)
    case (cancel k ts p)
    have "stats_inv (cancel_task (ts ! k) p) = stats_inv p"
      by (rule stats_inv_cong) (simp_all add: cancel_task_def split: option.split)
    with cancel step.IH show ?thesis by simp
  next
    case (clean p ts i)
    have "stats_inv (cleanup i p) = stats_inv p" by (simp add: cleanup_def Let_def stats_inv_def)
    with clean step.IH show ?thesis by simp
  qed (auto simp: stats_inv_def dest: task_step_stats [unfolded stats_inv_def]
      guard_drop_stats [unfolded stats_inv_def])
qed

subsection \<open>Properties\<close>

text \<open>
  C33. Whatever the interleaving of requests, cancellations, guards and cleanups: the permits of a
  host that are free, held by a request and held by a live connection add up to its capacity;
  a connection that is about to be added finds room in the vector, as the comment in the code
  claims; every guard holds a live connection of its own; a connection lives exactly as long
  as the vector or a guard refers to it; and the active counter is the number of guards,
  while the idle counter is the number of all connections ever created less the active ones,
  whether they still exist or not.
\<close>

theorem pool_accounts_for_permits:
  assumes "pool_reachable cfg (p, ts)"
  shows "(\<forall>a hp. hm_get (cp_pools p) a = Some hp \<longrightarrow>
       hp_permits hp + holders ts a + card (conns_of p a) = hp_cap hp \<and> hp_cap hp \<le> MAX_PERMITS) \<and>
    (\<forall>a conn. AddToPool a conn \<in> set ts \<longrightarrow>
       (\<exists>hp. hm_get (cp_pools p) a = Some hp \<and> length (hp_connections hp) < hp_cap hp)) \<and>
    distinct (cp_guards p) \<and>
    (\<forall>c \<in> set (cp_guards p). \<exists>conn. hm_get (cp_conns p) c = Some conn \<and> pc_state conn = Active) \<and>
    (\<forall>c. hm_get (cp_conns p) c \<noteq> None \<longleftrightarrow> c \<in> set (pooled p) \<or> c \<in> set (cp_guards p)) \<and>
    active_connections (cp_stats p) = of_nat (length (cp_guards p)) \<and>
    idle_connections (cp_stats p) = connections_created (cp_stats p) - active_connections (cp_stats p)"
proof (intro conjI allI impI ballI)
  have inv: "pool_inv (p, ts)" using assms by (rule pool_reachable_inv)
  then have ok: "heap_ok {} p" and bal: "balanced p (holders ts a) a" for a by (simp_all add: pool_inv_def)
  show "hp_permits hp + holders ts a + card (conns_of p a) = hp_cap hp" "hp_cap hp \<le> MAX_PERMITS"
    if "hm_get (cp_pools p) a = Some hp" for a hp using bal [of a] that by (simp_all add: balanced_def)
  show "\<exists>hp. hm_get (cp_pools p) a = Some hp \<and> length (hp_connections hp) < hp_cap hp"
    if "AddToPool a conn \<in> set ts" for a conn
  proof -
    have "pc_host conn = a" using inv that by (auto simp: pool_inv_def)
    then have "held a (permit_of (AddToPool a conn)) = 1" by (simp add: held_def)
    with that have "1 \<le> holders ts a" unfolding holders_def
      by (metis (mono_tags, lifting) image_eqI list.set_map member_le_sum_list zero_le)
    then have "holders ts a \<noteq> 0" by simp
    then obtain n where "holders ts a = Suc n" using not0_implies_Suc by blast
    with add_to_pool_room [OF ok, of n a] bal [of a] show ?thesis by simp
  qed
  show "distinct (cp_guards p)" using ok by (simp add: heap_ok_def)
  show "\<exists>conn. hm_get (cp_conns p) c = Some conn \<and> pc_state conn = Active" if "c \<in> set (cp_guards p)" for c
    using ok that unfolding heap_ok_def by (metis domD subsetD)
  have pools: "hm_ok (cp_pools p)" using ok by (simp add: heap_ok_def)
  show "hm_get (cp_conns p) c \<noteq> None \<longleftrightarrow> c \<in> set (pooled p) \<or> c \<in> set (cp_guards p)" for c
    using ok in_host_conns [OF ok, of c] unfolding heap_ok_def mem_pooled [OF pools]
    by (metis domD empty_iff not_None_eq subsetD)
  have st: "stats_inv p" using pool_reachable_stats [OF assms] by simp
  then show "active_connections (cp_stats p) = of_nat (length (cp_guards p))" by (simp add: stats_inv_def)
  show "idle_connections (cp_stats p) = connections_created (cp_stats p) - active_connections (cp_stats p)"
    using st unfolding stats_inv_def by (metis add_diff_cancel_right')
qed


text \<open>How far a request is from its result, and what holds while it runs alone.\<close>

fun rank :: "conn_task \<Rightarrow> nat" where
  "rank (GetExisting a) = 9"
| "rank (CheckBackoff a) = 8"
| "rank (EnsureHost a) = 7"
| "rank (TryAcquire a) = 6"
| "rank (Expand a) = 5"
| "rank (WaitPermit a) = 4"
| "rank (Connecting a) = 3"
| "rank (RecordResult a r) = 2"
| "rank (AddToPool a c) = 1"
| "rank _ = 0"

fun task_host :: "conn_task \<Rightarrow> socket_addr option" where
  "task_host (GetExisting a) = Some a"
| "task_host (CheckBackoff a) = Some a"
| "task_host (EnsureHost a) = Some a"
| "task_host (TryAcquire a) = Some a"
| "task_host (Expand a) = Some a"
| "task_host (WaitPermit a) = Some a"
| "task_host (Connecting a) = Some a"
| "task_host (RecordResult a r) = Some a"
| "task_host (AddToPool a c) = Some a"
| "task_host _ = None"

fun outcome :: "socket_addr \<Rightarrow> conn_id list \<Rightarrow> connection_pool \<Rightarrow> conn_result \<Rightarrow> bool" where
  "outcome a gs p (Guard c) =
     (cp_guards p = c # gs \<and> c \<in> set (host_conns p a) \<and>
      (\<exists>conn. hm_get (cp_conns p) c = Some conn \<and> pc_host conn = a \<and> pc_state conn = Active))"
| "outcome a gs p (Failed b e) =
     (b = a \<and> cp_guards p = gs \<and>
      (case e of
         BackingOff \<Rightarrow> True
       | ConnectFailed _ \<Rightarrow> True
       | AtMaxPermits \<Rightarrow> (\<exists>hp. hm_get (cp_pools p) a = Some hp \<and> hp_cap hp = MAX_PERMITS)
       | Disappeared \<Rightarrow> False
       | PermitTimeout \<Rightarrow> False))"

definition phase_ok :: "socket_addr \<Rightarrow> conn_id list \<Rightarrow> conn_task \<Rightarrow> connection_pool \<Rightarrow> bool" where
  "phase_ok a gs t p =
     (case t of
        Done r \<Rightarrow> outcome a gs p r
      | Cancelled \<Rightarrow> False
      | WaitPermit b \<Rightarrow> b = a \<and> cp_guards p = gs \<and> try_acquire a p \<noteq> None
      | _ \<Rightarrow> task_host t = Some a \<and> cp_guards p = gs)"

definition running :: "socket_addr \<Rightarrow> conn_id list \<Rightarrow> conn_task \<times> connection_pool \<Rightarrow> bool" where
  "running a gs s \<longleftrightarrow>
     heap_ok {} (snd s) \<and> task_ok (snd s) (fst s) \<and>
     (\<exists>n. \<forall>b. balanced (snd s) (n b + held b (permit_of (fst s))) b) \<and> phase_ok a gs (fst s) (snd s)"

lemma expand_host_progress:
  assumes "heap_ok {} p" and "a \<in> knows p" and "\<And>b. balanced p (n b) b"
  shows "case expand_host a p of
       Inl e \<Rightarrow> e = AtMaxPermits \<and> (\<exists>hp. hm_get (cp_pools p) a = Some hp \<and> hp_cap hp = MAX_PERMITS)
     | Inr p' \<Rightarrow> try_acquire a p' \<noteq> None"
proof -
  obtain hp where hp: "hm_get (cp_pools p) a = Some hp" using assms(2) by (auto simp: knows_def)
  have cap: "1 \<le> hp_cap hp" "hp_cap hp \<le> MAX_PERMITS" using assms(3) [of a] hp by (auto simp: balanced_def)
  show ?thesis
  proof (cases "hp_permits hp = 0")
    case False
    with hp show ?thesis by (simp add: expand_host_def try_acquire_def)
  next
    case True
    have "min (min (hp_cap hp * 2) (2 ^ 64 - 1)) MAX_PERMITS = min (hp_cap hp * 2) MAX_PERMITS"
      by (simp add: MAX_PERMITS_def)
    with True hp cap show ?thesis
      by (auto simp: expand_host_def expand_def Let_def try_acquire_def get_on_host min_def)
  qed
qed

lemma get_existing_phase:
  assumes ok: "heap_ok {} p" and gs: "cp_guards p = gs" and eq: "task_step i (GetExisting a) p = (t', p')"
  shows "phase_ok a gs t' p' \<and> rank t' < 9"
proof (cases "fst (try_get_existing i a p)")
  case None
  then have "t' = CheckBackoff a" "p' = p" using eq by (auto simp: try_get_existing_def split: option.splits)
  with gs show ?thesis by (simp add: phase_ok_def)
next
  case (Some c)
  then obtain q where q: "try_get_existing i a p = (Some c, q)" by (metis prod.collapse)
  then have t: "t' = Done (Guard c)" "p' = on_stats (\<lambda>s. s\<lparr>connections_reused := connections_reused s + 1\<rparr>) q"
    using eq by auto
  note q' = try_get_existing_SomeD [OF q]
  obtain v where v: "hm_get (cp_conns p) c = Some v" "pc_host v = a" using in_host_conns [OF ok q'(1)] by blast
  have "host_conns p' = host_conns p" by (simp add: t q'(3) host_conns_def fun_eq_iff)
  with q'(1) v gs have "outcome a gs p' (Guard c)" by (simp add: t q'(3) hm_simps mark_used_def)
  with t show ?thesis by (simp add: phase_ok_def)
qed

lemma expand_phase:
  assumes "heap_ok {} p" and "a \<in> knows p" and "\<And>b. balanced p (n b) b" and "cp_guards p = gs"
    and eq: "task_step i (Expand a) p = (t', p')"
  shows "phase_ok a gs t' p' \<and> rank t' < 5"
proof (cases "expand_host a p")
  case (Inl e)
  with expand_host_progress [OF assms(1-3)] eq assms(4) show ?thesis by (auto simp: phase_ok_def)
next
  case (Inr q)
  then have "cp_guards q = cp_guards p" by (auto simp: expand_host_def split: option.splits if_splits prod.splits)
  with Inr expand_host_progress [OF assms(1-3)] eq assms(4) show ?thesis by (auto simp: phase_ok_def)
qed

lemma add_to_pool_phase:
  assumes "heap_ok {} p" and "task_ok p (AddToPool a conn)" and "\<And>b. balanced p (n b + held b (permit_of (AddToPool a conn))) b"
    and "cp_guards p = gs" and eq: "task_step i (AddToPool a conn) p = (t', p')"
  shows "phase_ok a gs t' p' \<and> rank t' < 1"
proof -
  obtain c where c: "add_to_pool a conn p = (c, p')" "t' = Done (Guard c)" using eq by (auto split: prod.splits)
  have a: "pc_host conn = a" "pc_state conn = Active" using assms(2) by simp_all
  have "balanced p (n b + held b (Some a)) b" for b using assms(3) [of b] a by simp
  from add_to_pool_ok(4-6) [OF assms(1) a this c(1)] have "outcome a gs p' (Guard c)" using assms(4) a by simp
  with c show ?thesis by (simp add: phase_ok_def)
qed

lemma running_step:
  assumes run: "running a gs (t, p)" and eq: "task_step i t p = (t', p')"
  shows "running a gs (t', p')" and "rank t \<noteq> 0 \<Longrightarrow> rank t' < rank t"
proof -
  from run have ok: "heap_ok {} p" "task_ok p t" and ph: "phase_ok a gs t p" by (simp_all add: running_def)
  from run obtain n where bal: "\<And>b. balanced p (n b + held b (permit_of t)) b" by (auto simp: running_def)
  have keep: "heap_ok {} p'" "task_ok p' t'" "\<exists>n. \<forall>b. balanced p' (n b + held b (permit_of t')) b"
    using task_step_ok [OF eq ok bal] by blast+
  have frame: "cp_guards p' = cp_guards p" if "rank t \<noteq> 9" "rank t \<noteq> 1"
    using task_step_frame(1) [OF eq] that by (cases t) auto
  have "phase_ok a gs t' p' \<and> (rank t \<noteq> 0 \<longrightarrow> rank t' < rank t)"
  proof (cases t)
    case (GetExisting b)
    then show ?thesis using ph eq get_existing_phase [OF ok(1)] by (simp add: phase_ok_def)
  next
    case (Expand b)
    then show ?thesis using ph eq ok bal expand_phase [OF ok(1), of a n gs] by (simp add: phase_ok_def)
  next
    case (AddToPool b conn)
    then have "b = a" "cp_guards p = gs" using ph by (simp_all add: phase_ok_def)
    with AddToPool add_to_pool_phase [OF ok(1), of a conn n gs i t' p'] ok(2) bal eq show ?thesis by simp
  next
    case (CheckBackoff b)
    then show ?thesis using ph eq by (auto simp: phase_ok_def split: option.splits if_splits)
  next
    case (EnsureHost b)
    then show ?thesis using ph eq frame by (auto simp: phase_ok_def)
  next
    case (TryAcquire b)
    then show ?thesis using ph eq frame by (auto simp: phase_ok_def split: option.splits)
  next
    case (WaitPermit b)
    then show ?thesis using ph eq frame by (auto simp: phase_ok_def)
  next
    case (Connecting b)
    then show ?thesis using ph eq frame by (auto simp: phase_ok_def split: prod.splits)
  next
    case (RecordResult b r)
    then show ?thesis using ph eq frame by (cases r) (auto simp: phase_ok_def)
  qed (use ph eq in \<open>auto simp: phase_ok_def\<close>)
  with keep show "running a gs (t', p')" "rank t \<noteq> 0 \<Longrightarrow> rank t' < rank t" unfolding running_def by simp_all
qed

lemma running_run:
  assumes "running a gs (t, p)" and "rank t \<le> m"
  shows "\<exists>r p'. run_task i m (t, p) = (Done r, p') \<and> outcome a gs p' r"
proof -
  have "running a gs (run_task i k (t, p)) \<and> rank (fst (run_task i k (t, p))) \<le> m - k" if "k \<le> m" for k
    using that
  proof (induction k)
    case (Suc k)
    obtain u q where u: "run_task i k (t, p) = (u, q)" by (cases "run_task i k (t, p)")
    obtain u' q' where u': "task_step (i k) u q = (u', q')" by (cases "task_step (i k) u q")
    have run: "running a gs (u, q)" and "rank u \<le> m - k" using Suc u by simp_all
    moreover have "rank u' \<le> m - Suc k"
    proof (cases "rank u = 0")
      case True
      then have "rank u' = 0" using u' by (cases u) auto
      then show ?thesis by simp
    qed (use running_step(2) [OF run u'] calculation(2) in linarith)
    ultimately show ?case using running_step(1) [OF run u'] u u' by simp
  qed (use assms in simp)
  from this [of m] have "running a gs (run_task i m (t, p))" "rank (fst (run_task i m (t, p))) = 0" by simp_all
  then show ?thesis by (cases "run_task i m (t, p)"; cases "fst (run_task i m (t, p))") (auto simp: running_def phase_ok_def)
qed


subsection \<open>An example run\<close>

lemma run_task_reachable:
  assumes "pool_reachable cfg (p, ts)"
  shows "pool_reachable cfg (snd (run_task i n (GetExisting a, p)), ts @ [fst (run_task i n (GetExisting a, p))])"
proof (induction n)
  case 0
  show ?case using pool_reachable.step [OF assms pool_step.start] by simp
next
  case (Suc n)
  obtain t q where tq: "run_task i n (GetExisting a, p) = (t, q)" by (cases "run_task i n (GetExisting a, p)")
  obtain t' q' where tq': "task_step (i n) t q = (t', q')" by (cases "task_step (i n) t q")
  have "pool_step (q, ts @ [t]) (q', (ts @ [t])[length ts := t'])"
    by (rule pool_step.poll [of _ _ "i n"]) (simp_all add: tq')
  with Suc.IH tq tq' show ?case by (simp add: pool_reachable.step)
qed

definition demo_input :: poll_input where
  "demo_input = \<lparr>pi_now = 0, pi_ready = \<lambda>_. True, pi_busy = \<lambda>_. False, pi_connect = None, pi_timed_out = False\<rparr>"

definition demo_run :: "nat \<Rightarrow> conn_task \<times> connection_pool" where
  "demo_run n = run_task (\<lambda>_. demo_input) n (GetExisting ''h'', with_config (pool_config_from 1 0))"

lemma demo_reachable: "pool_reachable (pool_config_from 1 0) (snd (demo_run n), [fst (demo_run n)])"
  using run_task_reachable [OF pool_reachable.init, of _ "\<lambda>_. demo_input"] by (simp add: demo_run_def)

lemmas demo_defs = demo_input_def with_config_def pool_config_from_def pool_config_default_def
  try_get_existing_def ensure_host_def host_pool_new_def try_acquire_def create_connection_inner_def record_result_def
  record_success_def add_to_pool_def on_host_def on_stats_def hm_modify_def MAX_PERMITS_def pooled_connection_new_def
  mark_used_def stats_default_def

lemma demo_before_add: "\<exists>conn. fst (demo_run 6) = AddToPool ''h'' conn"
  and demo_guard: "cp_guards (snd (demo_run 7)) = [0]"
proof -
  have n: "(6::nat) = Suc (Suc (Suc (Suc (Suc (Suc 0)))))" "(7::nat) = Suc 6" by simp_all
  show "\<exists>conn. fst (demo_run 6) = AddToPool ''h'' conn"
    unfolding demo_run_def n by (simp only: run_task.simps) (simp add: demo_defs Let_def)
  show "cp_guards (snd (demo_run 7)) = [0]"
    unfolding demo_run_def n by (simp only: run_task.simps) (simp add: demo_defs Let_def)
qed

theorem pool_accounts_for_permits_witness:
  "\<exists>conn hp. fst (demo_run 6) = AddToPool ''h'' conn \<and>
     hm_get (cp_pools (snd (demo_run 6))) ''h'' = Some hp \<and> length (hp_connections hp) < hp_cap hp"
  using pool_accounts_for_permits [OF demo_reachable [of 6], THEN conjunct2, THEN conjunct1] demo_before_add by force


end
