(* ===== verification/Retry.thy ===== *)
theory Retry
  imports Errors PoolProps
begin

text \<open>
  The retry policy of the HTTP/2 client, \<^verbatim>\<open>transport/http2/retry.rs\<close>, and the two request
  forms that use it, \<^verbatim>\<open>Http2Client::ask\<close> and \<^verbatim>\<open>Http2Client::tell\<close>. The operation that is
  retried is a function of the number of the call; the pauses between the attempts are
  recorded by the number of the attempt they precede, their lengths (floating-point
  arithmetic with a jitter read from the clock) are not modelled. Sending a request and
  collecting its response is a parameter, as is the text of a status code.
\<close>

subsection \<open>Configuration\<close>

record retry_config =
  max_retries :: u32
  initial_delay :: duration
  max_delay :: duration
  use_jitter :: bool
  idempotent_only :: bool

definition retry_config_default :: retry_config where
  "retry_config_default =
     \<lparr>max_retries = 3, initial_delay = from_millis 100, max_delay = from_secs 10, use_jitter = True,
      idempotent_only = True\<rparr>"

definition no_retry :: retry_config where
  "no_retry = retry_config_default\<lparr>max_retries := 0\<rparr>"

definition with_max_retries :: "u32 \<Rightarrow> retry_config" where
  "with_max_retries n = retry_config_default\<lparr>max_retries := n\<rparr>"

definition allow_non_idempotent :: "retry_config \<Rightarrow> retry_config" where
  "allow_non_idempotent cfg = cfg\<lparr>idempotent_only := False\<rparr>"

subsection \<open>Classification\<close>

definition to_lower :: "char \<Rightarrow> char" where
  "to_lower c =
     (let n = of_char c :: nat in
      if 65 \<le> n \<and> n \<le> 90 \<or> 192 \<le> n \<and> n \<le> 222 \<and> n \<noteq> 215 then char_of (n + 32) else c)"

definition to_lowercase :: "string \<Rightarrow> string" where
  "to_lowercase s = map to_lower s"

datatype retryable_error = Connection | TimedOut | ServerOverloaded | ServerError | ClientError | Unknown

definition contains_any :: "string \<Rightarrow> string list \<Rightarrow> bool" where
  "contains_any s ps = (\<exists>p \<in> set ps. str_contains s p)"

definition classify_msg :: "string \<Rightarrow> retryable_error" where
  "classify_msg text1 =
     (let msg = to_lowercase text1 in
      if str_contains msg ''backing off'' then Unknown
      else if contains_any msg [''connection'', ''connect'', ''refused'', ''reset''] then Connection
      else if contains_any msg [''timeout'', ''timed out''] then TimedOut
      else if contains_any msg [''503'', ''service unavailable''] then ServerOverloaded
      else if contains_any msg [''500'', ''502'', ''504'', ''internal server error'', ''bad gateway'', ''gateway timeout'']
        then ServerError
      else if contains_any msg [''400'', ''401'', ''403'', ''404'', ''bad request'', ''unauthorized'', ''forbidden'', ''not found'']
        then ClientError
      else Unknown)"

definition classify_pulsing :: "pulsing_error \<Rightarrow> retryable_error" where
  "classify_pulsing e = classify_msg (to_lowercase (display e))"

fun is_retryable :: "bool \<Rightarrow> bool \<Rightarrow> retryable_error \<Rightarrow> bool" where
  "is_retryable only idem Connection = True"
| "is_retryable only idem TimedOut = (\<not> only \<or> idem)"
| "is_retryable only idem ServerOverloaded = True"
| "is_retryable only idem ServerError = (\<not> only \<or> idem)"
| "is_retryable only idem ClientError = False"
| "is_retryable only idem Unknown = False"

subsection \<open>The executor\<close>

record 'a retry_run =
  rr_result :: "pulsing_error + 'a"
  rr_calls :: nat  \<comment> \<open>how often the operation was called\<close>
  rr_pauses :: "nat list"  \<comment> \<open>the attempts that were preceded by a pause\<close>

definition should_retry :: "retry_config \<Rightarrow> bool \<Rightarrow> nat \<Rightarrow> pulsing_error \<Rightarrow> bool" where
  "should_retry cfg is_idempotent attempt e \<longleftrightarrow>
     attempt < unat (max_retries cfg) \<and> is_retryable (idempotent_only cfg) is_idempotent (classify_pulsing e)"

function retry_loop ::
  "retry_config \<Rightarrow> bool \<Rightarrow> (nat \<Rightarrow> pulsing_error + 'a) \<Rightarrow> nat \<Rightarrow> pulsing_error option \<Rightarrow> nat list \<Rightarrow> 'a retry_run" where
  "retry_loop cfg is_idempotent f attempt last_error pauses =
     (if attempt \<le> unat (max_retries cfg) then
        let pauses' = (if attempt > 0 then pauses @ [attempt] else pauses) in
        (case f attempt of
           Inr r \<Rightarrow> \<lparr>rr_result = Inr r, rr_calls = attempt + 1, rr_pauses = pauses'\<rparr>
         | Inl e \<Rightarrow>
             if should_retry cfg is_idempotent attempt e
             then retry_loop cfg is_idempotent f (attempt + 1) (Some e) pauses'
             else \<lparr>rr_result = Inl e, rr_calls = attempt + 1, rr_pauses = pauses'\<rparr>)
      else
        \<lparr>rr_result = Inl (case last_error of Some e \<Rightarrow> e | None \<Rightarrow> Runtime (Other ''Max retries exceeded'')),
         rr_calls = attempt, rr_pauses = pauses\<rparr>)"
  by pat_completeness auto
termination
  by (relation "measure (\<lambda>(cfg, _, _, attempt, _, _). unat (max_retries cfg) + 1 - attempt)") auto

declare retry_loop.simps [simp del]

definition execute :: "retry_config \<Rightarrow> bool \<Rightarrow> (nat \<Rightarrow> pulsing_error + 'a) \<Rightarrow> 'a retry_run" where
  "execute cfg is_idempotent f = retry_loop cfg is_idempotent f 0 None []"

subsection \<open>Requests\<close>

record http_response =
  hr_status :: nat
  hr_body :: "string + string"  \<comment> \<open>the error of the transfer, or the body\<close>
  hr_late :: bool  \<comment> \<open>the body takes longer than the request timeout\<close>

definition is_success :: "nat \<Rightarrow> bool" where
  "is_success status \<longleftrightarrow> 200 \<le> status \<and> status < 300"

definition ask_once :: "(nat \<Rightarrow> string) \<Rightarrow> u64 \<Rightarrow> pulsing_error + http_response \<Rightarrow> pulsing_error + string" where
  "ask_once status_text timeout_ms sent =
     (case sent of
        Inl e \<Rightarrow> Inl e
      | Inr r \<Rightarrow>
          if hr_late r then Inl (Runtime (RequestTimeout timeout_ms))
          else (case hr_body r of
             Inl e \<Rightarrow> Inl (Runtime (Io e))
           | Inr b \<Rightarrow>
               if \<not> is_success (hr_status r)
               then Inl (Runtime (InvalidResponse (''status '' @ status_text (hr_status r) @ '': '' @ b)))
               else Inr b))"

definition tell_once :: "(nat \<Rightarrow> string) \<Rightarrow> string \<Rightarrow> pulsing_error + http_response \<Rightarrow> pulsing_error + unit" where
  \<comment> \<open>here the body is collected without a time limit\<close>
  "tell_once status_text addr sent =
     (case sent of
        Inl e \<Rightarrow> Inl e
      | Inr r \<Rightarrow>
          if \<not> is_success (hr_status r) then
            (case hr_body r of
               Inr b \<Rightarrow>
                 Inl (Runtime (InvalidResponse (''tell status '' @ status_text (hr_status r) @ '' to '' @ addr @ '': '' @ b)))
             | Inl e \<Rightarrow> Inl (Runtime (Io e)))
          else Inr ())"

definition ask :: "retry_config \<Rightarrow> (nat \<Rightarrow> string) \<Rightarrow> u64 \<Rightarrow> pulsing_error option \<Rightarrow>
    (nat \<Rightarrow> pulsing_error + http_response) \<Rightarrow> string retry_run" where
  \<comment> \<open>\<open>fault\<close>: an error the fault injector returns before anything is sent\<close>
  "ask cfg status_text timeout_ms fault send =
     (case fault of
        Some e \<Rightarrow> \<lparr>rr_result = Inl e, rr_calls = 0, rr_pauses = []\<rparr>
      | None \<Rightarrow> execute cfg True (\<lambda>k. ask_once status_text timeout_ms (send k)))"

definition tell :: "retry_config \<Rightarrow> (nat \<Rightarrow> string) \<Rightarrow> string \<Rightarrow> pulsing_error option \<Rightarrow>
    (nat \<Rightarrow> pulsing_error + http_response) \<Rightarrow> unit retry_run" where
  "tell cfg status_text addr fault send =
     (case fault of
        Some e \<Rightarrow> \<lparr>rr_result = Inl e, rr_calls = 0, rr_pauses = []\<rparr>
      | None \<Rightarrow> execute cfg False (\<lambda>k. tell_once status_text addr (send k)))"

definition display_pool_error :: "socket_addr \<Rightarrow> pool_error \<Rightarrow> string" where
  "display_pool_error addr e =
     (case e of
        BackingOff \<Rightarrow> ''Connection to '' @ addr @ '' is backing off due to recent errors''
      | Disappeared \<Rightarrow> ''Host pool for '' @ addr @ '' disappeared''
      | AtMaxPermits \<Rightarrow> ''Connection pool for '' @ addr @ '' reached Semaphore::MAX_PERMITS''
      | PermitTimeout \<Rightarrow> ''Timed out waiting for connection pool permit on '' @ addr
      | ConnectFailed s \<Rightarrow> s)"

definition pool_failure :: "socket_addr \<Rightarrow> pool_error \<Rightarrow> pulsing_error" where
  \<comment> \<open>what \<^verbatim>\<open>get_connection\<close> returns for a failure\<close>
  "pool_failure addr e = Runtime (ConnectionFailed addr (display_pool_error addr e))"

subsection \<open>Substrings\<close>

lemma str_find_append: "str_find p (u @ p @ v) \<noteq> None"
proof (induction u)
  case Nil
  show ?case by (cases "p @ v") (auto simp del: append_is_Nil_conv simp: append_eq_Cons_conv)
qed auto

lemma str_find_SomeD: "str_find p s = Some n \<Longrightarrow> \<exists>u v. s = u @ p @ v"
proof (induction s arbitrary: n)
  case Nil
  then show ?case by (auto split: if_splits)
next
  case (Cons x xs)
  show ?case
  proof (cases "take (length p) (x # xs) = p")
    case True
    then show ?thesis by (metis append_Nil append_take_drop_id)
  next
    case False
    with Cons.prems obtain m where "str_find p xs = Some m" by auto
    from Cons.IH [OF this] show ?thesis by (metis append_Cons)
  qed
qed

lemma str_contains_iff: "str_contains s p \<longleftrightarrow> (\<exists>u v. s = u @ p @ v)"
  using str_find_append [of p] str_find_SomeD [of p s] unfolding str_contains_def by (metis not_None_eq)

lemma str_contains_append [simp]:
  "str_contains s p \<Longrightarrow> str_contains (s @ t) p" "str_contains t p \<Longrightarrow> str_contains (s @ t) p"
  unfolding str_contains_iff by (metis append.assoc)+

lemma str_contains_refl [simp]: "str_contains p p"
  unfolding str_contains_iff by (metis append_Nil append_Nil2)

lemma to_lower_lower: "to_lower (to_lower c) = to_lower c"
proof -
  have "of_char (char_of (n + 32) :: char) = n + 32" if "n + 32 < 256" for n :: nat using that by simp
  then show ?thesis by (auto simp: to_lower_def Let_def)
qed

lemma to_lowercase_idem [simp]: "to_lowercase (to_lowercase s) = to_lowercase s"
  by (simp add: to_lowercase_def to_lower_lower)

lemma to_lowercase_append [simp]: "to_lowercase (s @ t) = to_lowercase s @ to_lowercase t"
  by (simp add: to_lowercase_def)


subsection \<open>Properties\<close>

abbreviation retried :: "retry_config \<Rightarrow> bool \<Rightarrow> pulsing_error \<Rightarrow> bool" where
  "retried cfg idem e \<equiv> is_retryable (idempotent_only cfg) idem (classify_pulsing e)"

lemma retry_loop_final:
  assumes "k \<le> unat (max_retries cfg)" and "\<forall>j < k. \<exists>e. f j = Inl e \<and> retried cfg idem e"
  shows "\<exists>n \<le> unat (max_retries cfg). (\<forall>j < n. \<exists>e. f j = Inl e \<and> retried cfg idem e) \<and>
    (n = unat (max_retries cfg) \<or> (\<forall>e. f n = Inl e \<longrightarrow> \<not> retried cfg idem e)) \<and>
    retry_loop cfg idem f k le [1..<k] = \<lparr>rr_result = f n, rr_calls = n + 1, rr_pauses = [1..<n + 1]\<rparr>"
  using assms
proof (induction "unat (max_retries cfg) - k" arbitrary: k le rule: less_induct)
  case less
  have p: "(if k > 0 then [1..<k] @ [k] else [1..<k]) = [1..<k + 1]" by auto
  show ?case
  proof (cases "\<exists>e. f k = Inl e \<and> should_retry cfg idem k e")
    case True
    then obtain e where e: "f k = Inl e" "should_retry cfg idem k e" by blast
    then have "k < unat (max_retries cfg)" "retried cfg idem e" by (simp_all add: should_retry_def)
    with less.prems e have "\<forall>j < k + 1. \<exists>e. f j = Inl e \<and> retried cfg idem e" by (auto simp: less_Suc_eq)
    from less.hyps [OF _ _ this, of "Some e"] \<open>k < _\<close>
    have "\<exists>n \<le> unat (max_retries cfg). (\<forall>j < n. \<exists>e. f j = Inl e \<and> retried cfg idem e) \<and>
      (n = unat (max_retries cfg) \<or> (\<forall>e. f n = Inl e \<longrightarrow> \<not> retried cfg idem e)) \<and>
      retry_loop cfg idem f (k + 1) (Some e) [1..<k + 1] = \<lparr>rr_result = f n, rr_calls = n + 1, rr_pauses = [1..<n + 1]\<rparr>"
      by simp
    moreover have "retry_loop cfg idem f k le [1..<k] = retry_loop cfg idem f (k + 1) (Some e) [1..<k + 1]"
      using e p less.prems(1) by (subst retry_loop.simps) (simp add: Let_def)
    ultimately show ?thesis by simp
  next
    case False
    then have "retry_loop cfg idem f k le [1..<k] = \<lparr>rr_result = f k, rr_calls = k + 1, rr_pauses = [1..<k + 1]\<rparr>"
      using p less.prems(1) by (subst retry_loop.simps) (auto simp: Let_def split: sum.split)
    moreover have "k = unat (max_retries cfg) \<or> (\<forall>e. f k = Inl e \<longrightarrow> \<not> retried cfg idem e)"
      using False less.prems(1) by (auto simp: should_retry_def)
    ultimately show ?thesis using less.prems by blast
  qed
qed

text \<open>
  C35. The executor returns the outcome of the first attempt that succeeds, fails with an error
  that is not retried, or is the last one allowed: it calls the operation once for each attempt
  up to that one and pauses before each but the first. The loop ends, never beyond
  \<^verbatim>\<open>max_retries\<close> + 1 calls, and the fallback error after the loop is never returned.
\<close>

theorem retry_stops_at_first_final:
  "\<exists>n \<le> unat (max_retries cfg).
     (\<forall>j < n. \<exists>e. f j = Inl e \<and> is_retryable (idempotent_only cfg) idem (classify_pulsing e)) \<and>
     (n = unat (max_retries cfg) \<or>
        (\<forall>e. f n = Inl e \<longrightarrow> \<not> is_retryable (idempotent_only cfg) idem (classify_pulsing e))) \<and>
     execute cfg idem f = \<lparr>rr_result = f n, rr_calls = n + 1, rr_pauses = [1..<n + 1]\<rparr>"
  using retry_loop_final [of 0 cfg f idem None] by (simp add: execute_def)

theorem retry_stops_at_first_final_witness:
  "execute retry_config_default False (\<lambda>k. if k = 0 then Inl (Runtime (ConnectionClosed ''eof'')) else Inr k) =
     \<lparr>rr_result = Inr 1, rr_calls = 2, rr_pauses = [1]\<rparr>"
proof -
  let ?f = "\<lambda>k::nat. if k = 0 then Inl (Runtime (ConnectionClosed ''eof'')) else Inr k"
  have cfg: "unat (max_retries retry_config_default) = 3" "idempotent_only retry_config_default = True"
    by (simp_all add: retry_config_default_def)
  have retry: "is_retryable True False (classify_pulsing (Runtime (ConnectionClosed ''eof'')))" by code_simp
  obtain n where n: "\<forall>j < n. \<exists>e. ?f j = Inl e"
      "n = 3 \<or> (\<forall>e. ?f n = Inl e \<longrightarrow> \<not> is_retryable True False (classify_pulsing e))"
    and ex: "execute retry_config_default False ?f = \<lparr>rr_result = ?f n, rr_calls = n + 1, rr_pauses = [1..<n + 1]\<rparr>"
    using retry_stops_at_first_final [of retry_config_default ?f False] unfolding cfg by blast
  have "n \<noteq> 0" using n(2) retry by (metis numeral_3_eq_3 old.nat.distinct(1))
  moreover have "\<not> 1 < n" using n(1) by (metis Inl_Inr_False zero_neq_one)
  ultimately have "n = 1" by simp
  with ex show ?thesis by simp
qed

lemma lower_words: "to_lowercase ''Connection'' = ''connection''" "to_lowercase ''backing off'' = ''backing off''"
    "to_lowercase ''503'' = ''503''"
  by code_simp+

lemma contains_lower: "str_contains s p \<Longrightarrow> str_contains (to_lowercase s) (to_lowercase p)"
  unfolding str_contains_iff by (metis to_lowercase_append)

text \<open>
  A failure of the connection pool is retried, for every kind of request, unless its text
  says that the host is backing off; a backing-off failure is never retried, so that a retry
  does not defeat the pause after an error.
\<close>

theorem pool_failures_retried:
  "(is_retryable only idem (classify_pulsing (pool_failure addr e)) \<longleftrightarrow>
      \<not> str_contains (to_lowercase (display (pool_failure addr e))) ''backing off'') \<and>
   \<not> is_retryable only idem (classify_pulsing (pool_failure addr BackingOff))"
proof -
  have iff: "is_retryable only idem (classify_pulsing (pool_failure addr e)) \<longleftrightarrow>
      \<not> str_contains (to_lowercase (display (pool_failure addr e))) ''backing off''" for e
  proof -
    have "str_contains (display (pool_failure addr e)) ''Connection''"
      unfolding str_contains_iff by (rule exI [of _ "''Runtime error: ''"]) (simp add: pool_failure_def)
    from contains_lower [OF this] have "str_contains (to_lowercase (display (pool_failure addr e))) ''connection''"
      by (simp add: lower_words)
    then show ?thesis by (simp add: classify_pulsing_def classify_msg_def Let_def contains_any_def)
  qed
  have "str_contains (display (pool_failure addr BackingOff)) ''backing off''"
    unfolding str_contains_iff
    by (rule exI [of _ "''Runtime error: Connection failed to '' @ addr @ '': Connection to '' @ addr @ '' is ''"])
      (simp add: pool_failure_def display_pool_error_def)
  from contains_lower [OF this] have "str_contains (to_lowercase (display (pool_failure addr BackingOff))) ''backing off''"
    by (simp add: lower_words)
  with iff show ?thesis by blast
qed


text \<open>
  The classification reads the address that \<^verbatim>\<open>tell\<close> puts into its error text: towards a
  host whose address contains 503 (a port such as 8503), every error response is taken for an
  overloaded server and the message, which is not idempotent, is sent again until the attempts
  are used up, whatever the status was.
\<close>

theorem tell_repeats_by_address:
  assumes "str_contains addr ''503''" and "\<not> is_success (hr_status r)" and "hr_body r = Inr body"
    and "\<not> contains_any (to_lowercase (''Runtime error: Invalid response: tell status '' @ status_text (hr_status r) @
           '' to '' @ addr @ '': '' @ body)) [''backing off'', ''timeout'', ''timed out'']"
  shows "rr_calls (tell cfg status_text addr None (\<lambda>_. Inr r)) = unat (max_retries cfg) + 1"
proof -
  let ?e = "Runtime (InvalidResponse (''tell status '' @ status_text (hr_status r) @ '' to '' @ addr @ '': '' @ body))"
  have once: "tell_once status_text addr (Inr r) = Inl ?e" using assms(2,3) by (simp add: tell_once_def)
  let ?m = "to_lowercase (display ?e)"
  have not: "\<not> contains_any ?m [''backing off'', ''timeout'', ''timed out'']" using assms(4) by simp
  obtain u v where uv: "addr = u @ ''503'' @ v" using assms(1) unfolding str_contains_iff by blast
  have "str_contains (display ?e) ''503''" unfolding str_contains_iff uv
    by (rule exI [of _ "''Runtime error: Invalid response: tell status '' @ status_text (hr_status r) @ '' to '' @ u"],
        rule exI [of _ "v @ '': '' @ body"]) simp
  from contains_lower [OF this] have "str_contains ?m ''503''" by (simp only: lower_words)
  then have five: "contains_any ?m [''503'', ''service unavailable'']" by (simp add: contains_any_def)
  have retry: "is_retryable only idem (classify_pulsing ?e)" for only idem
    using not five unfolding classify_pulsing_def classify_msg_def Let_def to_lowercase_idem
    by (simp add: contains_any_def)
  obtain n where n: "n = unat (max_retries cfg) \<or> (\<forall>e. tell_once status_text addr (Inr r) = Inl e \<longrightarrow>
        \<not> is_retryable (idempotent_only cfg) False (classify_pulsing e))"
    and "execute cfg False (\<lambda>k. tell_once status_text addr (Inr r)) =
      \<lparr>rr_result = tell_once status_text addr (Inr r), rr_calls = n + 1, rr_pauses = [1..<n + 1]\<rparr>"
    using retry_loop_final [of 0 cfg "\<lambda>_. tell_once status_text addr (Inr r)" False None] by (auto simp: execute_def)
  moreover from n once retry have "n = unat (max_retries cfg)" by blast
  ultimately show ?thesis by (simp add: tell_def)
qed

end
