(* ===== verification/Supervision.thy ===== *)
theory Supervision
  imports Complex_Main RustStr
begin

text \<open>
  Actor instances and their supervision, \<^verbatim>\<open>system/runtime.rs\<close>, \<^verbatim>\<open>supervision.rs\<close> and the
  statistics of \<^verbatim>\<open>system/handle.rs\<close>. The user's actor is an argument: what its callbacks return
  and the order in which the runtime's \<^verbatim>\<open>select!\<close> sees messages, the closing of the mailbox and
  cancellation. An instance that never gets a signal to stop has no stop reason. A turn of the
  supervision loop is one step (\<open>sup_step\<close>), so that runs that never end are covered. The
  lengths of the pauses (floating point and random) are not modelled, only which pause is taken.
\<close>

subsection \<open>Policies\<close>

datatype restart_policy = Always | OnFailure | Never

fun should_restart :: "restart_policy \<Rightarrow> bool \<Rightarrow> bool" where
  "should_restart Always is_failure = True"
| "should_restart OnFailure is_failure = is_failure"
| "should_restart Never is_failure = False"

record backoff_strategy =
  bo_min :: duration
  bo_max :: duration
  bo_jitter :: rat
  bo_factor :: rat

definition backoff_default :: backoff_strategy where
  "backoff_default = \<lparr>bo_min = from_millis 100, bo_max = from_secs 30, bo_jitter = 1 / 5, bo_factor = 2\<rparr>"

definition exponential :: "duration \<Rightarrow> duration \<Rightarrow> backoff_strategy" where
  "exponential lo hi = backoff_default\<lparr>bo_min := lo, bo_max := hi\<rparr>"

record supervision_spec =
  ss_policy :: restart_policy
  ss_backoff :: backoff_strategy
  ss_max_restarts :: u32
  ss_restart_window :: "duration option"

definition spec_never :: supervision_spec where
  "spec_never = \<lparr>ss_policy = Never, ss_backoff = backoff_default, ss_max_restarts = 0, ss_restart_window = None\<rparr>"

definition spec_always :: supervision_spec where
  "spec_always = spec_never\<lparr>ss_policy := Always\<rparr>"

definition spec_on_failure :: supervision_spec where
  "spec_on_failure = spec_never\<lparr>ss_policy := OnFailure\<rparr>"

definition with_backoff :: "backoff_strategy \<Rightarrow> supervision_spec \<Rightarrow> supervision_spec" where
  "with_backoff b spec = spec\<lparr>ss_backoff := b\<rparr>"

definition with_max_restarts :: "u32 \<Rightarrow> supervision_spec \<Rightarrow> supervision_spec" where
  "with_max_restarts n spec = spec\<lparr>ss_max_restarts := n\<rparr>"

subsection \<open>One instance\<close>

datatype stop_reason = Normal | Failed string | Killed | SystemShutdown

fun is_failed :: "stop_reason \<Rightarrow> bool" where
  "is_failed (Failed _) = True"
| "is_failed _ = False"

record actor_stats =
  start_count :: u64
  stop_count :: u64
  message_count :: u64

definition actor_stats_default :: actor_stats where
  "actor_stats_default = \<lparr>start_count = 0, stop_count = 0, message_count = 0\<rparr>"

definition inc_stop :: "actor_stats \<Rightarrow> actor_stats" where
  "inc_stop s = s\<lparr>stop_count := stop_count s + 1\<rparr>"

definition inc_message :: "actor_stats \<Rightarrow> actor_stats" where
  "inc_message s = s\<lparr>message_count := message_count s + 1\<rparr>"

datatype 'r signal =
    Received "string + 'r"  \<comment> \<open>a message, and what \<^verbatim>\<open>receive\<close> returns for it\<close>
  | MailboxClosed
  | Cancel

record 'r actor_run =
  ar_on_start :: "string option"  \<comment> \<open>the error of \<^verbatim>\<open>on_start\<close>\<close>
  ar_signals :: "'r signal list"
  ar_on_stop :: "string option"

fun receive_loop ::
  "'r signal list \<Rightarrow> actor_stats \<Rightarrow> (string + 'r) list \<Rightarrow> stop_reason option \<times> actor_stats \<times> (string + 'r) list" where
  \<comment> \<open>no stop reason: the instance waits for the next signal\<close>
  "receive_loop [] st replies = (None, st, replies)"
| "receive_loop (Received r # sigs) st replies = receive_loop sigs (inc_message st) (replies @ [r])"
| "receive_loop (MailboxClosed # sigs) st replies = (Some Normal, st, replies)"
| "receive_loop (Cancel # sigs) st replies = (Some SystemShutdown, st, replies)"

definition run_actor_instance ::
  "'r actor_run \<Rightarrow> actor_stats \<Rightarrow> stop_reason option \<times> actor_stats \<times> (string + 'r) list" where
  "run_actor_instance run st =
     (case ar_on_start run of
        Some e \<Rightarrow> (Some (Failed e), inc_stop st, [])
      | None \<Rightarrow>
          (case receive_loop (ar_signals run) st [] of
             (None, st1, replies) \<Rightarrow> (None, st1, replies)
           | (Some reason, st1, replies) \<Rightarrow>
               (case ar_on_stop run of
                  Some e \<Rightarrow> (Some (if reason = Normal then Failed e else reason), inc_stop st1, replies)
                | None \<Rightarrow> (Some reason, inc_stop st1, replies))))"

subsection \<open>The supervision loop\<close>

record 'r sup_state =
  sv_restarts :: u32
  sv_timestamps :: "instant list"
  sv_stats :: actor_stats
  sv_starts :: nat  \<comment> \<open>how many instances the factory was asked for\<close>
  sv_replies :: "(string + 'r) list"
  sv_pauses :: "u32 list"  \<comment> \<open>the arguments of \<^verbatim>\<open>backoff.duration\<close>\<close>
  sv_restarted_at :: "instant list"  \<comment> \<open>when an instance was followed by another\<close>
  sv_done :: "stop_reason option"

definition sup_init :: "'r sup_state" where
  "sup_init =
     \<lparr>sv_restarts = 0, sv_timestamps = [], sv_stats = actor_stats_default,
      sv_starts = 0, sv_replies = [], sv_pauses = [], sv_restarted_at = [], sv_done = None\<rparr>"

definition exceeded :: "supervision_spec \<Rightarrow> u32 \<Rightarrow> instant list \<Rightarrow> bool" where
  "exceeded spec restarts timestamps \<longleftrightarrow>
     (case ss_restart_window spec of
        Some _ \<Rightarrow> (of_nat (length timestamps) :: u32) > ss_max_restarts spec
      | None \<Rightarrow> restarts > ss_max_restarts spec)"

definition pruned :: "supervision_spec \<Rightarrow> instant \<Rightarrow> instant list \<Rightarrow> instant list" where
  "pruned spec now timestamps =
     (case ss_restart_window spec of
        Some window \<Rightarrow> filter (\<lambda>t. now - t \<le> window) (timestamps @ [now])
      | None \<Rightarrow> timestamps)"

definition after_instance :: "supervision_spec \<Rightarrow> instant \<Rightarrow> stop_reason \<Rightarrow> 'r sup_state \<Rightarrow> 'r sup_state" where
  \<comment> \<open>the decision after an instance has stopped\<close>
  "after_instance spec now reason st =
     (let is_failure = is_failed reason in
      if \<not> should_restart (ss_policy spec) is_failure then st\<lparr>sv_done := Some reason\<rparr>
      else if reason = SystemShutdown \<or> reason = Killed then st\<lparr>sv_done := Some reason\<rparr>
      else
        let restarts = sv_restarts st + 1; timestamps = pruned spec now (sv_timestamps st);
            st1 = st\<lparr>sv_restarts := restarts, sv_timestamps := timestamps\<rparr> in
        if exceeded spec restarts timestamps then st1\<lparr>sv_done := Some reason\<rparr>
        else st1\<lparr>sv_pauses := sv_pauses st @ [restarts - 1], sv_restarted_at := sv_restarted_at st @ [now]\<rparr>)"

definition sup_step ::
  "supervision_spec \<Rightarrow> (nat \<Rightarrow> string + 'r actor_run) \<Rightarrow> (nat \<Rightarrow> instant) \<Rightarrow> 'r sup_state \<Rightarrow> 'r sup_state" where
  \<comment> \<open>\<open>clock k\<close>: the time at the end of the \<open>k\<close>-th instance; an instance that does not stop
    blocks the loop\<close>
  "sup_step spec factory clock st =
     (if sv_done st \<noteq> None then st
      else
        case factory (sv_starts st) of
          Inl e \<Rightarrow> st\<lparr>sv_starts := sv_starts st + 1, sv_done := Some (Failed (''Factory error: '' @ e))\<rparr>
        | Inr run \<Rightarrow>
            (case run_actor_instance run (sv_stats st) of
               (None, _, _) \<Rightarrow> st
             | (Some reason, stats, replies) \<Rightarrow>
                 after_instance spec (clock (sv_starts st)) reason
                   (st\<lparr>sv_stats := stats, sv_starts := sv_starts st + 1, sv_replies := sv_replies st @ replies\<rparr>)))"

definition run_supervision_loop ::
  "supervision_spec \<Rightarrow> (nat \<Rightarrow> string + 'r actor_run) \<Rightarrow> (nat \<Rightarrow> instant) \<Rightarrow> nat \<Rightarrow> 'r sup_state" where
  \<comment> \<open>the loop after a number of turns\<close>
  "run_supervision_loop spec factory clock n = (sup_step spec factory clock ^^ n) sup_init"


subsection \<open>Runs\<close>

lemma receive_loop_reason:
  "fst (receive_loop sigs st replies) = fst (receive_loop sigs st' replies')"
proof (induction sigs arbitrary: st replies st' replies')
  case (Cons sig sigs)
  then show ?case by (cases sig) simp_all
qed simp

definition instance_reason :: "'r actor_run \<Rightarrow> stop_reason option" where
  "instance_reason run = fst (run_actor_instance run actor_stats_default)"

lemma run_actor_instance_reason: "fst (run_actor_instance run st) = instance_reason run"
proof -
  have "fst (receive_loop (ar_signals run) st []) = fst (receive_loop (ar_signals run) actor_stats_default [])"
    by (rule receive_loop_reason)
  then show ?thesis
    by (auto simp: instance_reason_def run_actor_instance_def split: option.splits prod.splits)
qed

definition stops :: "string + 'r actor_run \<Rightarrow> bool" where
  "stops made = (case made of Inl _ \<Rightarrow> True | Inr run \<Rightarrow> instance_reason run \<noteq> None)"

lemma sup_step_done: "sv_done st \<noteq> None \<Longrightarrow> sup_step spec factory clock st = st"
  by (simp add: sup_step_def)

lemma sup_step_cases:
  assumes "sv_done st = None"
  obtains (factory) e where "factory (sv_starts st) = Inl e"
      "sup_step spec factory clock st =
        st\<lparr>sv_starts := sv_starts st + 1, sv_done := Some (Failed (''Factory error: '' @ e))\<rparr>"
    | (blocked) run where "factory (sv_starts st) = Inr run" "instance_reason run = None" "sup_step spec factory clock st = st"
    | (ran) run reason stats replies where "factory (sv_starts st) = Inr run" "instance_reason run = Some reason"
      "sup_step spec factory clock st = after_instance spec (clock (sv_starts st)) reason
         (st\<lparr>sv_stats := stats, sv_starts := sv_starts st + 1, sv_replies := sv_replies st @ replies\<rparr>)"
proof (cases "factory (sv_starts st)")
  case (Inl e)
  then show thesis using assms factory by (simp add: sup_step_def)
next
  case (Inr run)
  obtain r stats replies where r: "run_actor_instance run (sv_stats st) = (r, stats, replies)"
    by (cases "run_actor_instance run (sv_stats st)")
  then have "instance_reason run = r" using run_actor_instance_reason [of run "sv_stats st"] by simp
  with Inr r assms show thesis
    by (cases r) (auto intro: blocked ran simp: sup_step_def)
qed

lemma after_instance_cases:
  obtains (final) "after_instance spec now reason st = st\<lparr>sv_done := Some reason\<rparr>"
      "\<not> should_restart (ss_policy spec) (is_failed reason) \<or> reason = SystemShutdown \<or> reason = Killed"
    | (limit) "after_instance spec now reason st =
        st\<lparr>sv_restarts := sv_restarts st + 1, sv_timestamps := pruned spec now (sv_timestamps st), sv_done := Some reason\<rparr>"
      "exceeded spec (sv_restarts st + 1) (pruned spec now (sv_timestamps st))"
    | (again) "after_instance spec now reason st =
        st\<lparr>sv_restarts := sv_restarts st + 1, sv_timestamps := pruned spec now (sv_timestamps st),
           sv_pauses := sv_pauses st @ [sv_restarts st], sv_restarted_at := sv_restarted_at st @ [now]\<rparr>"
      "\<not> exceeded spec (sv_restarts st + 1) (pruned spec now (sv_timestamps st))"
      "should_restart (ss_policy spec) (is_failed reason)" "reason \<noteq> SystemShutdown" "reason \<noteq> Killed"
proof -
  let ?go = "should_restart (ss_policy spec) (is_failed reason)"
  let ?over = "exceeded spec (sv_restarts st + 1) (pruned spec now (sv_timestamps st))"
  consider "\<not> ?go \<or> reason = SystemShutdown \<or> reason = Killed" | "?go" "reason \<noteq> SystemShutdown" "reason \<noteq> Killed" "?over"
    | "?go" "reason \<noteq> SystemShutdown" "reason \<noteq> Killed" "\<not> ?over" by blast
  then show thesis
  proof cases
    case 1
    then have "after_instance spec now reason st = st\<lparr>sv_done := Some reason\<rparr>" by (auto simp: after_instance_def)
    then show thesis using 1 by (rule final)
  next
    case 2
    then show thesis by (intro limit) (simp_all add: after_instance_def Let_def)
  next
    case 3
    then show thesis by (intro again) (simp_all add: after_instance_def Let_def)
  qed
qed

lemma inc_fits: "m \<noteq> - 1 \<Longrightarrow> unat (m :: u32) + 1 < 2 ^ 32"
proof -
  assume "m \<noteq> - 1"
  then have "unat m < unat (m + 1)" using less_inc_word [of m] by (simp add: word_less_nat_alt)
  moreover have "unat (m + 1) < 2 ^ LENGTH(32)" by (rule unsigned_less)
  ultimately show ?thesis by simp
qed

subsection \<open>A bound on the number of instances\<close>

definition why_final :: "supervision_spec \<Rightarrow> string + 'r actor_run \<Rightarrow> nat \<Rightarrow> stop_reason \<Rightarrow> bool" where
  \<comment> \<open>the \<open>n\<close>-th instance is the last one and stopped for the given reason\<close>
  "why_final spec made n reason =
     (case made of
        Inl e \<Rightarrow> reason = Failed (''Factory error: '' @ e)
      | Inr run \<Rightarrow>
          instance_reason run = Some reason \<and>
          (\<not> should_restart (ss_policy spec) (is_failed reason) \<or> reason = SystemShutdown \<or> reason = Killed \<or>
           n = unat (ss_max_restarts spec) + 1))"

definition counted :: "supervision_spec \<Rightarrow> (nat \<Rightarrow> string + 'r actor_run) \<Rightarrow> nat \<Rightarrow> 'r sup_state \<Rightarrow> bool" where
  "counted spec factory n st \<longleftrightarrow>
     (case sv_done st of
        None \<Rightarrow> sv_starts st = n \<and> n \<le> unat (ss_max_restarts spec) \<and> unat (sv_restarts st) = n \<and> length (sv_restarted_at st) = n
      | Some reason \<Rightarrow>
          sv_starts st \<le> unat (ss_max_restarts spec) + 1 \<and> sv_starts st = length (sv_restarted_at st) + 1 \<and>
          why_final spec (factory (sv_starts st - 1)) (sv_starts st) reason)"

lemma counted_step:
  assumes c: "counted spec factory n st" and window: "ss_restart_window spec = None" and max: "ss_max_restarts spec \<noteq> - 1"
    and stops: "\<And>k. k \<le> unat (ss_max_restarts spec) \<Longrightarrow> stops (factory k)"
  shows "counted spec factory (Suc n) (sup_step spec factory clock st)"
proof (cases "sv_done st = None")
  case False
  then have "sup_step spec factory clock st = st" by (rule sup_step_done)
  then show ?thesis using c False by (auto simp: counted_def)
next
  case True
  then have st: "sv_starts st = n" "n \<le> unat (ss_max_restarts spec)" "unat (sv_restarts st) = n" "length (sv_restarted_at st) = n"
    using c by (simp_all add: counted_def)
  have "unat (ss_max_restarts spec) + 1 < 2 ^ 32" using max by (rule inc_fits)
  then have inc: "unat (sv_restarts st + 1) = n + 1" using st by (simp add: unat_word_ariths)
  from True show ?thesis
  proof (cases rule: sup_step_cases [of st factory spec clock])
    case factory
    then show ?thesis using st by (simp add: counted_def why_final_def)
  next
    case blocked
    then show ?thesis using stops [of n] st by (simp add: stops_def)
  next
    case (ran run reason stats replies)
    let ?st = "st\<lparr>sv_stats := stats, sv_starts := sv_starts st + 1, sv_replies := sv_replies st @ replies\<rparr>"
    show ?thesis
    proof (cases rule: after_instance_cases [of spec "clock (sv_starts st)" reason ?st])
      case final
      then show ?thesis using st ran True by (auto simp: counted_def why_final_def)
    next
      case limit
      then have "n = unat (ss_max_restarts spec)"
        using inc window st by (simp add: exceeded_def word_less_nat_alt)
      then show ?thesis using limit st ran True by (simp add: counted_def why_final_def)
    next
      case again
      then have "n + 1 \<le> unat (ss_max_restarts spec)"
        using inc window by (simp add: exceeded_def word_less_nat_alt)
      then show ?thesis using st ran True again inc by (simp add: counted_def)
    qed
  qed
qed


text \<open>
  C36. Without a window the supervision loop ends, as long as every instance does: after at most
  \<^verbatim>\<open>max_restarts\<close> + 1 instances it returns the reason of the last one, which is final because
  the factory failed, the policy does not restart it, it was shut down or killed, or the
  restarts are used up. (The largest value of the counter's type is excluded: it wraps.)
\<close>

theorem supervision_ends:
  assumes "ss_restart_window spec = None" and "ss_max_restarts spec \<noteq> - 1"
    and "\<And>k. k \<le> unat (ss_max_restarts spec) \<Longrightarrow> stops (factory k)"
  shows "\<exists>n reason. 1 \<le> n \<and> n \<le> unat (ss_max_restarts spec) + 1 \<and>
    (let st = run_supervision_loop spec factory clock (unat (ss_max_restarts spec) + 1) in
     sv_starts st = n \<and> length (sv_restarted_at st) = n - 1 \<and> sv_done st = Some reason \<and>
     why_final spec (factory (n - 1)) n reason)"
proof -
  have "counted spec factory k (run_supervision_loop spec factory clock k)" for k
  proof (induction k)
    case 0
    show ?case by (simp add: run_supervision_loop_def sup_init_def counted_def)
  next
    case (Suc k)
    from counted_step [OF this assms] show ?case by (simp add: run_supervision_loop_def)
  qed
  from this [of "unat (ss_max_restarts spec) + 1"] show ?thesis
    by (auto simp: counted_def Let_def split: option.splits)
qed

definition demo_run :: "nat \<Rightarrow> string + unit actor_run" where
  "demo_run k = Inr \<lparr>ar_on_start = Some ''no database'', ar_signals = [], ar_on_stop = None\<rparr>"

lemma demo_reason: "demo_run k = Inr run \<Longrightarrow> instance_reason run = Some (Failed ''no database'')"
  by (auto simp: demo_run_def instance_reason_def run_actor_instance_def)

theorem supervision_ends_witness:
  "let st = run_supervision_loop (with_max_restarts 2 spec_on_failure) demo_run (\<lambda>k. k) 3 in
   sv_starts st = 3 \<and> sv_done st = Some (Failed ''no database'')"
proof -
  let ?spec = "with_max_restarts 2 spec_on_failure"
  have spec: "ss_restart_window ?spec = None" "ss_max_restarts ?spec \<noteq> - 1" "unat (ss_max_restarts ?spec) = 2" "ss_policy ?spec = OnFailure"
    by (simp_all add: with_max_restarts_def spec_on_failure_def spec_never_def)
  have demo: "stops (demo_run k)" for k by (simp add: stops_def demo_run_def instance_reason_def run_actor_instance_def)
  from supervision_ends [OF spec(1,2), of demo_run "\<lambda>k. k"] demo
  obtain n reason where n: "sv_starts (run_supervision_loop ?spec demo_run (\<lambda>k. k) 3) = n"
      "sv_done (run_supervision_loop ?spec demo_run (\<lambda>k. k) 3) = Some reason" "why_final ?spec (demo_run (n - 1)) n reason"
    unfolding Let_def spec(3) by auto
  obtain run where run: "demo_run (n - 1) = Inr run" by (simp add: demo_run_def)
  with n(3) demo_reason [OF run] have "reason = Failed ''no database''" "n = 3"
    by (auto simp: why_final_def spec)
  with n show ?thesis by (simp add: Let_def)
qed

subsection \<open>A bound on the rate of restarts\<close>

definition in_window :: "duration \<Rightarrow> instant \<Rightarrow> instant list \<Rightarrow> instant list" where
  "in_window w now ts = filter (\<lambda>t. now - t \<le> w) ts"

definition paced :: "supervision_spec \<Rightarrow> duration \<Rightarrow> instant list \<Rightarrow> bool" where
  "paced spec w ts \<longleftrightarrow>
     (\<forall>i < length ts. length (in_window w (ts ! i) (take (Suc i) ts)) \<le> unat (ss_max_restarts spec))"

definition windowed :: "supervision_spec \<Rightarrow> duration \<Rightarrow> (nat \<Rightarrow> instant) \<Rightarrow> 'r sup_state \<Rightarrow> bool" where
  "windowed spec w clock st \<longleftrightarrow>
     paced spec w (sv_restarted_at st) \<and>
     (sv_done st = None \<longrightarrow>
        (sv_restarted_at st = [] \<and> sv_timestamps st = [] \<or>
         (\<exists>t. t \<le> clock (sv_starts st) \<and> sv_timestamps st = in_window w t (sv_restarted_at st))) \<and>
        length (sv_timestamps st) \<le> unat (ss_max_restarts spec))"

lemma in_window_later: "t \<le> now \<Longrightarrow> in_window w now (in_window w t ts) = in_window w now ts"
  by (induction ts) (auto simp: in_window_def)

lemma paced_snoc:
  assumes "paced spec w ts" and "length (in_window w now (ts @ [now])) \<le> unat (ss_max_restarts spec)"
  shows "paced spec w (ts @ [now])"
  using assms by (auto simp: paced_def nth_append less_Suc_eq)

lemma windowed_step:
  assumes ok: "windowed spec w clock st" and window: "ss_restart_window spec = Some w" and max: "ss_max_restarts spec \<noteq> - 1"
    and clock: "mono clock"
  shows "windowed spec w clock (sup_step spec factory clock st)"
proof (cases "sv_done st = None")
  case False
  then show ?thesis using ok by (simp add: sup_step_done)
next
  case True
  let ?now = "clock (sv_starts st)"
  have later: "?now \<le> clock (Suc (sv_starts st))" using clock by (simp add: monoD)
  from True show ?thesis
  proof (cases rule: sup_step_cases [of st factory spec clock])
    case (ran run reason stats replies)
    let ?st = "st\<lparr>sv_stats := stats, sv_starts := sv_starts st + 1, sv_replies := sv_replies st @ replies\<rparr>"
    have pr: "pruned spec ?now (sv_timestamps st) = in_window w ?now (sv_restarted_at st @ [?now])"
      using ok True window in_window_later [of _ ?now w "sv_restarted_at st"]
      by (auto simp: windowed_def pruned_def in_window_def)
    have len: "length (pruned spec ?now (sv_timestamps st)) \<le> unat (ss_max_restarts spec) + 1"
    proof -
      have "length (pruned spec ?now (sv_timestamps st)) \<le> length (sv_timestamps st @ [?now])"
        using window unfolding pruned_def by (simp only: option.case length_filter_le)
      then show ?thesis using ok True by (simp add: windowed_def)
    qed
    have "unat (ss_max_restarts spec) + 1 < 2 ^ 32" using max by (rule inc_fits)
    then have small: "unat (of_nat (length (pruned spec ?now (sv_timestamps st))) :: u32) = length (pruned spec ?now (sv_timestamps st))"
      using len by (simp add: unat_of_nat)
    show ?thesis
    proof (cases rule: after_instance_cases [of spec ?now reason ?st])
      case again
      then have "length (pruned spec ?now (sv_timestamps st)) \<le> unat (ss_max_restarts spec)"
        using window small by (simp add: exceeded_def word_less_nat_alt)
      with again ran ok pr later paced_snoc [of spec w "sv_restarted_at st" ?now] show ?thesis
        by (auto simp: windowed_def)
    qed (use ran ok in \<open>simp_all add: windowed_def\<close>)
  qed (use ok True in \<open>simp_all add: windowed_def\<close>)
qed

text \<open>
  C37. With a window the loop may restart for ever, but never too fast: at every restart, the
  restarts within the window that ends there, itself included, are at most \<^verbatim>\<open>max_restarts\<close>.
\<close>

theorem supervision_paced:
  assumes "ss_restart_window spec = Some w" and "ss_max_restarts spec \<noteq> - 1" and "mono clock"
    and "i < length (sv_restarted_at (run_supervision_loop spec factory clock n))"
  shows "let ts = sv_restarted_at (run_supervision_loop spec factory clock n) in
    length (filter (\<lambda>t. ts ! i - t \<le> w) (take (Suc i) ts)) \<le> unat (ss_max_restarts spec)"
proof -
  have "windowed spec w clock (run_supervision_loop spec factory clock k)" for k
  proof (induction k)
    case 0
    show ?case by (simp add: run_supervision_loop_def sup_init_def windowed_def paced_def)
  next
    case (Suc k)
    from windowed_step [OF this assms(1-3)] show ?case by (simp add: run_supervision_loop_def)
  qed
  from this [of n] assms(4) show ?thesis by (simp add: windowed_def paced_def in_window_def Let_def)
qed


theorem supervision_paced_witness:
  "let ts = sv_restarted_at (run_supervision_loop ((with_max_restarts 1 spec_always)\<lparr>ss_restart_window := Some 10\<rparr>)
     demo_run (\<lambda>k. 20 * k) 3)
   in 2 < length ts \<and> length (filter (\<lambda>t. ts ! 2 - t \<le> 10) (take 3 ts)) \<le> 1"
proof -
  let ?spec = "(with_max_restarts 1 spec_always)\<lparr>ss_restart_window := Some 10\<rparr>"
  have spec: "ss_restart_window ?spec = Some 10" "ss_max_restarts ?spec \<noteq> - 1" "unat (ss_max_restarts ?spec) = 1"
    by (simp_all add: with_max_restarts_def spec_always_def spec_never_def)
  have "mono (\<lambda>k. 20 * k :: nat)" by (simp add: mono_def)
  moreover have len: "2 < length (sv_restarted_at (run_supervision_loop ?spec demo_run (\<lambda>k. 20 * k) 3))"
    by (simp add: run_supervision_loop_def numeral_3_eq_3 sup_init_def sup_step_def demo_run_def run_actor_instance_def
        after_instance_def pruned_def exceeded_def with_max_restarts_def spec_always_def spec_never_def Let_def)
  ultimately have "length (filter (\<lambda>t. sv_restarted_at (run_supervision_loop ?spec demo_run (\<lambda>k. 20 * k) 3) ! 2 - t \<le> 10)
      (take (Suc 2) (sv_restarted_at (run_supervision_loop ?spec demo_run (\<lambda>k. 20 * k) 3)))) \<le> 1"
    using supervision_paced [OF spec(1,2), of "\<lambda>k. 20 * k" 2 demo_run 3] unfolding Let_def spec(3) by blast
  with len show ?thesis by (simp add: Let_def)
qed

end
