(* ===== verification/LocalSystem.thy ===== *)
theory LocalSystem
  imports HeadProps Errors Supervision
begin

text \<open>
  The actors of one node: the registry (\<^verbatim>\<open>system/registry.rs\<close>), watching and termination
  (\<^verbatim>\<open>watch.rs\<close>), spawning (\<^verbatim>\<open>system/spawn.rs\<close>), stopping and shutdown
  (\<^verbatim>\<open>system/lifecycle.rs\<close>), and the life cycle of the node (\<^verbatim>\<open>system_actor/lifecycle.rs\<close>).
  The calls the node makes to its naming backend are recorded in order; replaying them on a
  backend is the composition with the cluster. Stopping an actor waits for its task
  between taking it out of the registry and cleaning up after it: the two halves are
  separate operations (\<open>stop_begin\<close>, \<open>stop_local_actor\<close>), because others can run in between.
  The identifier of a new actor is an argument, as is which mailboxes refuse a message.
  The monitoring stores are not modelled.
\<close>

subsection \<open>The life cycle of the node\<close>

datatype node_state = Booting | Starting | Ready | Draining | NodeFailed | Stopped

fun can_transition_to :: "node_state \<Rightarrow> node_state \<Rightarrow> bool" where
  "can_transition_to Booting n = (n \<in> {Starting, Draining, NodeFailed})"
| "can_transition_to Starting n = (n \<in> {Ready, Draining, NodeFailed})"
| "can_transition_to Ready n = (n \<in> {Draining, NodeFailed})"
| "can_transition_to Draining n = (n \<in> {Stopped, NodeFailed})"
| "can_transition_to NodeFailed n = (n \<in> {Draining, Stopped})"
| "can_transition_to Stopped n = False"

fun state_debug :: "node_state \<Rightarrow> string" where
  "state_debug Booting = ''Booting''"
| "state_debug Starting = ''Starting''"
| "state_debug Ready = ''Ready''"
| "state_debug Draining = ''Draining''"
| "state_debug NodeFailed = ''Failed''"
| "state_debug Stopped = ''Stopped''"

definition lifecycle_error :: "string \<Rightarrow> pulsing_error" where
  "lifecycle_error message = Runtime (Other (''System lifecycle error: '' @ message))"

definition transition :: "node_state \<Rightarrow> node_state \<Rightarrow> pulsing_error + node_state" where
  \<comment> \<open>\<open>Inl\<close>: the transition is rejected and the state kept; the loop repeats only while others
    change the state, what counts is the state its last round reads\<close>
  "transition s n =
     (if s = n then Inr s
      else if \<not> can_transition_to s n then
        Inl (lifecycle_error (''invalid node lifecycle transition: '' @ state_debug s @ '' -> '' @ state_debug n))
      else Inr n)"

definition begin_draining :: "node_state \<Rightarrow> pulsing_error + node_state" where
  "begin_draining s =
     (case s of
        Draining \<Rightarrow> Inr s
      | Stopped \<Rightarrow> Inr s
      | NodeFailed \<Rightarrow> transition s Draining
      | _ \<Rightarrow> transition s Draining)"

subsection \<open>State\<close>

datatype cluster_call =
    CRegister actor_path
  | CRegisterFull actor_path actor_id metadata
  | CRegisterActor actor_id
  | CBroadcastFailed actor_path stop_reason
  | CUnregister actor_path
  | CUnregisterActor actor_id
  | CLeave

record local_actor_handle =
  ah_actor_id :: actor_id
  ah_named_path :: "actor_path option"
  ah_metadata :: metadata

record actor_system =
  sy_actors :: "(actor_id, local_actor_handle) hash_map"
  sy_names :: "(string, actor_id) hash_map"
  sy_paths :: "(string, string) hash_map"
  sy_watchers :: "(actor_id, actor_id hash_set) hash_map"
  sy_cluster :: "cluster_call list option"  \<comment> \<open>the calls made so far, if there is a backend\<close>
  sy_notices :: "(actor_id \<times> actor_id \<times> stop_reason) list"  \<comment> \<open>watcher, target, reason\<close>
  sy_cancelled :: "actor_id list"
  sy_node :: node_state

definition system_new :: "bool \<Rightarrow> actor_system" where
  "system_new clustered =
     \<lparr>sy_actors = [], sy_names = [], sy_paths = [], sy_watchers = [],
      sy_cluster = (if clustered then Some [] else None), sy_notices = [], sy_cancelled = [], sy_node = Booting\<rparr>"

definition cluster_do :: "cluster_call list \<Rightarrow> actor_system \<Rightarrow> actor_system" where
  \<comment> \<open>nothing happens without a backend\<close>
  "cluster_do cs s = s\<lparr>sy_cluster := map_option (\<lambda>done. done @ cs) (sy_cluster s)\<rparr>"

subsection \<open>The registry\<close>

definition register_actor :: "actor_id \<Rightarrow> local_actor_handle \<Rightarrow> actor_system \<Rightarrow> actor_system" where
  "register_actor aid h s = s\<lparr>sy_actors := hm_insert aid h (sy_actors s)\<rparr>"

definition register_name :: "string \<Rightarrow> actor_id \<Rightarrow> actor_system \<Rightarrow> actor_system" where
  "register_name name aid s = s\<lparr>sy_names := hm_insert name aid (sy_names s)\<rparr>"

definition register_named_path :: "string \<Rightarrow> string \<Rightarrow> actor_system \<Rightarrow> actor_system" where
  "register_named_path path name s = s\<lparr>sy_paths := hm_insert path name (sy_paths s)\<rparr>"

definition has_name :: "string \<Rightarrow> actor_system \<Rightarrow> bool" where
  "has_name name s = (hm_get (sy_names s) name \<noteq> None)"

definition get_actor_name_by_path :: "string \<Rightarrow> actor_system \<Rightarrow> string option" where
  "get_actor_name_by_path path s = hm_get (sy_paths s) path"

definition local_actor_ref_by_name :: "string \<Rightarrow> actor_system \<Rightarrow> actor_id option" where
  "local_actor_ref_by_name name s =
     (case hm_get (sy_names s) name of
        None \<Rightarrow> None
      | Some aid \<Rightarrow> map_option ah_actor_id (hm_get (sy_actors s) aid))"

definition find_actor_sender :: "(string \<Rightarrow> actor_id option) \<Rightarrow> string \<Rightarrow> actor_system \<Rightarrow> actor_id option" where
  \<comment> \<open>\<open>uuid_parse\<close> is \<^verbatim>\<open>Uuid::parse_str\<close>; the result names the mailbox\<close>
  "find_actor_sender uuid_parse name s =
     (case local_actor_ref_by_name name s of
        Some aid \<Rightarrow> Some aid
      | None \<Rightarrow>
          (case uuid_parse name of
             None \<Rightarrow> None
           | Some aid \<Rightarrow> map_option ah_actor_id (hm_get (sy_actors s) aid)))"

definition remove_by_name :: "string \<Rightarrow> actor_system \<Rightarrow> actor_id option \<times> actor_system" where
  "remove_by_name name s = (hm_get (sy_names s) name, s\<lparr>sy_names := hm_remove name (sy_names s)\<rparr>)"

definition remove_handle :: "actor_id \<Rightarrow> actor_system \<Rightarrow> local_actor_handle option \<times> actor_system" where
  "remove_handle aid s = (hm_get (sy_actors s) aid, s\<lparr>sy_actors := hm_remove aid (sy_actors s)\<rparr>)"

definition clear_registry :: "actor_system \<Rightarrow> actor_system" where
  "clear_registry s = s\<lparr>sy_actors := [], sy_names := [], sy_paths := []\<rparr>"

subsection \<open>Watching and termination\<close>

definition lc_watch :: "actor_id \<Rightarrow> actor_id \<Rightarrow> actor_system \<Rightarrow> actor_system" where
  "lc_watch watcher target s =
     s\<lparr>sy_watchers := hm_entry target (List.insert watcher) [watcher] (sy_watchers s)\<rparr>"

definition lc_unwatch :: "actor_id \<Rightarrow> actor_id \<Rightarrow> actor_system \<Rightarrow> actor_system" where
  "lc_unwatch watcher target s =
     (case hm_get (sy_watchers s) target of
        None \<Rightarrow> s
      | Some ws \<Rightarrow>
          let ws' = removeAll watcher ws in
          s\<lparr>sy_watchers := (if ws' = [] then hm_remove target (sy_watchers s)
                            else hm_insert target ws' (sy_watchers s))\<rparr>)"

definition system_watch :: "actor_id \<Rightarrow> actor_id \<Rightarrow> actor_system \<Rightarrow> (pulsing_error + unit) \<times> actor_system" where
  "system_watch watcher target s =
     (case hm_get (sy_actors s) target of
        None \<Rightarrow> (Inl (Runtime (Other (''Cannot watch remote actor: '' @ simple_uuid target @
                  '' (watching remote actors not yet supported)''))), s)
      | Some _ \<Rightarrow> (Inr (), lc_watch watcher target s))"

definition cleanup_and_broadcast ::
  "actor_id \<Rightarrow> actor_path option \<Rightarrow> stop_reason \<Rightarrow> actor_system \<Rightarrow> actor_system" where
  "cleanup_and_broadcast aid named_path reason s =
     (case named_path of
        Some path \<Rightarrow>
          cluster_do [CBroadcastFailed path reason, CUnregister path]
            (s\<lparr>sy_paths := hm_remove (path_as_str path) (sy_paths s)\<rparr>)
      | None \<Rightarrow> cluster_do [CUnregisterActor aid] s)"

definition notify_watchers :: "(actor_id \<Rightarrow> bool) \<Rightarrow> actor_id \<Rightarrow> stop_reason \<Rightarrow> actor_system \<Rightarrow> actor_system" where
  \<comment> \<open>\<open>refuses w\<close>: the mailbox of \<open>w\<close> is full or closed\<close>
  "notify_watchers refuses aid reason s =
     (let ws = (case hm_get (sy_watchers s) aid of Some ws \<Rightarrow> ws | None \<Rightarrow> []);
          s1 = s\<lparr>sy_watchers := hm_remove aid (sy_watchers s)\<rparr>;
          told = filter (\<lambda>w. hm_get (sy_actors s) w \<noteq> None \<and> \<not> refuses w) ws
      in s1\<lparr>sy_notices := sy_notices s1 @ map (\<lambda>w. (w, aid, reason)) told\<rparr>)"

definition handle_termination ::
  "(actor_id \<Rightarrow> bool) \<Rightarrow> actor_id \<Rightarrow> actor_path option \<Rightarrow> stop_reason \<Rightarrow> actor_system \<Rightarrow> actor_system" where
  "handle_termination refuses aid named_path reason s =
     notify_watchers refuses aid reason (cleanup_and_broadcast aid named_path reason s)"

definition remove_actor :: "actor_id \<Rightarrow> actor_system \<Rightarrow> actor_system" where
  "remove_actor aid s =
     (let ws = hm_map_values (removeAll aid) (hm_remove aid (sy_watchers s))
      in s\<lparr>sy_watchers := hm_retain (\<lambda>_ v. v \<noteq> []) ws\<rparr>)"

definition lifecycle_clear :: "actor_system \<Rightarrow> actor_system" where
  "lifecycle_clear s = s\<lparr>sy_watchers := []\<rparr>"

subsection \<open>Spawning\<close>

definition handle_name :: "local_actor_handle \<Rightarrow> string" where
  \<comment> \<open>the key under which an actor is registered\<close>
  "handle_name h = (case ah_named_path h of Some p \<Rightarrow> path_as_str p | None \<Rightarrow> simple_uuid (ah_actor_id h))"

definition publish_calls :: "actor_id \<Rightarrow> actor_path \<Rightarrow> metadata \<Rightarrow> cluster_call list" where
  "publish_calls aid path md =
     [if md = [] then CRegister path else CRegisterFull path aid md, CRegisterActor aid]"

definition spawn_internal ::
  "actor_id \<Rightarrow> actor_path option \<Rightarrow> metadata \<Rightarrow> bool \<Rightarrow> actor_system \<Rightarrow> (pulsing_error + actor_id) \<times> actor_system" where
  "spawn_internal aid path md publish s =
     (let s1 = register_actor aid \<lparr>ah_actor_id = aid, ah_named_path = path, ah_metadata = md\<rparr> s in
      case path of
        Some p \<Rightarrow>
          let name = path_as_str p in
          if has_name name s1 then
            (let (h, s2) = remove_handle aid s1;
                 s3 = (case h of Some _ \<Rightarrow> s2\<lparr>sy_cancelled := aid # sy_cancelled s2\<rparr> | None \<Rightarrow> s2)
             in (Inl (Runtime (ActorAlreadyExists name)), s3))
          else
            (let s2 = register_named_path name name (register_name name aid s1)
             in (Inr aid, if publish then cluster_do (publish_calls aid p md) s2 else s2))
      | None \<Rightarrow> (Inr aid, register_name (simple_uuid aid) aid s1))"

subsection \<open>Stopping\<close>

definition stop_local_actor ::
  "(actor_id \<Rightarrow> bool) \<Rightarrow> local_actor_handle \<Rightarrow> actor_path option \<Rightarrow> stop_reason \<Rightarrow> actor_system \<Rightarrow> actor_system" where
  \<comment> \<open>after the task has ended or the wait has timed out; both continue in the same way\<close>
  "stop_local_actor refuses h named_path reason s =
     handle_termination refuses (ah_actor_id h) named_path reason s"

definition take_out :: "string \<Rightarrow> actor_system \<Rightarrow> local_actor_handle option \<times> actor_system" where
  \<comment> \<open>the removal from the registry, and the cancellation of the task\<close>
  "take_out name s =
     (case remove_by_name name s of
        (None, s1) \<Rightarrow> (None, s1)
      | (Some aid, s1) \<Rightarrow>
          (case remove_handle aid s1 of
             (None, s2) \<Rightarrow> (None, s2)
           | (Some h, s2) \<Rightarrow> (Some h, s2\<lparr>sy_cancelled := ah_actor_id h # sy_cancelled s2\<rparr>)))"

definition actual_name :: "string \<Rightarrow> actor_system \<Rightarrow> string" where
  "actual_name name s =
     (if has_name name s then name
      else if CHR ''/'' \<notin> set name then
        (let prefixed = ''actors/'' @ name in if has_name prefixed s then prefixed else name)
      else name)"

definition stop_begin :: "string \<Rightarrow> actor_system \<Rightarrow> local_actor_handle option \<times> actor_system" where
  "stop_begin name s = take_out (actual_name name s) s"

definition stop_with_reason :: "(actor_id \<Rightarrow> bool) \<Rightarrow> string \<Rightarrow> stop_reason \<Rightarrow> actor_system \<Rightarrow> actor_system" where
  "stop_with_reason refuses name reason s =
     (case stop_begin name s of
        (None, s1) \<Rightarrow> s1
      | (Some h, s1) \<Rightarrow> stop_local_actor refuses h (ah_named_path h) reason s1)"

definition stop_named_with_reason :: "(actor_id \<Rightarrow> bool) \<Rightarrow> actor_path \<Rightarrow> stop_reason \<Rightarrow> actor_system \<Rightarrow> actor_system" where
  "stop_named_with_reason refuses path reason s =
     (case get_actor_name_by_path (path_as_str path) s of
        None \<Rightarrow> s
      | Some name \<Rightarrow>
          (case take_out name s of
             (None, s1) \<Rightarrow> s1
           | (Some h, s1) \<Rightarrow> stop_local_actor refuses h (Some path) reason s1))"

definition name_of :: "actor_id \<Rightarrow> actor_system \<Rightarrow> string" where
  "name_of aid s = (case find (\<lambda>(_, i). i = aid) (sy_names s) of Some (name, _) \<Rightarrow> name | None \<Rightarrow> simple_uuid aid)"

fun stop_entry :: "(actor_id \<Rightarrow> bool) \<Rightarrow> actor_id \<times> string \<times> actor_path option \<Rightarrow> actor_system \<Rightarrow> actor_system" where
  "stop_entry refuses (aid, name, path) s =
     (let s1 = snd (remove_by_name name s) in
      case remove_handle aid s1 of
        (None, s2) \<Rightarrow> s2
      | (Some h, s2) \<Rightarrow>
          stop_local_actor refuses h path SystemShutdown (s2\<lparr>sy_cancelled := ah_actor_id h # sy_cancelled s2\<rparr>))"

definition shutdown :: "(actor_id \<Rightarrow> bool) \<Rightarrow> pulsing_error option \<Rightarrow> actor_system \<Rightarrow> (pulsing_error + unit) \<times> actor_system" where
  \<comment> \<open>\<open>leave_error\<close>: the error of leaving the cluster. The token of the system is the parent of
    the tokens of the actors, so its cancellation cancels them all.\<close>
  "shutdown refuses leave_error s =
     (case begin_draining (sy_node s) of
        Inl e \<Rightarrow> (Inl e, s)
      | Inr n \<Rightarrow>
          let s1 = s\<lparr>sy_node := n, sy_cancelled := map fst (sy_actors s) @ sy_cancelled s\<rparr>;
              entries = map (\<lambda>(aid, h). (aid, name_of aid s1, ah_named_path h)) (sy_actors s1);
              s2 = fold (stop_entry refuses) entries s1;
              s3 = lifecycle_clear (clear_registry s2);
              s4 = cluster_do [CLeave] s3
          in case (sy_cluster s3, leave_error) of
               (Some _, Some e) \<Rightarrow>
                 (Inl e, case transition (sy_node s4) NodeFailed of Inr m \<Rightarrow> s4\<lparr>sy_node := m\<rparr> | Inl _ \<Rightarrow> s4)
             | _ \<Rightarrow>
                 (case transition (sy_node s4) Stopped of
                    Inr m \<Rightarrow> (Inr (), s4\<lparr>sy_node := m\<rparr>)
                  | Inl e \<Rightarrow> (Inl e, s4)))"

end
