(* ===== verification/LocalProps.thy ===== *)
theory LocalProps
  imports LocalSystem
begin

text \<open>
  Properties of the actors of one node: the maps of the registry agree after every
  operation that runs to its end, a stop tells the watchers, and the naming backend knows
  the node exactly for the names it has published. Two operations that interleave can
  break this.
\<close>

subsection \<open>The invariant of the registry\<close>

definition named_at :: "actor_system \<Rightarrow> string \<Rightarrow> bool" where
  "named_at s key \<longleftrightarrow>
     (\<exists>aid h p. hm_get (sy_actors s) aid = Some h \<and> ah_named_path h = Some p \<and> path_as_str p = key)"

definition names_ok :: "actor_system \<Rightarrow> bool" where
  "names_ok s \<longleftrightarrow>
     (\<forall>name aid. hm_get (sy_names s) name = Some aid \<longrightarrow>
        (\<exists>h. hm_get (sy_actors s) aid = Some h \<and> handle_name h = name)) \<and>
     (\<forall>aid h. hm_get (sy_actors s) aid = Some h \<longrightarrow>
        ah_actor_id h = aid \<and> hm_get (sy_names s) (handle_name h) = Some aid \<and>
        (\<forall>p. ah_named_path h = Some p \<longrightarrow> CHR ''/'' \<in> set (path_as_str p)))"

definition watchers_ok :: "(actor_id, actor_id hash_set) hash_map \<Rightarrow> bool" where
  "watchers_ok m \<longleftrightarrow> hm_ok m \<and> (\<forall>t ws. hm_get m t = Some ws \<longrightarrow> distinct ws \<and> ws \<noteq> [])"

definition reg_ok :: "actor_system \<Rightarrow> bool" where
  "reg_ok s \<longleftrightarrow>
     names_ok s \<and> hm_get (sy_paths s) = (\<lambda>key. if named_at s key then Some key else None) \<and>
     watchers_ok (sy_watchers s)"

definition fresh :: "actor_id \<Rightarrow> actor_system \<Rightarrow> bool" where
  "fresh aid s \<longleftrightarrow> hm_get (sy_actors s) aid = None \<and> hm_get (sy_names s) (simple_uuid aid) = None"

definition path_good :: "actor_path option \<Rightarrow> bool" where
  "path_good path \<longleftrightarrow> (\<forall>p. path = Some p \<longrightarrow> CHR ''/'' \<in> set (path_as_str p))"

lemma uuid_no_slash: "CHR ''/'' \<notin> set (simple_uuid n)"
  by (simp add: simple_uuid_def hex_digits_no_slash)

lemma cluster_do_frame [simp]:
  "sy_actors (cluster_do cs s) = sy_actors s" "sy_names (cluster_do cs s) = sy_names s"
  "sy_paths (cluster_do cs s) = sy_paths s" "sy_watchers (cluster_do cs s) = sy_watchers s"
  "sy_notices (cluster_do cs s) = sy_notices s" "sy_cancelled (cluster_do cs s) = sy_cancelled s"
  "sy_node (cluster_do cs s) = sy_node s"
  "sy_cluster (cluster_do cs s) = map_option (\<lambda>d. d @ cs) (sy_cluster s)"
  by (simp_all add: cluster_do_def)

text \<open>What a successful or failed spawn does to the maps.\<close>

lemma spawn_taken:
  assumes "hm_get (sy_names s) (path_as_str p) \<noteq> None" and "fresh aid s"
  shows "fst (spawn_internal aid (Some p) md publish s) = Inl (Runtime (ActorAlreadyExists (path_as_str p)))"
    and "hm_get (sy_actors (snd (spawn_internal aid (Some p) md publish s))) = hm_get (sy_actors s)"
    and "sy_names (snd (spawn_internal aid (Some p) md publish s)) = sy_names s"
    and "sy_paths (snd (spawn_internal aid (Some p) md publish s)) = sy_paths s"
    and "sy_watchers (snd (spawn_internal aid (Some p) md publish s)) = sy_watchers s"
    and "sy_cluster (snd (spawn_internal aid (Some p) md publish s)) = sy_cluster s"
  using assms by (auto simp: spawn_internal_def has_name_def register_actor_def remove_handle_def Let_def hm_simps fresh_def)

lemma spawn_free:
  assumes "\<forall>p. path = Some p \<longrightarrow> hm_get (sy_names s) (path_as_str p) = None"
  shows "fst (spawn_internal aid path md publish s) = Inr aid"
    and "hm_get (sy_actors (snd (spawn_internal aid path md publish s))) =
      (hm_get (sy_actors s))(aid \<mapsto> \<lparr>ah_actor_id = aid, ah_named_path = path, ah_metadata = md\<rparr>)"
    and "hm_get (sy_names (snd (spawn_internal aid path md publish s))) =
      (hm_get (sy_names s))(handle_name \<lparr>ah_actor_id = aid, ah_named_path = path, ah_metadata = md\<rparr> \<mapsto> aid)"
    and "hm_get (sy_paths (snd (spawn_internal aid path md publish s))) =
      (case path of None \<Rightarrow> hm_get (sy_paths s)
       | Some p \<Rightarrow> (hm_get (sy_paths s))(path_as_str p \<mapsto> path_as_str p))"
    and "sy_watchers (snd (spawn_internal aid path md publish s)) = sy_watchers s"
    and "sy_notices (snd (spawn_internal aid path md publish s)) = sy_notices s"
    and "sy_cluster (snd (spawn_internal aid path md publish s)) =
      (case path of None \<Rightarrow> sy_cluster s
       | Some p \<Rightarrow> if publish then map_option (\<lambda>d. d @ publish_calls aid p md) (sy_cluster s) else sy_cluster s)"
  using assms
  by (auto simp: spawn_internal_def has_name_def register_actor_def register_name_def register_named_path_def
      handle_name_def Let_def hm_simps split: option.splits)

lemma spawn_names_ok:
  assumes ok: "names_ok s" and f: "fresh aid s" and good: "path_good path"
    and free: "\<forall>p. path = Some p \<longrightarrow> hm_get (sy_names s) (path_as_str p) = None"
  shows "names_ok (snd (spawn_internal aid path md publish s))"
proof -
  let ?h = "\<lparr>ah_actor_id = aid, ah_named_path = path, ah_metadata = md\<rparr>"
  note eff = spawn_free(2,3) [of path s aid md publish, OF free]
  have new: "hm_get (sy_names s) (handle_name ?h) = None"
    using f free by (cases path) (auto simp: handle_name_def fresh_def)
  have "hm_get (sy_actors s) aid = None" using f by (simp add: fresh_def)
  with ok new good show ?thesis unfolding names_ok_def eff path_good_def
    by (auto split: if_splits) (metis option.distinct(1))+
qed

lemma spawn_reg_ok:
  assumes ok: "reg_ok s" and f: "fresh aid s" and good: "path_good path"
  shows "reg_ok (snd (spawn_internal aid path md publish s))"
proof (cases "\<exists>p. path = Some p \<and> hm_get (sy_names s) (path_as_str p) \<noteq> None")
  case True
  then obtain p where p: "path = Some p" "hm_get (sy_names s) (path_as_str p) \<noteq> None" by blast
  note eff = spawn_taken [OF p(2) f, of md publish]
  show ?thesis using ok unfolding p(1) reg_ok_def names_ok_def named_at_def eff .
next
  case False
  then have free: "\<forall>p. path = Some p \<longrightarrow> hm_get (sy_names s) (path_as_str p) = None" by blast
  note eff = spawn_free [of path s aid md publish, OF free]
  have "names_ok (snd (spawn_internal aid path md publish s))" using ok f good free by (auto simp: reg_ok_def intro: spawn_names_ok)
  moreover have "named_at (snd (spawn_internal aid path md publish s)) key \<longleftrightarrow>
      named_at s key \<or> (\<exists>p. path = Some p \<and> path_as_str p = key)" for key
    using f unfolding named_at_def eff fresh_def by auto (metis option.distinct(1))
  ultimately show ?thesis using ok unfolding reg_ok_def eff by (cases path) (simp_all add: fun_eq_iff)
qed


text \<open>What taking an actor out of the registry does.\<close>

lemma take_out_effect:
  assumes "names_ok s"
  shows "fst (take_out name s) = Option.bind (hm_get (sy_names s) name) (hm_get (sy_actors s))"
    and "hm_get (sy_names (snd (take_out name s))) = (hm_get (sy_names s))(name := None)"
    and "hm_get (sy_actors (snd (take_out name s))) =
      (case hm_get (sy_names s) name of None \<Rightarrow> hm_get (sy_actors s) | Some aid \<Rightarrow> (hm_get (sy_actors s))(aid := None))"
    and "sy_paths (snd (take_out name s)) = sy_paths s" and "sy_watchers (snd (take_out name s)) = sy_watchers s"
    and "sy_cluster (snd (take_out name s)) = sy_cluster s" and "sy_notices (snd (take_out name s)) = sy_notices s"
    and "sy_node (snd (take_out name s)) = sy_node s"
  by (auto simp: take_out_def remove_by_name_def remove_handle_def hm_simps split: option.splits)

lemma taken:
  assumes ok: "names_ok s" and h: "fst (take_out name s) = Some h"
  shows "hm_get (sy_names s) name = Some (ah_actor_id h)" "hm_get (sy_actors s) (ah_actor_id h) = Some h" "handle_name h = name"
proof -
  from h take_out_effect(1) [OF ok, of name] obtain aid where aid: "hm_get (sy_names s) name = Some aid"
    "hm_get (sy_actors s) aid = Some h" by (auto simp: bind_eq_Some_conv)
  with ok have "ah_actor_id h = aid" "handle_name h = name" unfolding names_ok_def by (fastforce, metis option.inject)
  with aid show "hm_get (sy_names s) name = Some (ah_actor_id h)" "hm_get (sy_actors s) (ah_actor_id h) = Some h"
    "handle_name h = name" by simp_all
qed

lemma names_okD:
  assumes "names_ok s"
  shows "hm_get (sy_names s) name = Some aid \<Longrightarrow> \<exists>h. hm_get (sy_actors s) aid = Some h \<and> handle_name h = name"
    and "hm_get (sy_actors s) aid = Some h \<Longrightarrow> ah_actor_id h = aid"
    and "hm_get (sy_actors s) aid = Some h \<Longrightarrow> hm_get (sy_names s) (handle_name h) = Some aid"
    and "hm_get (sy_actors s) aid = Some h \<Longrightarrow> ah_named_path h = Some p \<Longrightarrow> CHR ''/'' \<in> set (path_as_str p)"
  using assms unfolding names_ok_def by blast+

lemma take_out_names_ok:
  assumes ok: "names_ok s" and h: "fst (take_out name s) = Some h"
  shows "names_ok (snd (take_out name s))"
proof -
  note t = taken [OF assms] and d = names_okD [OF ok]
  have A: "hm_get (sy_actors (snd (take_out name s))) = (hm_get (sy_actors s))(ah_actor_id h := None)"
    using take_out_effect(3) [OF ok, of name] t(1) by simp
  have other: "g \<noteq> h \<and> handle_name g \<noteq> name" if "hm_get (sy_actors s) aid = Some g" "aid \<noteq> ah_actor_id h" for aid g
    using d(2,3) [OF that(1)] that(2) t(1) by auto
  show ?thesis unfolding names_ok_def A take_out_effect(2) [OF ok]
  proof (intro conjI allI impI)
    fix n aid assume "((hm_get (sy_names s))(name := None)) n = Some aid"
    then have n: "hm_get (sy_names s) n = Some aid" "n \<noteq> name" by (auto split: if_splits)
    from d(1) [OF n(1)] obtain g where g: "hm_get (sy_actors s) aid = Some g" "handle_name g = n" by blast
    with n t have "aid \<noteq> ah_actor_id h" by auto
    with g show "\<exists>g. ((hm_get (sy_actors s))(ah_actor_id h := None)) aid = Some g \<and> handle_name g = n" by auto
  next
    fix aid g assume "((hm_get (sy_actors s))(ah_actor_id h := None)) aid = Some g"
    then have g: "hm_get (sy_actors s) aid = Some g" "aid \<noteq> ah_actor_id h" by (auto split: if_splits)
    show "ah_actor_id g = aid" "((hm_get (sy_names s))(name := None)) (handle_name g) = Some aid"
      "\<And>p. ah_named_path g = Some p \<Longrightarrow> CHR ''/'' \<in> set (path_as_str p)"
      using d(2-4) [OF g(1)] other [OF g] by simp_all
  qed
qed

lemma take_out_None:
  assumes ok: "names_ok s" and h: "fst (take_out name s) = None"
  shows "hm_get (sy_names s) name = None"
proof -
  from h take_out_effect(1) [OF ok, of name] ok show ?thesis unfolding names_ok_def
    by (cases "hm_get (sy_names s) name") (auto, metis option.distinct(1))
qed


text \<open>The cleanup after a stop.\<close>

lemma stop_local_effect:
  shows "sy_actors (stop_local_actor refuses h path reason s) = sy_actors s"
    and "sy_names (stop_local_actor refuses h path reason s) = sy_names s"
    and "hm_get (sy_paths (stop_local_actor refuses h path reason s)) =
      (case path of None \<Rightarrow> hm_get (sy_paths s) | Some p \<Rightarrow> (hm_get (sy_paths s))(path_as_str p := None))"
    and "sy_watchers (stop_local_actor refuses h path reason s) = hm_remove (ah_actor_id h) (sy_watchers s)"
    and "sy_cluster (stop_local_actor refuses h path reason s) =
      map_option (\<lambda>d. d @ (case path of Some p \<Rightarrow> [CBroadcastFailed p reason, CUnregister p]
                                       | None \<Rightarrow> [CUnregisterActor (ah_actor_id h)])) (sy_cluster s)"
    and "sy_notices (stop_local_actor refuses h path reason s) = sy_notices s @
      map (\<lambda>w. (w, ah_actor_id h, reason))
        (filter (\<lambda>w. hm_get (sy_actors s) w \<noteq> None \<and> \<not> refuses w)
          (case hm_get (sy_watchers s) (ah_actor_id h) of Some ws \<Rightarrow> ws | None \<Rightarrow> []))"
    and "sy_node (stop_local_actor refuses h path reason s) = sy_node s"
  by (simp_all add: stop_local_actor_def handle_termination_def notify_watchers_def cleanup_and_broadcast_def
      Let_def hm_simps split: option.split)

lemma watchers_ok_remove: "watchers_ok m \<Longrightarrow> watchers_ok (hm_remove t m)"
  unfolding watchers_ok_def delete_conv' fun_upd_apply by (metis hm_ok_remove option.distinct(1))

lemma stop_reg_ok:
  assumes ok: "reg_ok s" and h: "fst (take_out name s) = Some h" and path: "map_option path_as_str path = map_option path_as_str (ah_named_path h)"
  shows "reg_ok (stop_local_actor refuses h path reason (snd (take_out name s)))"
proof -
  have names: "names_ok s" using ok by (simp add: reg_ok_def)
  note t = taken [OF names h] and d = names_okD [OF names]
  let ?s = "stop_local_actor refuses h path reason (snd (take_out name s))"
  note eff = stop_local_effect [of refuses h path reason "snd (take_out name s)"]
  have A: "hm_get (sy_actors ?s) = (hm_get (sy_actors s))(ah_actor_id h := None)"
    using eff(1) take_out_effect(3) [OF names, of name] t(1) by simp
  have "names_ok ?s" using take_out_names_ok [OF names h] unfolding names_ok_def eff(1,2) .
  moreover have "watchers_ok (sy_watchers ?s)"
    using ok eff(4) take_out_effect(5) [OF names, of name] by (simp add: reg_ok_def watchers_ok_remove)
  moreover have "named_at ?s key \<longleftrightarrow> named_at s key \<and> map_option path_as_str path \<noteq> Some key" for key
  proof -
    have "named_at ?s key \<longleftrightarrow> (\<exists>aid g p. hm_get (sy_actors s) aid = Some g \<and> aid \<noteq> ah_actor_id h \<and>
        ah_named_path g = Some p \<and> path_as_str p = key)" unfolding named_at_def A by auto
    also have "\<dots> \<longleftrightarrow> named_at s key \<and> map_option path_as_str path \<noteq> Some key"
    proof (intro iffI conjI)
      assume "\<exists>aid g p. hm_get (sy_actors s) aid = Some g \<and> aid \<noteq> ah_actor_id h \<and> ah_named_path g = Some p \<and> path_as_str p = key"
      then obtain aid g p where g: "hm_get (sy_actors s) aid = Some g" "aid \<noteq> ah_actor_id h" "ah_named_path g = Some p" "path_as_str p = key"
        by blast
      then show "named_at s key" unfolding named_at_def by blast
      show "map_option path_as_str path \<noteq> Some key"
      proof
        assume "map_option path_as_str path = Some key"
        then have "handle_name h = key" unfolding path by (auto simp: handle_name_def)
        moreover have "handle_name g = key" using g by (simp add: handle_name_def)
        ultimately show False using d(3) [OF g(1)] d(3) [OF t(2)] g(2) by simp
      qed
    next
      assume *: "named_at s key \<and> map_option path_as_str path \<noteq> Some key"
      then obtain aid g p where g: "hm_get (sy_actors s) aid = Some g" "ah_named_path g = Some p" "path_as_str p = key"
        unfolding named_at_def by blast
      moreover from * have "aid \<noteq> ah_actor_id h" using g t(2) unfolding path by auto
      ultimately show "\<exists>aid g p. hm_get (sy_actors s) aid = Some g \<and> aid \<noteq> ah_actor_id h \<and> ah_named_path g = Some p \<and> path_as_str p = key"
        by blast
    qed
    finally show ?thesis .
  qed
  moreover have "hm_get (sy_paths ?s) = (\<lambda>key. if map_option path_as_str path = Some key then None else hm_get (sy_paths s) key)"
    using eff(3) take_out_effect(4) [OF names, of name] by (cases path) (auto simp: fun_eq_iff)
  ultimately show ?thesis using ok unfolding reg_ok_def by (simp add: fun_eq_iff)
qed


subsection \<open>Histories\<close>

inductive sys_step :: "bool \<Rightarrow> actor_system \<Rightarrow> actor_system \<Rightarrow> bool" for published where
  \<comment> \<open>\<open>published\<close>: every named actor is announced to the cluster, as is the default\<close>
  spawn: "fresh aid s \<Longrightarrow> path_good path \<Longrightarrow> (published \<Longrightarrow> publish) \<Longrightarrow>
    sys_step published s (snd (spawn_internal aid path md publish s))"
| stop: "sys_step published s (stop_with_reason refuses name reason s)"
| stop_named: "sys_step published s (stop_named_with_reason refuses path reason s)"
| watch: "sys_step published s (snd (system_watch w t s))"
| unwatch: "sys_step published s (lc_unwatch w t s)"
| forget: "sys_step published s (remove_actor aid s)"

inductive sys_reach :: "bool \<Rightarrow> bool \<Rightarrow> actor_system \<Rightarrow> bool" for clustered published where
  new: "sys_reach clustered published (system_new clustered)"
| step: "sys_reach clustered published s \<Longrightarrow> sys_step published s s' \<Longrightarrow> sys_reach clustered published s'"

text \<open>A stop does nothing, or takes an actor out and cleans up after it under its own path.\<close>

lemma take_out_gone: "names_ok s \<Longrightarrow> fst (take_out name s) = None \<Longrightarrow>
    hm_get (sy_names (snd (take_out name s))) = hm_get (sy_names s) \<and>
    hm_get (sy_actors (snd (take_out name s))) = hm_get (sy_actors s)"
  using take_out_None [of s name] take_out_effect(2,3) [of s name] by auto

lemma stop_shape:
  "stop_with_reason refuses name reason s =
     (case fst (take_out (actual_name name s) s) of
        None \<Rightarrow> snd (take_out (actual_name name s) s)
      | Some h \<Rightarrow> stop_local_actor refuses h (ah_named_path h) reason (snd (take_out (actual_name name s) s)))"
  by (simp add: stop_with_reason_def stop_begin_def split: prod.split option.split)

lemma stop_named_shape:
  assumes "reg_ok s"
  obtains (nothing) "stop_named_with_reason refuses path reason s = s"
    | (stopped) h where "fst (take_out (path_as_str path) s) = Some h"
      "map_option path_as_str (ah_named_path h) = Some (path_as_str path)"
      "stop_named_with_reason refuses path reason s =
         stop_local_actor refuses h (Some path) reason (snd (take_out (path_as_str path) s))"
proof (cases "named_at s (path_as_str path)")
  case False
  then have "stop_named_with_reason refuses path reason s = s"
    using assms by (simp add: reg_ok_def stop_named_with_reason_def get_actor_name_by_path_def)
  then show thesis by (rule nothing)
next
  case True
  have ok: "names_ok s" using assms by (simp add: reg_ok_def)
  note d = names_okD [OF ok]
  obtain aid g p where g: "hm_get (sy_actors s) aid = Some g" "ah_named_path g = Some p" "path_as_str p = path_as_str path"
    using True unfolding named_at_def by blast
  then have "handle_name g = path_as_str path" by (simp add: handle_name_def)
  with d(3) [OF g(1)] g(1) have out: "fst (take_out (path_as_str path) s) = Some g"
    using take_out_effect(1) [OF ok] by simp
  moreover have "stop_named_with_reason refuses path reason s =
      stop_local_actor refuses g (Some path) reason (snd (take_out (path_as_str path) s))"
    using True assms out by (cases "take_out (path_as_str path) s")
      (simp add: reg_ok_def stop_named_with_reason_def get_actor_name_by_path_def)
  ultimately show thesis using g stopped by simp
qed

lemma reg_ok_cong:
  assumes "reg_ok s" and "hm_get (sy_actors s') = hm_get (sy_actors s)" "hm_get (sy_names s') = hm_get (sy_names s)"
    "hm_get (sy_paths s') = hm_get (sy_paths s)" "watchers_ok (sy_watchers s')"
  shows "reg_ok s'"
  using assms(1,5) unfolding reg_ok_def names_ok_def named_at_def assms(2-4) by blast

lemma watchers_okI:
  assumes "hm_ok m" and "\<And>t ws. hm_get m t = Some ws \<Longrightarrow> distinct ws \<and> ws \<noteq> []"
  shows "watchers_ok m"
  using assms unfolding watchers_ok_def by blast

lemma watchers_ok_ops:
  assumes ok: "watchers_ok (sy_watchers s)"
  shows "watchers_ok (sy_watchers (lc_watch w t s))" "watchers_ok (sy_watchers (lc_unwatch w t s))"
    "watchers_ok (sy_watchers (remove_actor aid s))"
proof -
  have hm: "hm_ok (sy_watchers s)"
    and ws: "\<And>t ws. hm_get (sy_watchers s) t = Some ws \<Longrightarrow> distinct ws \<and> ws \<noteq> []"
    using ok unfolding watchers_ok_def by blast+
  show "watchers_ok (sy_watchers (lc_watch w t s))"
  proof (rule watchers_okI)
    show "hm_ok (sy_watchers (lc_watch w t s))" using hm by (simp add: lc_watch_def)
    fix u vs assume "hm_get (sy_watchers (lc_watch w t s)) u = Some vs"
    then show "distinct vs \<and> vs \<noteq> []"
      using ws [of u "the (hm_get (sy_watchers s) u)"] by (auto simp: lc_watch_def hm_simps List.insert_def split: if_splits option.splits)
  qed
  show "watchers_ok (sy_watchers (lc_unwatch w t s))"
  proof (rule watchers_okI)
    show "hm_ok (sy_watchers (lc_unwatch w t s))" using hm by (simp add: lc_unwatch_def Let_def split: option.split)
    fix u vs assume "hm_get (sy_watchers (lc_unwatch w t s)) u = Some vs"
    then show "distinct vs \<and> vs \<noteq> []"
      using ws [of u "the (hm_get (sy_watchers s) u)"] by (auto simp: lc_unwatch_def hm_simps Let_def distinct_removeAll split: if_splits option.splits)
  qed
  show "watchers_ok (sy_watchers (remove_actor aid s))"
  proof (rule watchers_okI)
    show "hm_ok (sy_watchers (remove_actor aid s))" using hm by (simp add: remove_actor_def Let_def)
    fix u vs assume "hm_get (sy_watchers (remove_actor aid s)) u = Some vs"
    then show "distinct vs \<and> vs \<noteq> []"
      using ws [of u "the (hm_get (sy_watchers s) u)"] hm by (auto simp: remove_actor_def hm_simps Let_def distinct_removeAll split: if_splits option.splits)
  qed
qed

lemma sys_step_reg_ok:
  assumes "sys_step published s s'" and ok: "reg_ok s"
  shows "reg_ok s'"
  using assms(1)
proof cases
  case (spawn aid path publish md)
  then show ?thesis using ok by (simp add: spawn_reg_ok)
next
  case (stop refuses name reason)
  have names: "names_ok s" using ok by (simp add: reg_ok_def)
  show ?thesis
  proof (cases "fst (take_out (actual_name name s) s)")
    case None
    with ok take_out_gone [OF names None] take_out_effect(4,5) [OF names, of "actual_name name s"] show ?thesis
      unfolding stop stop_shape by (intro reg_ok_cong [OF ok]) (simp_all add: reg_ok_def)
  next
    case (Some h)
    then show ?thesis unfolding stop stop_shape by (simp add: stop_reg_ok [OF ok])
  qed
next
  case (stop_named refuses path reason)
  from ok show ?thesis
  proof (cases rule: stop_named_shape [of s refuses path reason])
    case nothing
    then show ?thesis using ok stop_named by simp
  next
    case (stopped h)
    then show ?thesis unfolding stop_named by (simp only: stop_reg_ok [OF ok] option.map)
  qed
next
  case (watch w t)
  have "watchers_ok (sy_watchers (snd (system_watch w t s)))"
    using watchers_ok_ops(1) ok by (simp add: system_watch_def reg_ok_def split: option.split)
  then show ?thesis unfolding watch
    by (rule reg_ok_cong [OF ok, rotated 3]) (simp_all add: system_watch_def lc_watch_def split: option.split)
next
  case (unwatch w t)
  have "watchers_ok (sy_watchers (lc_unwatch w t s))" using watchers_ok_ops(2) ok by (simp add: reg_ok_def)
  then show ?thesis unfolding unwatch
    by (rule reg_ok_cong [OF ok, rotated 3]) (simp_all add: lc_unwatch_def Let_def split: option.split)
next
  case (forget aid)
  have "watchers_ok (sy_watchers (remove_actor aid s))" using watchers_ok_ops(3) ok by (simp add: reg_ok_def)
  then show ?thesis unfolding forget
    by (rule reg_ok_cong [OF ok, rotated 3]) (simp_all add: remove_actor_def Let_def)
qed

lemma sys_reach_reg_ok: "sys_reach clustered published s \<Longrightarrow> reg_ok s"
proof (induction rule: sys_reach.induct)
  case new
  show ?case by (simp add: reg_ok_def names_ok_def named_at_def watchers_ok_def system_new_def)
qed (rule sys_step_reg_ok)


text \<open>
  C18. After any sequence of spawns, stops, watches and unwatches that each run to their end,
  the maps of the registry agree: a name leads to an actor exactly when that actor is
  registered under it, every registered actor has exactly one name, a path is routable exactly
  when an actor with that path is registered, and no empty set of watchers is kept.
\<close>

theorem registry_agrees:
  assumes "sys_reach clustered published s"
  shows "(\<forall>name aid. local_actor_ref_by_name name s = Some aid \<longleftrightarrow>
      (\<exists>h. hm_get (sy_actors s) aid = Some h \<and> handle_name h = name)) \<and>
    (\<forall>aid h. hm_get (sy_actors s) aid = Some h \<longrightarrow> (\<exists>!name. local_actor_ref_by_name name s = Some aid)) \<and>
    (\<forall>key. get_actor_name_by_path key s = (if named_at s key then Some key else None)) \<and>
    (\<forall>t ws. hm_get (sy_watchers s) t = Some ws \<longrightarrow> distinct ws \<and> ws \<noteq> [])"
proof -
  have ok: "reg_ok s" using assms by (rule sys_reach_reg_ok)
  then have names: "names_ok s" by (simp add: reg_ok_def)
  note d = names_okD [OF names]
  have ref: "local_actor_ref_by_name name s = Some aid \<longleftrightarrow>
      (\<exists>h. hm_get (sy_actors s) aid = Some h \<and> handle_name h = name)" for name aid
  proof
    assume "local_actor_ref_by_name name s = Some aid"
    then obtain aid' h where h: "hm_get (sy_names s) name = Some aid'" "hm_get (sy_actors s) aid' = Some h" "ah_actor_id h = aid"
      by (auto simp: local_actor_ref_by_name_def split: option.splits)
    with d(1) [OF h(1)] d(2) [OF h(2)] show "\<exists>h. hm_get (sy_actors s) aid = Some h \<and> handle_name h = name" by auto
  next
    assume "\<exists>h. hm_get (sy_actors s) aid = Some h \<and> handle_name h = name"
    then obtain h where h: "hm_get (sy_actors s) aid = Some h" "handle_name h = name" by blast
    with d(2,3) [OF h(1)] show "local_actor_ref_by_name name s = Some aid" by (simp add: local_actor_ref_by_name_def)
  qed
  moreover have "\<exists>!name. local_actor_ref_by_name name s = Some aid" if "hm_get (sy_actors s) aid = Some h" for aid h
    using that by (auto simp: ref)
  moreover have "get_actor_name_by_path key s = (if named_at s key then Some key else None)" for key
    using ok by (simp add: reg_ok_def get_actor_name_by_path_def)
  moreover have "distinct ws \<and> ws \<noteq> []" if "hm_get (sy_watchers s) t = Some ws" for t ws
    using ok that unfolding reg_ok_def watchers_ok_def by metis
  ultimately show ?thesis by (intro conjI allI impI) fast+
qed

definition demo_system :: actor_system where
  "demo_system = snd (system_watch 9 7
     (snd (spawn_internal 9 None [] True (snd (spawn_internal 7 (Some demo_path) [] True (system_new True))))))"

lemma demo_system_parts:
  "sy_actors demo_system = [(7, \<lparr>ah_actor_id = 7, ah_named_path = Some demo_path, ah_metadata = []\<rparr>),
      (9, \<lparr>ah_actor_id = 9, ah_named_path = None, ah_metadata = []\<rparr>)]"
  "sy_names demo_system = [(''app/echo'', 7), (simple_uuid 9, 9)]" "sy_paths demo_system = [(''app/echo'', ''app/echo'')]"
  "sy_watchers demo_system = [(7, [9])]" "sy_notices demo_system = []"
  "sy_cluster demo_system = Some [CRegister demo_path, CRegisterActor 7]"
  by code_simp+

lemma demo_system_reach: "sys_reach True True demo_system"
proof -
  let ?s1 = "snd (spawn_internal 7 (Some demo_path) [] True (system_new True))"
  have "fresh 7 (system_new True)" "fresh 9 ?s1" by code_simp+
  moreover have "path_good (Some demo_path)" by (simp add: path_good_def path_as_str_def join_with.simps)
  ultimately show ?thesis unfolding demo_system_def
    by (intro sys_reach.step [OF _ sys_step.watch] sys_reach.step [OF _ sys_step.spawn] sys_reach.new)
      (simp_all add: path_good_def)
qed

theorem registry_agrees_witness: "local_actor_ref_by_name ''app/echo'' demo_system = Some 7"
proof -
  have "hm_get (sy_actors demo_system) 7 = Some \<lparr>ah_actor_id = 7, ah_named_path = Some demo_path, ah_metadata = []\<rparr>"
    by (simp add: demo_system_parts)
  moreover have "handle_name \<lparr>ah_actor_id = 7, ah_named_path = Some demo_path, ah_metadata = []\<rparr> = ''app/echo''"
    by (simp add: handle_name_def path_as_str_def join_with.simps)
  ultimately show ?thesis using registry_agrees [OF demo_system_reach] by blast
qed




subsection \<open>Overlapping operations\<close>

text \<open>
  A name is free as soon as its actor is taken out of the registry, before the wait for the
  task. An actor spawned under the path during the wait keeps its name, but the clean-up of the
  old one takes the path from the routing table and withdraws it from the cluster: the new actor
  is no longer routable and cannot be stopped by its path.
\<close>

theorem stop_overlaps_spawn:
  assumes "sys_reach clustered published s" and "sy_cluster s = Some calls"
    and begin_h: "stop_begin name s = (Some h, s1)" and p: "ah_named_path h = Some p"
    and f: "fresh aid s1"
  shows "fst (spawn_internal aid (Some p) md True s1) = Inr aid \<and>
    (let s2 = snd (spawn_internal aid (Some p) md True s1);
         s3 = stop_local_actor refuses h (ah_named_path h) reason s2
     in local_actor_ref_by_name (path_as_str p) s2 = Some aid \<and> get_actor_name_by_path (path_as_str p) s2 \<noteq> None \<and>
        local_actor_ref_by_name (path_as_str p) s3 = Some aid \<and> get_actor_name_by_path (path_as_str p) s3 = None \<and>
        stop_named_with_reason refuses p reason s3 = s3 \<and>
        sy_cluster s3 = Some (calls @ publish_calls aid p md @ [CBroadcastFailed p reason, CUnregister p]))"
proof -
  have names: "names_ok s" using assms(1) by (auto dest: sys_reach_reg_ok simp: reg_ok_def)
  let ?n = "actual_name name s"
  have out: "fst (take_out ?n s) = Some h" "snd (take_out ?n s) = s1" using begin_h by (simp_all add: stop_begin_def)
  have n: "?n = path_as_str p" using taken(3) [OF names out(1)] p by (simp add: handle_name_def)
  have free: "\<forall>q. Some p = Some q \<longrightarrow> hm_get (sy_names s1) (path_as_str q) = None"
    using take_out_effect(2) [OF names, of ?n] out(2) n by simp
  note sp = spawn_free [of "Some p" s1 aid md True, OF free]
  note fin = stop_local_effect [of refuses h "Some p" reason "snd (spawn_internal aid (Some p) md True s1)"]
  have "sy_cluster s1 = Some calls" using take_out_effect(6) [OF names, of ?n] out(2) assms(2) by simp
  then show ?thesis unfolding Let_def p
    by (simp add: sp fin local_actor_ref_by_name_def get_actor_name_by_path_def handle_name_def
        stop_named_with_reason_def)
qed

subsection \<open>Shutdown\<close>

lemma stop_entry_effect:
  "sy_cluster (stop_entry refuses (aid, name, path) s) =
     map_option (\<lambda>d. d @ (case hm_get (sy_actors s) aid of
         None \<Rightarrow> []
       | Some h \<Rightarrow> (case path of Some p \<Rightarrow> [CBroadcastFailed p SystemShutdown, CUnregister p]
                     | None \<Rightarrow> [CUnregisterActor (ah_actor_id h)]))) (sy_cluster s)"
  "hm_get (sy_actors (stop_entry refuses (aid, name, path) s)) = (hm_get (sy_actors s))(aid := None)"
  "sy_node (stop_entry refuses (aid, name, path) s) = sy_node s"
  by (auto simp: remove_by_name_def remove_handle_def Let_def stop_local_effect hm_simps option.map_ident split: option.split)

lemma stop_local_cancelled [simp]: "sy_cancelled (stop_local_actor refuses h path reason s) = sy_cancelled s"
  by (simp add: stop_local_actor_def handle_termination_def notify_watchers_def cleanup_and_broadcast_def Let_def
      split: option.split)

lemma stop_entry_cancelled: "set (sy_cancelled s) \<subseteq> set (sy_cancelled (stop_entry refuses e s))"
  by (cases e) (auto simp: remove_by_name_def remove_handle_def Let_def split: option.split)

declare stop_entry.simps [simp del]

lemma stop_entries_grow:
  "sy_cluster s = Some cs \<Longrightarrow> \<exists>new. sy_cluster (fold (stop_entry refuses) es s) = Some (cs @ new)"
proof (induction es arbitrary: s cs)
  case (Cons e es)
  obtain new where "sy_cluster (stop_entry refuses e s) = Some (cs @ new)"
    using Cons.prems by (cases e) (simp add: stop_entry_effect)
  with Cons.IH show ?case by fastforce
qed simp

lemma stop_entries_frame:
  "sy_node (fold (stop_entry refuses) es s) = sy_node s"
  "set (sy_cancelled s) \<subseteq> set (sy_cancelled (fold (stop_entry refuses) es s))"
  "sy_cluster (fold (stop_entry refuses) es s) = None \<longleftrightarrow> sy_cluster s = None"
proof (induction es arbitrary: s)
  case (Cons e es)
  { case 1 show ?case using Cons.IH(1) by (cases e) (simp add: stop_entry_effect) }
  { case 2 show ?case using Cons.IH(2) stop_entry_cancelled by fastforce }
  { case 3 show ?case using Cons.IH(3) by (cases e) (simp add: stop_entry_effect) }
qed simp_all

lemma stop_entries_withdraw:
  assumes "map_of xs aid = Some h" "hm_get (sy_actors s) aid = Some h" "sy_cluster s = Some cs" "ah_named_path h = Some p"
  shows "\<exists>new. sy_cluster (fold (stop_entry refuses) (map (\<lambda>(a, h). (a, f a, ah_named_path h)) xs) s) = Some (cs @ new) \<and>
    CUnregister p \<in> set new"
  using assms
proof (induction xs arbitrary: s cs)
  case (Cons x xs)
  obtain a g where x: "x = (a, g)" by (cases x)
  let ?t = "stop_entry refuses (a, f a, ah_named_path g) s"
  let ?es = "map (\<lambda>(a, h). (a, f a, ah_named_path h)) xs"
  have fold: "fold (stop_entry refuses) (map (\<lambda>(a, h). (a, f a, ah_named_path h)) (x # xs)) s = fold (stop_entry refuses) ?es ?t"
    by (simp add: x)
  show ?case
  proof (cases "a = aid")
    case True
    with Cons.prems x have t: "sy_cluster ?t = Some (cs @ [CBroadcastFailed p SystemShutdown, CUnregister p])"
      by (simp add: stop_entry_effect)
    from stop_entries_grow [OF this, of refuses ?es] show ?thesis unfolding fold by auto
  next
    case False
    then have "hm_get (sy_actors ?t) aid = Some h" using Cons.prems(2) by (simp add: stop_entry_effect)
    moreover obtain new where "sy_cluster ?t = Some (cs @ new)" using Cons.prems(3) by (simp add: stop_entry_effect)
    moreover have "map_of xs aid = Some h" using Cons.prems(1) False x by simp
    ultimately obtain new' where "sy_cluster (fold (stop_entry refuses) ?es ?t) = Some ((cs @ new) @ new')" "CUnregister p \<in> set new'"
      using Cons.IH Cons.prems(4) by blast
    then show ?thesis unfolding fold by (intro exI [of _ "new @ new'"]) simp
  qed
qed simp

text \<open>
  Shutting down, from whatever state, empties the registry and the watchers, cancels every
  actor, and withdraws the path of every named actor from the cluster before leaving it. It
  succeeds and ends in the state stopped unless leaving the cluster fails; then its error is
  returned.
\<close>

theorem shutdown_outcome:
  "let s' = snd (shutdown refuses leave_error s) in
   sy_actors s' = [] \<and> sy_names s' = [] \<and> sy_paths s' = [] \<and> sy_watchers s' = [] \<and>
   (\<forall>aid. hm_get (sy_actors s) aid \<noteq> None \<longrightarrow> aid \<in> set (sy_cancelled s')) \<and>
   (\<forall>cs. sy_cluster s = Some cs \<longrightarrow> (\<exists>new. sy_cluster s' = Some (cs @ new @ [CLeave]) \<and>
      (\<forall>aid h p. hm_get (sy_actors s) aid = Some h \<and> ah_named_path h = Some p \<longrightarrow> CUnregister p \<in> set new))) \<and>
   (case (sy_cluster s, leave_error) of
      (Some _, Some e) \<Rightarrow> fst (shutdown refuses leave_error s) = Inl e \<and> sy_node s' \<in> {NodeFailed, Stopped}
    | _ \<Rightarrow> fst (shutdown refuses leave_error s) = Inr () \<and> sy_node s' = Stopped)"
proof -
  obtain n where n: "begin_draining (sy_node s) = Inr n" "n = Draining \<or> n = Stopped"
    by (cases "sy_node s") (simp_all add: begin_draining_def transition_def)
  define s1 where "s1 = s\<lparr>sy_node := n, sy_cancelled := map fst (sy_actors s) @ sy_cancelled s\<rparr>"
  define es where "es = map (\<lambda>(aid, h). (aid, name_of aid s1, ah_named_path h)) (sy_actors s1)"
  define s2 where "s2 = fold (stop_entry refuses) es s1"
  define s4 where "s4 = cluster_do [CLeave] (lifecycle_clear (clear_registry s2))"
  have frame: "sy_node s2 = n" "set (map fst (sy_actors s)) \<subseteq> set (sy_cancelled s2)"
    "sy_cluster s2 = None \<longleftrightarrow> sy_cluster s = None"
    using stop_entries_frame(1,3) [of refuses es s1] stop_entries_frame(2) [of s1 refuses es]
    unfolding s2_def by (simp_all add: s1_def)
  have c: "sy_cluster (lifecycle_clear (clear_registry s2)) = sy_cluster s2"
    by (simp add: lifecycle_clear_def clear_registry_def)
  have shut: "shutdown refuses leave_error s =
      (case (sy_cluster s2, leave_error) of
         (Some _, Some e) \<Rightarrow>
           (Inl e, case transition (sy_node s4) NodeFailed of Inr m \<Rightarrow> s4\<lparr>sy_node := m\<rparr> | Inl _ \<Rightarrow> s4)
       | _ \<Rightarrow> (case transition (sy_node s4) Stopped of Inr m \<Rightarrow> (Inr (), s4\<lparr>sy_node := m\<rparr>) | Inl e \<Rightarrow> (Inl e, s4)))"
    unfolding shutdown_def n(1) sum.case Let_def s1_def [symmetric] es_def [symmetric] s2_def [symmetric]
      s4_def [symmetric] c by (rule refl)
  have node: "sy_node s4 = n" using frame(1) by (simp add: s4_def lifecycle_clear_def clear_registry_def s1_def)
  define m where "m = (case (sy_cluster s, leave_error) of (Some _, Some e) \<Rightarrow> (if n = Stopped then Stopped else NodeFailed) | _ \<Rightarrow> Stopped)"
  have none: "sy_cluster s2 = None \<longleftrightarrow> sy_cluster s = None" using frame(3) by (simp add: s1_def)
  have s': "snd (shutdown refuses leave_error s) = s4\<lparr>sy_node := m\<rparr>"
    using n(2) none unfolding shut by (auto simp: node m_def transition_def split: option.split)
  have fst: "fst (shutdown refuses leave_error s) =
      (case (sy_cluster s, leave_error) of (Some _, Some e) \<Rightarrow> Inl e | _ \<Rightarrow> Inr ())"
    using n(2) none unfolding shut by (auto simp: node transition_def split: option.split)
  have "\<exists>new. sy_cluster s4 = Some (cs @ new @ [CLeave]) \<and>
      (\<forall>aid h p. hm_get (sy_actors s) aid = Some h \<and> ah_named_path h = Some p \<longrightarrow> CUnregister p \<in> set new)"
    if cs: "sy_cluster s = Some cs" for cs
  proof -
    have s1: "sy_cluster s1 = Some cs" "sy_actors s1 = sy_actors s" using cs by (simp_all add: s1_def)
    obtain new where new: "sy_cluster s2 = Some (cs @ new)" using stop_entries_grow [OF s1(1)] unfolding s2_def by blast
    have "CUnregister p \<in> set new" if h: "hm_get (sy_actors s) aid = Some h" "ah_named_path h = Some p" for aid h p
    proof -
      obtain new' where "sy_cluster s2 = Some (cs @ new')" "CUnregister p \<in> set new'"
        using stop_entries_withdraw [of "sy_actors s1" aid h s1 cs p refuses "\<lambda>a. name_of a s1"] h s1
        unfolding s2_def es_def by auto
      with new show ?thesis by simp
    qed
    with new show ?thesis by (auto simp: s4_def lifecycle_clear_def clear_registry_def)
  qed
  moreover have "aid \<in> set (sy_cancelled s4)" if "hm_get (sy_actors s) aid \<noteq> None" for aid
  proof -
    from that have "aid \<in> fst ` set (sy_actors s)" by (simp add: map_of_eq_None_iff)
    with frame(2) show ?thesis by (auto simp: s4_def lifecycle_clear_def clear_registry_def s1_def)
  qed
  ultimately show ?thesis unfolding s' fst Let_def
    by (auto simp: s4_def lifecycle_clear_def clear_registry_def m_def split: option.split)
qed

end
