(* ===== verification/LocalCluster.thy ===== *)
theory LocalCluster
  imports LocalProps
begin

text \<open>
  The node and its naming backend together: the calls a node makes while it spawns and stops
  actors, replayed on the backend, keep the backend's view of the node equal to the node's own
  registry. The argument is made once, over the contract of a backend, and holds for the
  gossip cluster and for both modes of the head-node backend.
\<close>

subsection \<open>What the calls of a step are\<close>

definition step_calls :: "actor_system \<Rightarrow> actor_system \<Rightarrow> cluster_call list \<Rightarrow> bool" where
  \<comment> \<open>the calls are those of a spawn, those of a stop, or concern no name, and the registry
    changes with them\<close>
  "step_calls s s' new \<longleftrightarrow>
     (new = [] \<or> (\<exists>aid. new = [CUnregisterActor aid])) \<and> named_at s' = named_at s \<or>
     (\<exists>aid p md. new = publish_calls aid p md \<and> named_at s' = (named_at s)(path_as_str p := True)) \<or>
     (\<exists>p reason. new = [CBroadcastFailed p reason, CUnregister p] \<and> named_at s' = (named_at s)(path_as_str p := False))"

lemma step_callsI:
  "named_at s' = named_at s \<Longrightarrow> step_calls s s' []"
  "named_at s' = named_at s \<Longrightarrow> step_calls s s' [CUnregisterActor aid]"
  "named_at s' = (named_at s)(path_as_str p := True) \<Longrightarrow> step_calls s s' (publish_calls aid p md)"
  "named_at s' = (named_at s)(path_as_str p := False) \<Longrightarrow> step_calls s s' [CBroadcastFailed p reason, CUnregister p]"
  unfolding step_calls_def by blast+

lemma named_at_cong: "hm_get (sy_actors s') = hm_get (sy_actors s) \<Longrightarrow> named_at s' = named_at s"
  unfolding named_at_def fun_eq_iff by simp

lemma named_at_paths: "reg_ok s \<Longrightarrow> named_at s = (\<lambda>key. hm_get (sy_paths s) key \<noteq> None)"
  by (simp add: reg_ok_def fun_eq_iff)

lemma spawn_step_calls:
  assumes ok: "reg_ok s" and f: "fresh aid s" and good: "path_good path" and c: "sy_cluster s = Some cs"
  shows "\<exists>new. sy_cluster (snd (spawn_internal aid path md True s)) = Some (cs @ new) \<and>
    step_calls s (snd (spawn_internal aid path md True s)) new"
proof (cases "\<exists>p. path = Some p \<and> hm_get (sy_names s) (path_as_str p) \<noteq> None")
  case True
  then obtain p where p: "path = Some p" "hm_get (sy_names s) (path_as_str p) \<noteq> None" by blast
  note eff = spawn_taken [OF p(2) f, of md True]
  from eff(2) have "named_at (snd (spawn_internal aid path md True s)) = named_at s" unfolding p(1) by (rule named_at_cong)
  then show ?thesis using eff(6) c p(1) by (auto intro: step_callsI)
next
  case False
  then have free: "\<forall>p. path = Some p \<longrightarrow> hm_get (sy_names s) (path_as_str p) = None" by blast
  note eff = spawn_free [of path s aid md True, OF free]
  have "named_at (snd (spawn_internal aid path md True s)) =
      (case path of None \<Rightarrow> named_at s | Some p \<Rightarrow> (named_at s)(path_as_str p := True))"
    using named_at_paths [OF spawn_reg_ok [OF ok f good, of md True]] named_at_paths [OF ok] eff(4)
    by (cases path) (auto simp: fun_eq_iff)
  then show ?thesis using eff(7) c by (cases path) (auto intro: step_callsI)
qed

lemma stop_step_calls:
  assumes ok: "reg_ok s" and h: "fst (take_out name s) = Some h"
    and path: "map_option path_as_str path = map_option path_as_str (ah_named_path h)" and c: "sy_cluster s = Some cs"
  shows "\<exists>new. sy_cluster (stop_local_actor refuses h path reason (snd (take_out name s))) = Some (cs @ new) \<and>
    step_calls s (stop_local_actor refuses h path reason (snd (take_out name s))) new"
proof -
  have names: "names_ok s" using ok by (simp add: reg_ok_def)
  note eff = stop_local_effect [of refuses h path reason "snd (take_out name s)"] and t = take_out_effect [OF names, of name]
  have "named_at (stop_local_actor refuses h path reason (snd (take_out name s))) =
      (case path of None \<Rightarrow> named_at s | Some p \<Rightarrow> (named_at s)(path_as_str p := False))"
    using named_at_paths [OF stop_reg_ok [OF ok h path]] named_at_paths [OF ok] eff(3) t(4)
    by (cases path) (auto simp: fun_eq_iff)
  then show ?thesis using eff(5) t(6) c by (cases path) (auto intro: step_callsI)
qed

lemma sys_step_calls:
  assumes "sys_step True s s'" and ok: "reg_ok s" and c: "sy_cluster s = Some cs"
  shows "\<exists>new. sy_cluster s' = Some (cs @ new) \<and> step_calls s s' new"
proof -
  have quiet: "\<exists>new. sy_cluster s' = Some (cs @ new) \<and> step_calls s s' new"
    if "sy_cluster s' = Some cs" "hm_get (sy_actors s') = hm_get (sy_actors s)"
    using that(1) step_callsI(1) [OF named_at_cong [OF that(2)]] by auto
  have names: "names_ok s" using ok by (simp add: reg_ok_def)
  from assms(1) show ?thesis
  proof cases
    case (spawn aid path publish md)
    then show ?thesis using spawn_step_calls [OF ok _ _ c] by simp
  next
    case (stop refuses name reason)
    let ?n = "actual_name name s"
    show ?thesis
    proof (cases "fst (take_out ?n s)")
      case None
      then show ?thesis using take_out_gone [OF names None] take_out_effect(6) [OF names, of ?n] c
        by (intro quiet) (simp_all add: stop stop_shape)
    next
      case (Some h)
      then show ?thesis using stop_step_calls [OF ok Some refl c] unfolding stop stop_shape by simp
    qed
  next
    case (stop_named refuses path reason)
    from ok show ?thesis
    proof (cases rule: stop_named_shape [of s refuses path reason])
      case nothing
      then show ?thesis using c by (intro quiet) (simp_all add: stop_named)
    next
      case (stopped h)
      then show ?thesis unfolding stop_named
        using stop_step_calls [OF ok stopped(1) _ c, of "Some path"] by (simp only: option.map)
    qed
  next
    case (watch w t)
    then show ?thesis using c by (intro quiet) (simp_all add: system_watch_def lc_watch_def split: option.split)
  next
    case (unwatch w t)
    then show ?thesis using c by (intro quiet) (simp_all add: lc_unwatch_def Let_def split: option.split)
  next
    case (forget aid)
    then show ?thesis using c by (intro quiet) (simp_all add: remove_actor_def Let_def)
  qed
qed

lemma sys_reach_calls: "sys_reach True True s \<Longrightarrow> \<exists>calls. sy_cluster s = Some calls"
proof (induction rule: sys_reach.induct)
  case new
  show ?case by (simp add: system_new_def)
next
  case (step s s')
  then show ?case using sys_step_calls sys_reach_reg_ok by blast
qed

subsection \<open>The client of a backend\<close>

locale cluster_client = naming_backend run lookup self ok
  for run :: "naming_op \<Rightarrow> 's \<Rightarrow> 's" and lookup :: "actor_path \<Rightarrow> 's \<Rightarrow> named_actor_info option"
    and self :: "'s \<Rightarrow> node_id" and ok :: "'s \<Rightarrow> bool" +
  fixes call :: "cluster_call \<Rightarrow> 's \<Rightarrow> 's"
  assumes call_register: "call (CRegister p) = run (NRegister p)"
    and call_register_full: "call (CRegisterFull p aid md) = run (NRegisterFull p aid md)"
    and call_unregister: "call (CUnregister p) = run (NUnregister p)"
    and call_failed: "call (CBroadcastFailed p reason) = id \<or> call (CBroadcastFailed p reason) = run (NUnregister p)"
    and call_actor: "ok st \<Longrightarrow> c \<in> {CRegisterActor aid, CUnregisterActor aid} \<Longrightarrow>
      ok (call c st) \<and> self (call c st) = self st \<and> lookup p (call c st) = lookup p st"
begin

lemma view_run:
  "ok st \<Longrightarrow> nodes_of (lookup p (run op st)) =
     (if op_key op = path_as_str p then settle (Some (is_registration op)) (self st) (nodes_of (lookup p st))
      else nodes_of (lookup p st))"
  by (simp add: lookup_same lookup_other)

lemma publish_view:
  assumes "ok st"
  shows "ok (fold call (publish_calls aid q md) st) \<and> self (fold call (publish_calls aid q md) st) = self st \<and>
    nodes_of (lookup p (fold call (publish_calls aid q md) st)) =
      (if path_as_str q = path_as_str p then insert (self st) (nodes_of (lookup p st)) else nodes_of (lookup p st))"
  using assms
  by (simp add: publish_calls_def call_register call_register_full call_actor run_ok run_self view_run settle_def)

lemma withdraw_view:
  assumes "ok st"
  shows "ok (fold call [CBroadcastFailed q reason, CUnregister q] st) \<and>
    self (fold call [CBroadcastFailed q reason, CUnregister q] st) = self st \<and>
    nodes_of (lookup p (fold call [CBroadcastFailed q reason, CUnregister q] st)) =
      (if path_as_str q = path_as_str p then nodes_of (lookup p st) - {self st} else nodes_of (lookup p st))"
  using assms call_failed [of q reason]
  by (auto simp: call_unregister run_ok run_self view_run settle_def)

lemma step_view:
  assumes "ok st" and "step_calls s s' new"
    and "nodes_of (lookup p st) = (if named_at s (path_as_str p) then insert (self st) others else others)"
    and "self st \<notin> others"
  shows "ok (fold call new st) \<and> self (fold call new st) = self st \<and>
    nodes_of (lookup p (fold call new st)) = (if named_at s' (path_as_str p) then insert (self st) others else others)"
  using assms(2) unfolding step_calls_def
proof (elim disjE conjE exE)
  fix aid q md assume "new = publish_calls aid q md" "named_at s' = (named_at s)(path_as_str q := True)"
  then show ?thesis using publish_view [OF assms(1), of aid q md p] assms(3) by auto
next
  fix q reason assume "new = [CBroadcastFailed q reason, CUnregister q]" "named_at s' = (named_at s)(path_as_str q := False)"
  then show ?thesis using withdraw_view [OF assms(1), of q reason p] assms(3,4) by auto
qed (use assms(1,3) in \<open>simp_all add: call_actor\<close>)

lemma history_view:
  assumes "sys_reach True True s" and "ok st" and "self st \<notin> nodes_of (lookup p st)"
  shows "\<exists>calls. sy_cluster s = Some calls \<and> ok (fold call calls st) \<and> self (fold call calls st) = self st \<and>
    nodes_of (lookup p (fold call calls st)) =
      (if named_at s (path_as_str p) then insert (self st) (nodes_of (lookup p st)) else nodes_of (lookup p st))"
  using assms(1)
proof (induction rule: sys_reach.induct)
  case new
  have "\<not> named_at (system_new True) key" for key by (simp add: named_at_def system_new_def)
  with assms(2) show ?case by (simp add: system_new_def)
next
  case (step s s')
  then obtain calls where IH: "sy_cluster s = Some calls" "ok (fold call calls st)" "self (fold call calls st) = self st"
    "nodes_of (lookup p (fold call calls st)) =
      (if named_at s (path_as_str p) then insert (self st) (nodes_of (lookup p st)) else nodes_of (lookup p st))" by blast
  from sys_step_calls [OF step.hyps(2) sys_reach_reg_ok [OF step.hyps(1)] IH(1)]
  obtain new where new: "sy_cluster s' = Some (calls @ new)" "step_calls s s' new" by blast
  from step_view [OF IH(2) new(2), of p "nodes_of (lookup p st)"] IH(3,4) assms(3) new(1) show ?case by simp
qed

end


subsection \<open>The backends\<close>

fun gossip_call :: "gossip_env \<Rightarrow> gossip_config \<Rightarrow> cluster_call \<Rightarrow> cluster_state \<Rightarrow> cluster_state" where
  "gossip_call env cfg (CRegister p) st = snd (register_named_actor env cfg p st)"
| "gossip_call env cfg (CRegisterFull p aid md) st = snd (register_named_actor_full env cfg p aid md st)"
| "gossip_call env cfg (CRegisterActor aid) st = snd (Gossip.register_actor env cfg aid st)"
| "gossip_call env cfg (CBroadcastFailed p reason) st = st"
| "gossip_call env cfg (CUnregister p) st = snd (unregister_named_actor env cfg p st)"
| "gossip_call env cfg (CUnregisterActor aid) st = snd (unregister_actor env cfg aid st)"
| "gossip_call env cfg CLeave st = st"

interpretation gc: cluster_client "gossip_run env cfg" lookup_named_actor cs_local_node gossip_ok "gossip_call env cfg"
  for env cfg
  by unfold_locales
    (auto simp: fun_eq_iff gossip_run.simps Gossip.register_actor_def unregister_actor_def lookup_named_actor_def Let_def
      dest: wf.I_register_ops(1) [of _ env cfg] wf.I_register_ops(2) [of _ env cfg])

fun display_reason :: "stop_reason \<Rightarrow> string" where
  "display_reason Normal = ''Normal''"
| "display_reason (Failed e) = ''Failed: '' @ e"
| "display_reason Killed = ''Killed''"
| "display_reason SystemShutdown = ''SystemShutdown''"

fun head_call :: "head_env \<Rightarrow> nat \<Rightarrow> cluster_call \<Rightarrow> head_backend \<Rightarrow> head_backend" where
  "head_call env i (CRegister p) b = hb_register_named_actor env i p b"
| "head_call env i (CRegisterFull p aid md) b = hb_register_named_actor_full env i p aid md b"
| "head_call env i (CRegisterActor aid) b = hb_register_actor env i aid b"
| "head_call env i (CBroadcastFailed p reason) b = hb_broadcast_named_actor_failed env i p (display_reason reason) b"
| "head_call env i (CUnregister p) b = hb_unregister_named_actor env i p b"
| "head_call env i (CUnregisterActor aid) b = hb_unregister_actor env i aid b"
| "head_call env i CLeave b = hb_leave b"

lemma queue_actor_frame:
  assumes b: "backend_ok b" and h: "\<not> is_head b" and f: "\<And>m. hm_ok m \<Longrightarrow> hm_ok (f m)"
  shows "let b' = queue_and_flush env i op (\<lambda>ws. ws\<lparr>ws_actors := f (ws_actors ws)\<rparr>) b
    in backend_ok b' \<and> names_of b' = names_of b \<and> hb_local_node b' = hb_local_node b"
proof -
  let ?f = "\<lambda>ws. (add_pending_sync op ws)\<lparr>ws_actors := f (ws_actors (add_pending_sync op ws))\<rparr>"
  have "backend_ok (on_worker ?f b)"
    by (intro backend_ok_on_worker b) (auto simp: worker_ok_def add_pending_sync_def f)
  moreover have "names_of (on_worker ?f b) = names_of b"
    by (simp add: names_of_def on_worker_def add_pending_sync_def split: backend_state.split)
  ultimately show ?thesis
    using process_frame [of "on_worker ?f b" env i] by (simp add: queue_and_flush_def Let_def)
qed

lemma head_actor_frame:
  assumes b: "backend_ok b"
  shows "backend_ok (hb_register_actor env i aid b) \<and> names_of (hb_register_actor env i aid b) = names_of b \<and>
      hb_local_node (hb_register_actor env i aid b) = hb_local_node b"
    and "backend_ok (hb_unregister_actor env i aid b) \<and> names_of (hb_unregister_actor env i aid b) = names_of b \<and>
      hb_local_node (hb_unregister_actor env i aid b) = hb_local_node b"
proof -
  have head: "backend_ok (on_head f b) \<and> names_of (on_head f b) = names_of b"
    if "\<And>hs. head_ok hs \<Longrightarrow> head_ok (f hs)" "\<And>hs. hs_named (f hs) = hs_named hs" for f
    using backend_ok_on_head [OF b that(1)] that(2) by (simp add: names_of_def on_head_def split: backend_state.split)
  have "hs_named (hs_register_actor aid n hs) = hs_named hs" "hs_named (hs_unregister_actor aid hs) = hs_named hs" for n hs
    by (simp_all add: hs_register_actor_def hs_unregister_actor_def)
  note heads = head [OF head_ok_ops(6) this(1)] head [OF head_ok_ops(7) this(2)]
  show "backend_ok (hb_register_actor env i aid b) \<and> names_of (hb_register_actor env i aid b) = names_of b \<and>
      hb_local_node (hb_register_actor env i aid b) = hb_local_node b"
    using heads queue_actor_frame [OF b, of "hm_insert aid (hb_local_node b)" env i "Register aid"]
    by (simp add: hb_register_actor_def Let_def)
  show "backend_ok (hb_unregister_actor env i aid b) \<and> names_of (hb_unregister_actor env i aid b) = names_of b \<and>
      hb_local_node (hb_unregister_actor env i aid b) = hb_local_node b"
    using heads queue_actor_frame [OF b, of "hm_remove aid" env i "Unregister aid"]
    by (simp add: hb_unregister_actor_def Let_def)
qed

interpretation hc: cluster_client "head_run env i" hb_lookup_named_actor hb_local_node backend_ok "head_call env i"
  for env i
  by unfold_locales
    (auto simp: fun_eq_iff head_actor_frame lookup_names hb_broadcast_named_actor_failed_def)



text \<open>
  A named actor without metadata is published under its path and its identifier, but its stop
  withdraws only the path: the identifier still leads to the node.
\<close>

theorem identifier_outlives_actor:
  assumes "lookup_named_actor p st = None"
  shows "hm_get (cs_actors (fold (gossip_call env cfg)
    (publish_calls aid p [] @ [CBroadcastFailed p reason, CUnregister p]) st)) aid = Some (cs_local_node st)"
  using assms
  by (simp add: publish_calls_def register_named_actor_def Gossip.register_actor_def unregister_named_actor_def
      lookup_named_actor_def register_named_def info_with_instance_def hm_simps Let_def)

end
