(* ===== verification/PatchParse.thy ===== *)
theory PatchParse
  imports RustStr
begin

text \<open>
  The patch format of the coding agent: \<^verbatim>\<open>pulsing-forge/src/patch/parser.rs\<close> and
  \<^verbatim>\<open>streaming_parser.rs\<close>. A text is a list of Unicode code points, because the code trims
  and compares by them; \<open>lit\<close> embeds the ASCII literals of the source. Every method that can
  fail returns an error or the new state of the parser; after an error the callers drop the
  parser. Line numbers are unbounded.
\<close>

subsection \<open>Texts\<close>

type_synonym ustring = "nat list"

definition lit :: "string \<Rightarrow> ustring" where
  "lit s = map of_char s"

definition is_white :: "nat \<Rightarrow> bool" where
  \<comment> \<open>Unicode's White_Space\<close>
  "is_white c \<longleftrightarrow>
     (9 \<le> c \<and> c \<le> 13) \<or> c = 32 \<or> c = 133 \<or> c = 160 \<or> c = 5760 \<or> (8192 \<le> c \<and> c \<le> 8202) \<or>
     c = 8232 \<or> c = 8233 \<or> c = 8239 \<or> c = 8287 \<or> c = 12288"

definition utrim :: "ustring \<Rightarrow> ustring" where
  "utrim = trim_matches is_white"

definition utrim_end :: "ustring \<Rightarrow> ustring" where
  "utrim_end s = rev (dropWhile is_white (rev s))"

abbreviation newline :: nat where "newline \<equiv> 10"

definition strip_cr :: "ustring \<Rightarrow> ustring" where
  "strip_cr s = (if s \<noteq> [] \<and> last s = 13 then butlast s else s)"

definition starts_with :: "'a list \<Rightarrow> 'a list \<Rightarrow> bool" where
  "starts_with s p = (strip_prefix p s \<noteq> None)"

definition ends_with :: "'a list \<Rightarrow> 'a list \<Rightarrow> bool" where
  "ends_with s p = starts_with (rev s) (rev p)"

definition str_lines :: "ustring \<Rightarrow> ustring list" where
  \<comment> \<open>\<^verbatim>\<open>str::lines\<close>: a carriage return belongs to the line end only before a newline\<close>
  "str_lines s =
     (let parts = split_on newline s
      in map strip_cr (butlast parts) @ (if last parts = [] then [] else [last parts]))"

subsection \<open>Hunks\<close>

definition BEGIN_PATCH_MARKER :: ustring where "BEGIN_PATCH_MARKER = lit ''*** Begin Patch''"
definition END_PATCH_MARKER :: ustring where "END_PATCH_MARKER = lit ''*** End Patch''"
definition ADD_FILE_MARKER :: ustring where "ADD_FILE_MARKER = lit ''*** Add File: ''"
definition DELETE_FILE_MARKER :: ustring where "DELETE_FILE_MARKER = lit ''*** Delete File: ''"
definition UPDATE_FILE_MARKER :: ustring where "UPDATE_FILE_MARKER = lit ''*** Update File: ''"
definition MOVE_TO_MARKER :: ustring where "MOVE_TO_MARKER = lit ''*** Move to: ''"
definition EOF_MARKER :: ustring where "EOF_MARKER = lit ''*** End of File''"
definition CHANGE_CONTEXT_MARKER :: ustring where "CHANGE_CONTEXT_MARKER = lit ''@@ ''"
definition EMPTY_CHANGE_CONTEXT_MARKER :: ustring where "EMPTY_CHANGE_CONTEXT_MARKER = lit ''@@''"
definition ENVIRONMENT_ID_MARKER :: ustring where "ENVIRONMENT_ID_MARKER = lit ''*** Environment ID:''"

lemmas patch_markers =
  BEGIN_PATCH_MARKER_def END_PATCH_MARKER_def ADD_FILE_MARKER_def DELETE_FILE_MARKER_def
  UPDATE_FILE_MARKER_def MOVE_TO_MARKER_def EOF_MARKER_def CHANGE_CONTEXT_MARKER_def
  EMPTY_CHANGE_CONTEXT_MARKER_def ENVIRONMENT_ID_MARKER_def

datatype parse_error =
    InvalidPatchError ustring
  | InvalidHunkError ustring nat  \<comment> \<open>message, line number\<close>

record update_file_chunk =
  change_context :: "ustring option"
  old_lines :: "ustring list"
  new_lines :: "ustring list"
  is_end_of_file :: bool

datatype hunk =
    AddFile ustring ustring  \<comment> \<open>path, contents\<close>
  | DeleteFile ustring
  | UpdateFile ustring "ustring option" "update_file_chunk list"  \<comment> \<open>path, move path, chunks\<close>

fun hunk_path :: "hunk \<Rightarrow> ustring" where
  "hunk_path (AddFile path _) = path"
| "hunk_path (DeleteFile path) = path"
| "hunk_path (UpdateFile _ (Some path) _) = path"
| "hunk_path (UpdateFile path None _) = path"

subsection \<open>The streaming parser\<close>

datatype parser_mode =
    NotStarted
  | StartedPatch
  | InAddFile
  | InDeleteFile
  | InUpdateFile nat  \<comment> \<open>the line of the header\<close>
  | EndedPatch

record patch_parser =
  pp_line_buffer :: ustring
  pp_mode :: parser_mode
  pp_hunks :: "hunk list"
  pp_environment_id :: "ustring option"
  pp_line_number :: nat

definition parser_default :: patch_parser where
  "parser_default =
     \<lparr>pp_line_buffer = [], pp_mode = NotStarted, pp_hunks = [], pp_environment_id = None, pp_line_number = 0\<rparr>"

definition new_chunk :: "ustring option \<Rightarrow> update_file_chunk" where
  "new_chunk ctx = \<lparr>change_context = ctx, old_lines = [], new_lines = [], is_end_of_file = False\<rparr>"

definition chunk_empty :: "update_file_chunk \<Rightarrow> bool" where
  "chunk_empty c \<longleftrightarrow> old_lines c = [] \<and> new_lines c = []"

definition on_last :: "('a \<Rightarrow> 'a) \<Rightarrow> 'a list \<Rightarrow> 'a list" where
  "on_last f xs = (if xs = [] then [] else butlast xs @ [f (last xs)])"

definition on_chunk :: "(update_file_chunk \<Rightarrow> update_file_chunk) \<Rightarrow> update_file_chunk list \<Rightarrow> update_file_chunk list" where
  \<comment> \<open>the last chunk, or a first one without context\<close>
  "on_chunk f chunks = (if chunks = [] then [f (new_chunk None)] else on_last f chunks)"

definition unexpected_line :: "ustring \<Rightarrow> ustring" where
  "unexpected_line line =
     lit ''Unexpected line found in update hunk: '' @ [39] @ line @ [39] @ lit ''. Every line should start with '' @
     [39] @ lit '' '' @ [39] @ lit '' (context line), '' @ [39] @ lit ''+'' @ [39] @ lit '' (added line), or '' @
     [39] @ lit ''-'' @ [39] @ lit '' (removed line)''"

definition bad_header :: "ustring \<Rightarrow> ustring" where
  "bad_header trimmed =
     [39] @ trimmed @ [39] @ lit '' is not a valid hunk header. Valid hunk headers: '' @
     [39] @ lit ''*** Add File: {path}'' @ [39] @ lit '', '' @ [39] @ lit ''*** Delete File: {path}'' @ [39] @
     lit '', '' @ [39] @ lit ''*** Update File: {path}'' @ [39]"

definition expected_context :: "ustring \<Rightarrow> ustring" where
  "expected_context line =
     lit ''Expected update hunk to start with a @@ context marker, got: '' @ [39] @ line @ [39]"

definition first_line_error :: parse_error where
  "first_line_error =
     InvalidPatchError (lit ''The first line of the patch must be '' @ [39] @ BEGIN_PATCH_MARKER @ [39])"

definition last_line_error :: parse_error where
  "last_line_error =
     InvalidPatchError (lit ''The last line of the patch must be '' @ [39] @ END_PATCH_MARKER @ [39])"

definition ensure_update_hunk_is_not_empty :: "ustring \<Rightarrow> patch_parser \<Rightarrow> parse_error option" where
  "ensure_update_hunk_is_not_empty line p =
     (if pp_hunks p = [] then None
      else case last (pp_hunks p) of
        UpdateFile path _ chunks \<Rightarrow>
          (case (chunks, pp_mode p) of
             ([], InUpdateFile n) \<Rightarrow>
               Some (InvalidHunkError (lit ''Update file hunk for path '' @ [39] @ path @ [39] @ lit '' is empty'') n)
           | _ \<Rightarrow>
               if chunks \<noteq> [] \<and> chunk_empty (last chunks) then
                 (if line = END_PATCH_MARKER
                  then Some (InvalidHunkError (lit ''Update hunk does not contain any lines'') (pp_line_number p))
                  else Some (InvalidHunkError (unexpected_line line) (pp_line_number p)))
               else None)
      | _ \<Rightarrow> None)"

definition open_hunk :: "ustring \<Rightarrow> hunk \<Rightarrow> parser_mode \<Rightarrow> patch_parser \<Rightarrow> parse_error + patch_parser" where
  "open_hunk trimmed h mode p =
     (case ensure_update_hunk_is_not_empty trimmed p of
        Some e \<Rightarrow> Inl e
      | None \<Rightarrow> Inr (p\<lparr>pp_hunks := pp_hunks p @ [h], pp_mode := mode\<rparr>))"

definition set_environment_id :: "ustring \<Rightarrow> patch_parser \<Rightarrow> parse_error + patch_parser" where
  "set_environment_id environment_id p =
     (if pp_environment_id p \<noteq> None
      then Inl (InvalidPatchError (lit ''apply_patch environment_id cannot be specified more than once''))
      else if utrim environment_id = []
      then Inl (InvalidPatchError (lit ''apply_patch environment_id cannot be empty''))
      else Inr (p\<lparr>pp_environment_id := Some (utrim environment_id)\<rparr>))"

definition handle_hunk_headers_and_end_patch :: "ustring \<Rightarrow> patch_parser \<Rightarrow> (parse_error + patch_parser) option" where
  \<comment> \<open>\<open>None\<close>: the line is none of these\<close>
  "handle_hunk_headers_and_end_patch trimmed p =
     (case (if pp_mode p = StartedPatch then strip_prefix ENVIRONMENT_ID_MARKER trimmed else None) of
        Some environment_id \<Rightarrow> Some (set_environment_id environment_id p)
      | None \<Rightarrow>
          if trimmed = END_PATCH_MARKER then
            Some (case ensure_update_hunk_is_not_empty trimmed p of
                    Some e \<Rightarrow> Inl e
                  | None \<Rightarrow> Inr (p\<lparr>pp_mode := EndedPatch\<rparr>))
          else case strip_prefix ADD_FILE_MARKER trimmed of
            Some path \<Rightarrow> Some (open_hunk trimmed (AddFile path []) InAddFile p)
          | None \<Rightarrow>
              (case strip_prefix DELETE_FILE_MARKER trimmed of
                 Some path \<Rightarrow> Some (open_hunk trimmed (DeleteFile path) InDeleteFile p)
               | None \<Rightarrow>
                   (case strip_prefix UPDATE_FILE_MARKER trimmed of
                      Some path \<Rightarrow>
                        Some (open_hunk trimmed (UpdateFile path None []) (InUpdateFile (pp_line_number p)) p)
                    | None \<Rightarrow> None)))"

definition is_context_marker :: "ustring \<Rightarrow> bool" where
  "is_context_marker s \<longleftrightarrow> s = EMPTY_CHANGE_CONTEXT_MARKER \<or> starts_with s CHANGE_CONTEXT_MARKER"

definition push_context :: "ustring \<Rightarrow> update_file_chunk \<Rightarrow> update_file_chunk" where
  "push_context s c = c\<lparr>old_lines := old_lines c @ [s], new_lines := new_lines c @ [s]\<rparr>"

definition push_new :: "ustring \<Rightarrow> update_file_chunk \<Rightarrow> update_file_chunk" where
  "push_new s c = c\<lparr>new_lines := new_lines c @ [s]\<rparr>"

definition push_old :: "ustring \<Rightarrow> update_file_chunk \<Rightarrow> update_file_chunk" where
  "push_old s c = c\<lparr>old_lines := old_lines c @ [s]\<rparr>"

definition update_line_chunks ::
  "nat \<Rightarrow> ustring \<Rightarrow> update_file_chunk list \<Rightarrow> parse_error + update_file_chunk list" where
  \<comment> \<open>a line of an update hunk that is neither a header nor the move path\<close>
  "update_line_chunks n line chunks =
     (let upd = utrim_end line;
          last_empty = (chunks \<noteq> [] \<and> chunk_empty (last chunks))
      in if is_context_marker upd \<and> last_empty then Inl (InvalidHunkError (unexpected_line line) n)
         else if upd = EMPTY_CHANGE_CONTEXT_MARKER then Inr (chunks @ [new_chunk None])
         else case strip_prefix CHANGE_CONTEXT_MARKER upd of
           Some ctx \<Rightarrow> Inr (chunks @ [new_chunk (Some ctx)])
         | None \<Rightarrow>
             if upd = EOF_MARKER then
               (if last_empty then Inl (InvalidHunkError (lit ''Update hunk does not contain any lines'') n)
                else Inr (on_last (\<lambda>c. c\<lparr>is_end_of_file := True\<rparr>) chunks))
             else case line of
               [] \<Rightarrow> Inr (on_chunk (push_context []) chunks)
             | c # s \<Rightarrow>
                 if c = 32 then Inr (on_chunk (push_context s) chunks)
                 else if c = 43 then Inr (on_chunk (push_new s) chunks)
                 else if c = 45 then Inr (on_chunk (push_old s) chunks)
                 else if chunks \<noteq> [] \<and> \<not> last_empty then Inl (InvalidHunkError (expected_context line) n)
                 else Inl (InvalidHunkError (unexpected_line line) n))"

definition update_hunk_line ::
  "nat \<Rightarrow> ustring \<Rightarrow> hunk \<Rightarrow> parse_error + hunk" where
  "update_hunk_line n line h =
     (case h of
        UpdateFile path move_path chunks \<Rightarrow>
          (let upd = utrim_end line;
               ended = (chunks \<noteq> [] \<and> is_end_of_file (last chunks))
           in if ended \<and> upd = [] then Inr h
              else if ended \<and> \<not> is_context_marker upd then Inl (InvalidHunkError (expected_context line) n)
              else case (if chunks = [] \<and> move_path = None then strip_prefix MOVE_TO_MARKER upd else None) of
                Some dest \<Rightarrow> Inr (UpdateFile path (Some dest) chunks)
              | None \<Rightarrow>
                  (case update_line_chunks n line chunks of
                     Inl e \<Rightarrow> Inl e
                   | Inr chunks' \<Rightarrow> Inr (UpdateFile path move_path chunks')))
      | _ \<Rightarrow> Inl (InvalidHunkError (unexpected_line line) n))"

definition process_line :: "ustring \<Rightarrow> patch_parser \<Rightarrow> parse_error + patch_parser" where
  "process_line line p =
     (let trimmed = utrim line;
          bad = Inl (InvalidHunkError (bad_header trimmed) (pp_line_number p))
      in case pp_mode p of
           NotStarted \<Rightarrow>
             if trimmed = BEGIN_PATCH_MARKER then Inr (p\<lparr>pp_mode := StartedPatch\<rparr>)
             else Inl first_line_error
         | StartedPatch \<Rightarrow>
             (case handle_hunk_headers_and_end_patch trimmed p of Some r \<Rightarrow> r | None \<Rightarrow> bad)
         | InAddFile \<Rightarrow>
             (case handle_hunk_headers_and_end_patch trimmed p of
                Some r \<Rightarrow> r
              | None \<Rightarrow>
                  if pp_hunks p = [] then bad
                  else (case (strip_prefix [43] line, last (pp_hunks p)) of
                          (Some s, AddFile path contents) \<Rightarrow>
                            Inr (p\<lparr>pp_hunks := butlast (pp_hunks p) @ [AddFile path (contents @ s @ [newline])]\<rparr>)
                        | _ \<Rightarrow> bad))
         | InDeleteFile \<Rightarrow>
             (case handle_hunk_headers_and_end_patch trimmed p of Some r \<Rightarrow> r | None \<Rightarrow> bad)
         | InUpdateFile _ \<Rightarrow>
             (case handle_hunk_headers_and_end_patch (utrim_end line) p of
                Some r \<Rightarrow> r
              | None \<Rightarrow>
                  if pp_hunks p = [] then Inl (InvalidHunkError (unexpected_line line) (pp_line_number p))
                  else (case update_hunk_line (pp_line_number p) line (last (pp_hunks p)) of
                          Inl e \<Rightarrow> Inl e
                        | Inr h \<Rightarrow> Inr (p\<lparr>pp_hunks := butlast (pp_hunks p) @ [h]\<rparr>)))
         | EndedPatch \<Rightarrow>
             if trimmed = [] then Inr p
             else Inl last_line_error)"

definition end_line :: "patch_parser \<Rightarrow> parse_error + patch_parser" where
  \<comment> \<open>the buffer is a complete line\<close>
  "end_line p =
     process_line (strip_cr (pp_line_buffer p)) (p\<lparr>pp_line_buffer := [], pp_line_number := Suc (pp_line_number p)\<rparr>)"

fun push_delta :: "ustring \<Rightarrow> patch_parser \<Rightarrow> parse_error + patch_parser" where
  \<comment> \<open>the returned list is that of the parser's hunks\<close>
  "push_delta [] p = Inr p"
| "push_delta (c # cs) p =
     (if c = newline then (case end_line p of Inl e \<Rightarrow> Inl e | Inr p' \<Rightarrow> push_delta cs p')
      else push_delta cs (p\<lparr>pp_line_buffer := pp_line_buffer p @ [c]\<rparr>))"

definition finish_line :: "patch_parser \<Rightarrow> parse_error + patch_parser" where
  "finish_line p =
     (if pp_line_buffer p = [] then Inr p
      else
        let line = pp_line_buffer p;
            p1 = p\<lparr>pp_line_buffer := [], pp_line_number := Suc (pp_line_number p)\<rparr>
        in if utrim line = END_PATCH_MARKER then
             (case ensure_update_hunk_is_not_empty (utrim line) p1 of
                Some e \<Rightarrow> Inl e
              | None \<Rightarrow> Inr (p1\<lparr>pp_mode := EndedPatch\<rparr>))
           else process_line line p1)"

definition finish :: "patch_parser \<Rightarrow> parse_error + patch_parser" where
  "finish p =
     (case finish_line p of
        Inl e \<Rightarrow> Inl e
      | Inr p' \<Rightarrow> if pp_mode p' = EndedPatch then Inr p' else Inl last_line_error)"

subsection \<open>Whole patches\<close>

record apply_patch_args =
  ap_hunks :: "hunk list"
  ap_patch :: ustring
  ap_workdir :: "ustring option"
  ap_environment_id :: "ustring option"

definition check_start_and_end_lines_strict :: "ustring option \<Rightarrow> ustring option \<Rightarrow> parse_error option" where
  "check_start_and_end_lines_strict first_line last_line =
     (case (map_option utrim first_line, map_option utrim last_line) of
        (Some first, Some final) \<Rightarrow>
          if first = BEGIN_PATCH_MARKER \<and> final = END_PATCH_MARKER then None
          else if first \<noteq> BEGIN_PATCH_MARKER then Some first_line_error
          else Some last_line_error
      | (Some first, None) \<Rightarrow>
          if first \<noteq> BEGIN_PATCH_MARKER then Some first_line_error else Some last_line_error
      | (None, _) \<Rightarrow> Some last_line_error)"

definition check_patch_boundaries_strict :: "ustring list \<Rightarrow> parse_error option" where
  "check_patch_boundaries_strict ls =
     (if ls = [] then check_start_and_end_lines_strict None None
      else check_start_and_end_lines_strict (Some (hd ls)) (Some (last ls)))"

definition check_patch_boundaries_lenient :: "ustring list \<Rightarrow> parse_error + ustring list" where
  "check_patch_boundaries_lenient ls =
     (case check_patch_boundaries_strict ls of
        None \<Rightarrow> Inr ls
      | Some e \<Rightarrow>
          if 2 \<le> length ls \<and>
             hd ls \<in> {lit ''<<EOF'', lit ''<<'' @ [39] @ lit ''EOF'' @ [39], lit ''<<'' @ [34] @ lit ''EOF'' @ [34]} \<and>
             ends_with (last ls) (lit ''EOF'') \<and> 4 \<le> length ls
          then (let inner = butlast (tl ls)
                in case check_patch_boundaries_strict inner of None \<Rightarrow> Inr inner | Some e' \<Rightarrow> Inl e')
          else Inl e)"

definition parse_patch :: "ustring \<Rightarrow> parse_error + apply_patch_args" where
  \<comment> \<open>in the lenient mode, the one in use\<close>
  "parse_patch patch =
     (case check_patch_boundaries_lenient (str_lines (utrim patch)) of
        Inl e \<Rightarrow> Inl e
      | Inr ls \<Rightarrow>
          (let text = join_with newline ls
           in case push_delta text parser_default of
               Inl e \<Rightarrow> Inl e
             | Inr p \<Rightarrow>
                 (case finish p of
                    Inl e \<Rightarrow> Inl e
                  | Inr p' \<Rightarrow>
                      Inr \<lparr>ap_hunks = pp_hunks p', ap_patch = text, ap_workdir = None,
                           ap_environment_id = pp_environment_id p'\<rparr>)))"

end
