(* ===== verification/PatchApply.thy ===== *)
theory PatchApply
  imports PatchParse Prelude
begin

text \<open>
  Applying a patch (\<^verbatim>\<open>pulsing-forge/src/patch/apply.rs\<close>, \<^verbatim>\<open>seek_sequence.rs\<close>, \<^verbatim>\<open>mod.rs\<close> and the
  checks of \<^verbatim>\<open>invocation.rs\<close>). A path is the list of its components; the file system maps
  paths to entries. Resolving symbolic links is an argument (\<open>canon\<close>), asked in the state
  of the file system at that moment; the operations themselves act on the path they are given.
  The text of an operating-system error is its kind. An error keeps what the earlier hunks have
  done, so the operations return the file system beside the result.
\<close>

subsection \<open>Finding lines\<close>

definition normalise_char :: "nat \<Rightarrow> nat" where
  "normalise_char c =
     (if (8208 \<le> c \<and> c \<le> 8213) \<or> c = 8722 then 45
      else if 8216 \<le> c \<and> c \<le> 8219 then 39
      else if 8220 \<le> c \<and> c \<le> 8223 then 34
      else if c = 160 \<or> (8194 \<le> c \<and> c \<le> 8202) \<or> c = 8239 \<or> c = 8287 \<or> c = 12288 then 32
      else c)"

definition normalise :: "ustring \<Rightarrow> ustring" where
  "normalise s = map normalise_char (utrim s)"

definition matches_at :: "(ustring \<Rightarrow> ustring) \<Rightarrow> ustring list \<Rightarrow> ustring list \<Rightarrow> nat \<Rightarrow> bool" where
  "matches_at f ls pattern i = (map f (take (length pattern) (drop i ls)) = map f pattern)"

definition seek_pass :: "(ustring \<Rightarrow> ustring) \<Rightarrow> ustring list \<Rightarrow> ustring list \<Rightarrow> nat \<Rightarrow> nat option" where
  "seek_pass f ls pattern search_start =
     find (matches_at f ls pattern) [search_start..<Suc (length ls - length pattern)]"

definition seek_sequence :: "ustring list \<Rightarrow> ustring list \<Rightarrow> nat \<Rightarrow> bool \<Rightarrow> nat option" where
  "seek_sequence ls pattern start eof =
     (if pattern = [] then Some start
      else if length ls < length pattern then None
      else
        let search_start = (if eof \<and> length pattern \<le> length ls then length ls - length pattern else start)
        in case seek_pass id ls pattern search_start of
             Some i \<Rightarrow> Some i
           | None \<Rightarrow>
               (case seek_pass utrim_end ls pattern search_start of
                  Some i \<Rightarrow> Some i
                | None \<Rightarrow>
                    (case seek_pass utrim ls pattern search_start of
                       Some i \<Rightarrow> Some i
                     | None \<Rightarrow> seek_pass normalise ls pattern search_start)))"

subsection \<open>Paths\<close>

datatype component = RootDir | CurDir | ParentDir | Normal ustring

type_synonym path = "component list"

definition segment :: "ustring \<Rightarrow> component" where
  "segment s = (if s = lit ''..'' then ParentDir else Normal s)"

definition components :: "ustring \<Rightarrow> path" where
  \<comment> \<open>\<^verbatim>\<open>Path::components\<close>: repeated slashes and inner dots vanish\<close>
  "components s =
     (let parts = split_on 47 s;
          body = map segment (filter (\<lambda>x. x \<noteq> [] \<and> x \<noteq> lit ''.'') parts)
      in if starts_with s [47] then RootDir # body
         else if hd parts = lit ''.'' then CurDir # body
         else body)"

fun display_component :: "component \<Rightarrow> ustring" where
  "display_component RootDir = []"
| "display_component CurDir = lit ''.''"
| "display_component ParentDir = lit ''..''"
| "display_component (Normal s) = s"

definition display_path :: "path \<Rightarrow> ustring" where
  "display_path p = (if p = [RootDir] then [47] else join_with 47 (map display_component p))"

definition is_absolute :: "path \<Rightarrow> bool" where
  "is_absolute p \<longleftrightarrow> p \<noteq> [] \<and> hd p = RootDir"

fun is_normal :: "component \<Rightarrow> bool" where
  "is_normal (Normal _) = True"
| "is_normal _ = False"

definition norm_step :: "component \<Rightarrow> path \<Rightarrow> path" where
  "norm_step c out =
     (case c of
        CurDir \<Rightarrow> out
      | ParentDir \<Rightarrow> if out \<noteq> [] \<and> is_normal (last out) then butlast out else out @ [c]
      | _ \<Rightarrow> out @ [c])"

definition normalize_lexically :: "path \<Rightarrow> path" where
  "normalize_lexically p = fold norm_step p []"

definition outside_error :: "path \<Rightarrow> path \<Rightarrow> ustring" where
  "outside_error target root =
     lit ''refusing to apply patch outside working directory: '' @ display_path target @ lit '' (cwd: '' @
     display_path root @ lit '')''"

datatype io_error = NotFound | NotADirectory | IsADirectory | InvalidData

definition io_text :: "io_error \<Rightarrow> ustring" where
  "io_text e =
     (case e of
        NotFound \<Rightarrow> lit ''No such file or directory (os error 2)''
      | NotADirectory \<Rightarrow> lit ''Not a directory (os error 20)''
      | IsADirectory \<Rightarrow> lit ''Is a directory (os error 21)''
      | InvalidData \<Rightarrow> lit ''stream did not contain valid UTF-8'')"

function probe_symlinks :: "(path \<Rightarrow> io_error + path) \<Rightarrow> path \<Rightarrow> path \<Rightarrow> path \<Rightarrow> path \<Rightarrow> ustring option" where
  \<comment> \<open>the loop of \<^verbatim>\<open>reject_symlink_escape\<close>: an error, if any\<close>
  "probe_symlinks canon target root root_canon probe =
     (case canon probe of
        Inr canonical \<Rightarrow> if starts_with canonical root_canon then None else Some (outside_error target root)
      | Inl _ \<Rightarrow>
          if probe \<noteq> [] \<and> last probe \<noteq> RootDir then probe_symlinks canon target root root_canon (butlast probe)
          else None)"
  by pat_completeness auto
termination by (relation "measure (\<lambda>(_, _, _, _, probe). length probe)") auto

declare probe_symlinks.simps [simp del]

definition reject_symlink_escape :: "(path \<Rightarrow> io_error + path) \<Rightarrow> path \<Rightarrow> path \<Rightarrow> ustring option" where
  "reject_symlink_escape canon target root =
     (case canon root of
        Inl e \<Rightarrow> Some (io_text e)
      | Inr root_canon \<Rightarrow> probe_symlinks canon target root root_canon target)"

definition resolve_patch_path :: "(path \<Rightarrow> io_error + path) \<Rightarrow> path \<Rightarrow> path \<Rightarrow> path \<Rightarrow> ustring + path" where
  "resolve_patch_path canon p base root =
     (let joined = (if is_absolute p then p else base @ p);
          target = normalize_lexically joined;
          boundary = normalize_lexically root
      in if \<not> starts_with target boundary then Inl (outside_error target boundary)
         else case reject_symlink_escape canon target boundary of
           Some e \<Rightarrow> Inl e
         | None \<Rightarrow> Inr target)"

subsection \<open>The file system\<close>

datatype entry = TextFile ustring | OtherFile | Directory

type_synonym file_system = "(path, entry) hash_map"

definition is_dir :: "file_system \<Rightarrow> path \<Rightarrow> bool" where
  "is_dir fs p \<longleftrightarrow> p = [RootDir] \<or> hm_get fs p = Some Directory"

definition is_file :: "file_system \<Rightarrow> path \<Rightarrow> bool" where
  "is_file fs p \<longleftrightarrow> (\<exists>e. hm_get fs p = Some e \<and> e \<noteq> Directory)"

definition read_to_string :: "file_system \<Rightarrow> path \<Rightarrow> io_error + ustring" where
  "read_to_string fs p =
     (case hm_get fs p of
        Some (TextFile s) \<Rightarrow> Inr s
      | Some OtherFile \<Rightarrow> Inl InvalidData
      | Some Directory \<Rightarrow> Inl IsADirectory
      | None \<Rightarrow> Inl (if is_dir fs p then IsADirectory else NotFound))"

definition fs_write :: "path \<Rightarrow> ustring \<Rightarrow> file_system \<Rightarrow> io_error + file_system" where
  "fs_write p contents fs =
     (if is_dir fs p then Inl IsADirectory
      else if p = [] \<or> \<not> is_dir fs (butlast p) then Inl NotFound
      else Inr (hm_insert p (TextFile contents) fs))"

definition remove_file :: "path \<Rightarrow> file_system \<Rightarrow> io_error + file_system" where
  "remove_file p fs =
     (if is_dir fs p then Inl IsADirectory
      else if hm_get fs p = None then Inl NotFound
      else Inr (hm_remove p fs))"

fun make_dirs :: "path list \<Rightarrow> file_system \<Rightarrow> io_error + file_system" where
  "make_dirs [] fs = Inr fs"
| "make_dirs (p # ps) fs =
     (if is_dir fs p then make_dirs ps fs
      else if hm_get fs p = None then make_dirs ps (hm_insert p Directory fs)
      else Inl NotADirectory)"

definition create_dir_all :: "path \<Rightarrow> file_system \<Rightarrow> io_error + file_system" where
  "create_dir_all p = make_dirs (map (\<lambda>n. take n p) [1..<Suc (length p)])"

definition write_creating :: "path \<Rightarrow> ustring \<Rightarrow> file_system \<Rightarrow> (io_error option) \<times> file_system" where
  \<comment> \<open>the parent directory is created first, and stays if the write fails\<close>
  "write_creating p contents fs =
     (case (if p \<noteq> [] \<and> p \<noteq> [RootDir] then create_dir_all (butlast p) fs else Inr fs) of
        Inl e \<Rightarrow> (Some e, fs)
      | Inr fs1 \<Rightarrow>
          (case fs_write p contents fs1 of Inl e \<Rightarrow> (Some e, fs1) | Inr fs2 \<Rightarrow> (None, fs2)))"

subsection \<open>Applying hunks\<close>

datatype apply_patch_error = ParseFailed parse_error | IoFailed ustring | ApplyFailed ustring

type_synonym replacement = "nat \<times> nat \<times> ustring list"

fun locate_chunks ::
  "ustring list \<Rightarrow> path \<Rightarrow> nat \<Rightarrow> update_file_chunk list \<Rightarrow> apply_patch_error + replacement list" where
  \<comment> \<open>the loop of \<^verbatim>\<open>compute_replacements\<close> from a line index on\<close>
  "locate_chunks ls p line_index [] = Inr []"
| "locate_chunks ls p line_index (c # cs) =
     (case (case change_context c of
              None \<Rightarrow> Some line_index
            | Some ctx \<Rightarrow> map_option Suc (seek_sequence ls [ctx] line_index False)) of
        None \<Rightarrow> Inl (ApplyFailed (lit ''Failed to find context '' @ [39] @ the (change_context c) @ [39] @
                  lit '' in '' @ display_path p))
      | Some i \<Rightarrow>
          if old_lines c = [] then
            (let at = (if ls \<noteq> [] \<and> last ls = [] then length ls - 1 else length ls)
             in case locate_chunks ls p i cs of Inl e \<Rightarrow> Inl e | Inr rs \<Rightarrow> Inr ((at, 0, new_lines c) # rs))
          else
            (let found = seek_sequence ls (old_lines c) i (is_end_of_file c);
                 retry = (found = None \<and> last (old_lines c) = []);
                 pattern = (if retry then butlast (old_lines c) else old_lines c);
                 new = (if retry \<and> new_lines c \<noteq> [] \<and> last (new_lines c) = [] then butlast (new_lines c) else new_lines c)
             in case (if retry then seek_sequence ls pattern i (is_end_of_file c) else found) of
                  None \<Rightarrow> Inl (ApplyFailed (lit ''Failed to find expected lines in '' @ display_path p @ lit '':'' @
                            [newline] @ join_with newline (old_lines c)))
                | Some start \<Rightarrow>
                    (case locate_chunks ls p (start + length pattern) cs of
                       Inl e \<Rightarrow> Inl e
                     | Inr rs \<Rightarrow> Inr ((start, length pattern, new) # rs))))"

definition compute_replacements ::
  "ustring list \<Rightarrow> path \<Rightarrow> update_file_chunk list \<Rightarrow> apply_patch_error + replacement list" where
  "compute_replacements ls p chunks =
     (case locate_chunks ls p 0 chunks of Inl e \<Rightarrow> Inl e | Inr rs \<Rightarrow> Inr (sort_key fst rs))"

definition vec_remove :: "nat \<Rightarrow> 'a list \<Rightarrow> 'a list" where
  "vec_remove i xs = (if i < length xs then take i xs @ drop (Suc i) xs else xs)"

definition vec_insert :: "nat \<Rightarrow> 'a \<Rightarrow> 'a list \<Rightarrow> 'a list option" where
  \<comment> \<open>\<open>None\<close>: the panic of an insertion beyond the end\<close>
  "vec_insert i x xs = (if i \<le> length xs then Some (take i xs @ x # drop i xs) else None)"

fun insert_all :: "nat \<Rightarrow> 'a list \<Rightarrow> 'a list \<Rightarrow> 'a list option" where
  "insert_all i [] xs = Some xs"
| "insert_all i (n # ns) xs = Option.bind (vec_insert i n xs) (insert_all (Suc i) ns)"

fun apply_backwards :: "replacement list \<Rightarrow> ustring list \<Rightarrow> ustring list option" where
  "apply_backwards [] ls = Some ls"
| "apply_backwards ((start, old_len, new) # rs) ls =
     Option.bind (insert_all start new ((vec_remove start ^^ old_len) ls)) (apply_backwards rs)"

definition apply_replacements :: "ustring list \<Rightarrow> replacement list \<Rightarrow> ustring list option" where
  "apply_replacements ls rs = apply_backwards (rev rs) ls"

definition file_lines :: "ustring \<Rightarrow> ustring list" where
  "file_lines s = (let ls = split_on newline s in if last ls = [] then butlast ls else ls)"

definition end_with_newline :: "ustring list \<Rightarrow> ustring list" where
  "end_with_newline ls = (if ls \<noteq> [] \<and> last ls = [] then ls else ls @ [[]])"

definition derive_new_contents ::
  "file_system \<Rightarrow> path \<Rightarrow> update_file_chunk list \<Rightarrow> (apply_patch_error + ustring) option" where
  \<comment> \<open>\<open>None\<close>: a panic\<close>
  "derive_new_contents fs p chunks =
     (case read_to_string fs p of
        Inl e \<Rightarrow> Some (Inl (IoFailed (lit ''Failed to read '' @ display_path p @ lit '': '' @ io_text e)))
      | Inr contents \<Rightarrow>
          (case compute_replacements (file_lines contents) p chunks of
             Inl e \<Rightarrow> Some (Inl e)
           | Inr rs \<Rightarrow>
               map_option (\<lambda>ls. Inr (join_with newline (end_with_newline ls)))
                 (apply_replacements (file_lines contents) rs)))"

record apply_state =
  as_fs :: file_system
  as_added :: "path list"
  as_modified :: "path list"
  as_deleted :: "path list"

datatype stopped = Refused apply_patch_error | Panicked

type_synonym canonicalizer = "file_system \<Rightarrow> path \<Rightarrow> io_error + path"

definition apply_add :: "path \<Rightarrow> ustring \<Rightarrow> apply_state \<Rightarrow> stopped option \<times> apply_state" where
  "apply_add p contents st =
     (case write_creating p contents (as_fs st) of
        (Some e, fs) \<Rightarrow> (Some (Refused (IoFailed (io_text e))), st\<lparr>as_fs := fs\<rparr>)
      | (None, fs) \<Rightarrow> (None, st\<lparr>as_fs := fs, as_added := as_added st @ [p]\<rparr>))"

definition apply_delete :: "path \<Rightarrow> apply_state \<Rightarrow> stopped option \<times> apply_state" where
  "apply_delete p st =
     (if is_dir (as_fs st) p
      then (Some (Refused (ApplyFailed (lit ''Refusing to delete directory '' @ display_path p))), st)
      else case remove_file p (as_fs st) of
        Inl e \<Rightarrow> (Some (Refused (IoFailed (io_text e))), st)
      | Inr fs \<Rightarrow> (None, st\<lparr>as_fs := fs, as_deleted := as_deleted st @ [p]\<rparr>))"

definition apply_move :: "path \<Rightarrow> path \<Rightarrow> ustring \<Rightarrow> apply_state \<Rightarrow> stopped option \<times> apply_state" where
  "apply_move p dest contents st =
     (case write_creating dest contents (as_fs st) of
        (Some e, fs) \<Rightarrow> (Some (Refused (IoFailed (io_text e))), st\<lparr>as_fs := fs\<rparr>)
      | (None, fs) \<Rightarrow>
          (case remove_file p fs of
             Inl e \<Rightarrow> (Some (Refused (IoFailed (io_text e))), st\<lparr>as_fs := fs\<rparr>)
           | Inr fs' \<Rightarrow> (None, st\<lparr>as_fs := fs', as_modified := as_modified st @ [dest]\<rparr>)))"

definition apply_update :: "path \<Rightarrow> ustring \<Rightarrow> apply_state \<Rightarrow> stopped option \<times> apply_state" where
  "apply_update p contents st =
     (case fs_write p contents (as_fs st) of
        Inl e \<Rightarrow> (Some (Refused (IoFailed (io_text e))), st)
      | Inr fs \<Rightarrow> (None, st\<lparr>as_fs := fs, as_modified := as_modified st @ [p]\<rparr>))"

definition apply_hunk :: "canonicalizer \<Rightarrow> path \<Rightarrow> path \<Rightarrow> hunk \<Rightarrow> apply_state \<Rightarrow> stopped option \<times> apply_state" where
  "apply_hunk canon base root h st =
     (let resolve = (\<lambda>s. resolve_patch_path (canon (as_fs st)) (components s) base root)
      in case h of
           AddFile s contents \<Rightarrow>
             (case resolve s of Inl e \<Rightarrow> (Some (Refused (ApplyFailed e)), st) | Inr p \<Rightarrow> apply_add p contents st)
         | DeleteFile s \<Rightarrow>
             (case resolve s of Inl e \<Rightarrow> (Some (Refused (ApplyFailed e)), st) | Inr p \<Rightarrow> apply_delete p st)
         | UpdateFile s move_path chunks \<Rightarrow>
             (case resolve s of
                Inl e \<Rightarrow> (Some (Refused (ApplyFailed e)), st)
              | Inr p \<Rightarrow>
                  (case derive_new_contents (as_fs st) p chunks of
                     None \<Rightarrow> (Some Panicked, st)
                   | Some (Inl e) \<Rightarrow> (Some (Refused e), st)
                   | Some (Inr contents) \<Rightarrow>
                       (case move_path of
                          None \<Rightarrow> apply_update p contents st
                        | Some d \<Rightarrow>
                            (case resolve d of
                               Inl e \<Rightarrow> (Some (Refused (ApplyFailed e)), st)
                             | Inr dest \<Rightarrow> apply_move p dest contents st)))))"

fun apply_each :: "canonicalizer \<Rightarrow> path \<Rightarrow> path \<Rightarrow> hunk list \<Rightarrow> apply_state \<Rightarrow> stopped option \<times> apply_state" where
  "apply_each canon base root [] st = (None, st)"
| "apply_each canon base root (h # hs) st =
     (case apply_hunk canon base root h st of
        (Some e, st') \<Rightarrow> (Some e, st')
      | (None, st') \<Rightarrow> apply_each canon base root hs st')"

definition summary_line :: "string \<Rightarrow> path \<Rightarrow> ustring" where
  "summary_line k p = lit k @ display_path p @ [newline]"

definition print_summary :: "apply_state \<Rightarrow> ustring" where
  "print_summary st =
     concat (map (summary_line ''A '') (as_added st)) @ concat (map (summary_line ''M '') (as_modified st)) @
     concat (map (summary_line ''D '') (as_deleted st))"

definition apply_hunks ::
  "canonicalizer \<Rightarrow> path \<Rightarrow> path \<Rightarrow> hunk list \<Rightarrow> file_system \<Rightarrow> (stopped + ustring) \<times> file_system" where
  "apply_hunks canon base root hs fs =
     (if hs = [] then (Inl (Refused (ApplyFailed (lit ''No files were modified.''))), fs)
      else case apply_each canon base root hs \<lparr>as_fs = fs, as_added = [], as_modified = [], as_deleted = []\<rparr> of
        (Some e, st) \<Rightarrow> (Inl e, as_fs st)
      | (None, st) \<Rightarrow> (Inr (print_summary st), as_fs st))"

definition apply_patch_to_fs_bounded ::
  "canonicalizer \<Rightarrow> ustring \<Rightarrow> path \<Rightarrow> path \<Rightarrow> file_system \<Rightarrow> (stopped + ustring) \<times> file_system" where
  "apply_patch_to_fs_bounded canon patch base root fs =
     (case parse_patch patch of
        Inl e \<Rightarrow> (Inl (Refused (ParseFailed e)), fs)
      | Inr args \<Rightarrow> apply_hunks canon base root (ap_hunks args) fs)"

definition apply_patch_to_fs :: "canonicalizer \<Rightarrow> ustring \<Rightarrow> path \<Rightarrow> file_system \<Rightarrow> (stopped + ustring) \<times> file_system" where
  "apply_patch_to_fs canon patch cwd = apply_patch_to_fs_bounded canon patch cwd cwd"

subsection \<open>Parsed patches\<close>

definition resolve_effective_cwd :: "(path \<Rightarrow> io_error + path) \<Rightarrow> path \<Rightarrow> ustring option \<Rightarrow> ustring + path" where
  "resolve_effective_cwd canon cwd workdir =
     (case workdir of
        Some w \<Rightarrow> resolve_patch_path canon (components w) cwd cwd
      | None \<Rightarrow> Inr (normalize_lexically cwd))"

definition verify_hunk :: "canonicalizer \<Rightarrow> path \<Rightarrow> path \<Rightarrow> file_system \<Rightarrow> hunk \<Rightarrow> ustring option" where
  "verify_hunk canon base root fs h =
     (let resolve = (\<lambda>s. resolve_patch_path (canon fs) (components s) base root);
          not_found = (\<lambda>p. Some (lit ''file not found: '' @ display_path p))
      in case h of
           AddFile s _ \<Rightarrow>
             (case resolve s of
                Inl e \<Rightarrow> Some e
              | Inr p \<Rightarrow>
                  if is_dir fs p \<or> is_file fs p
                  then Some (lit ''add file blocked: '' @ display_path p @ lit '' already exists'') else None)
         | DeleteFile s \<Rightarrow>
             (case resolve s of Inl e \<Rightarrow> Some e | Inr p \<Rightarrow> if \<not> is_file fs p then not_found p else None)
         | UpdateFile s move_path _ \<Rightarrow>
             (case resolve s of
                Inl e \<Rightarrow> Some e
              | Inr p \<Rightarrow>
                  if \<not> is_file fs p then not_found p
                  else (case move_path of
                          None \<Rightarrow> None
                        | Some d \<Rightarrow> (case resolve d of Inl e \<Rightarrow> Some e | Inr _ \<Rightarrow> None))))"

fun verify_hunks_readable :: "canonicalizer \<Rightarrow> path \<Rightarrow> path \<Rightarrow> file_system \<Rightarrow> hunk list \<Rightarrow> ustring option" where
  "verify_hunks_readable canon base root fs [] = None"
| "verify_hunks_readable canon base root fs (h # hs) =
     (case verify_hunk canon base root fs h of
        Some e \<Rightarrow> Some e
      | None \<Rightarrow> verify_hunks_readable canon base root fs hs)"

datatype parsed_failure = Unverified ustring | Stopped stopped

definition apply_parsed_patch ::
  "canonicalizer \<Rightarrow> apply_patch_args \<Rightarrow> path \<Rightarrow> file_system \<Rightarrow> (parsed_failure + ustring) \<times> file_system" where
  "apply_parsed_patch canon args cwd fs =
     (case resolve_effective_cwd (canon fs) cwd (ap_workdir args) of
        Inl e \<Rightarrow> (Inl (Unverified e), fs)
      | Inr effective \<Rightarrow>
          (case verify_hunks_readable canon effective cwd fs (ap_hunks args) of
             Some e \<Rightarrow> (Inl (Unverified e), fs)
           | None \<Rightarrow>
               (case apply_patch_to_fs_bounded canon (ap_patch args) effective cwd fs of
                  (Inl e, fs') \<Rightarrow> (Inl (Stopped e), fs')
                | (Inr out, fs') \<Rightarrow> (Inr out, fs'))))"

subsection \<open>Recognising an invocation\<close>

datatype heredoc_error =
    CommandDidNotStartWithApplyPatch
  | FailedToLoadBashGrammar ustring
  | HeredocNotUtf8
  | FailedToParsePatchIntoAst

datatype maybe_apply_patch =
    Body apply_patch_args
  | PatchParseError parse_error
  | ShellParseError heredoc_error  \<comment> \<open>the code keeps its debug text\<close>
  | ImplicitInvocation
  | NotApplyPatch

definition file_stem :: "path \<Rightarrow> ustring option" where
  \<comment> \<open>\<^verbatim>\<open>Path::file_stem\<close>: the file name up to its last dot, unless that is its first character\<close>
  "file_stem p =
     (if p = [] then None
      else case last p of
        Normal name \<Rightarrow>
          (case rsplit_once 46 name of
             None \<Rightarrow> Some name
           | Some (before, _) \<Rightarrow> Some (if before = [] then name else before))
      | _ \<Rightarrow> None)"

definition ascii_lower :: "nat \<Rightarrow> nat" where
  "ascii_lower c = (if 65 \<le> c \<and> c \<le> 90 then c + 32 else c)"

definition is_shell_flag :: "ustring \<Rightarrow> ustring \<Rightarrow> bool" where
  "is_shell_flag shell flag \<longleftrightarrow>
     (let stem = (case file_stem (components shell) of Some s \<Rightarrow> s | None \<Rightarrow> shell);
          name = map ascii_lower stem
      in name \<in> {lit ''sh'', lit ''bash'', lit ''zsh''} \<and> flag \<in> {lit ''-c'', lit ''-lc''})"

definition parses :: "ustring \<Rightarrow> bool" where
  "parses s = (case parse_patch s of Inr _ \<Rightarrow> True | Inl _ \<Rightarrow> False)"

definition parse_body :: "ustring \<Rightarrow> ustring option \<Rightarrow> maybe_apply_patch" where
  "parse_body body workdir =
     (case parse_patch body of
        Inr source \<Rightarrow> Body (source\<lparr>ap_patch := body, ap_workdir := workdir\<rparr>)
      | Inl e \<Rightarrow> PatchParseError e)"

definition maybe_parse_apply_patch ::
  "(ustring \<Rightarrow> heredoc_error + (ustring \<times> ustring option)) \<Rightarrow> ustring list \<Rightarrow> maybe_apply_patch" where
  \<comment> \<open>\<open>extract\<close> is the heredoc that the grammar of the shell finds in a script\<close>
  "maybe_parse_apply_patch extract argv =
     (case argv of
        [body] \<Rightarrow> if parses body then ImplicitInvocation else NotApplyPatch
      | [cmd, body] \<Rightarrow>
          if cmd \<in> {lit ''apply_patch'', lit ''applypatch''} then parse_body body None else NotApplyPatch
      | [shell, flag, script] \<Rightarrow>
          if \<not> is_shell_flag shell flag then NotApplyPatch
          else if parses script then ImplicitInvocation
          else (case extract script of
                  Inr (body, workdir) \<Rightarrow> parse_body body workdir
                | Inl CommandDidNotStartWithApplyPatch \<Rightarrow> NotApplyPatch
                | Inl e \<Rightarrow> ShellParseError e)
      | _ \<Rightarrow> NotApplyPatch)"

end
