(* ===== verification/PatchPrint.thy ===== *)
theory PatchPrint
  imports PatchProps
begin

text \<open>
  Patches printed in the documented grammar parse back to the hunks they were printed from.
\<close>

subsection \<open>Printing\<close>

definition unlines :: "ustring list \<Rightarrow> ustring" where
  "unlines ls = concat (map (\<lambda>l. l @ [newline]) ls)"

definition clean_line :: "ustring \<Rightarrow> bool" where
  "clean_line s \<longleftrightarrow> newline \<notin> set s \<and> (s = [] \<or> last s \<noteq> 13)"

definition solid :: "ustring \<Rightarrow> bool" where
  \<comment> \<open>what can stand at the end of a marker line: no trailing white space\<close>
  "solid s \<longleftrightarrow> s \<noteq> [] \<and> newline \<notin> set s \<and> \<not> is_white (last s)"

definition context_line :: "ustring option \<Rightarrow> ustring" where
  "context_line ctx = (case ctx of None \<Rightarrow> EMPTY_CHANGE_CONTEXT_MARKER | Some s \<Rightarrow> CHANGE_CONTEXT_MARKER @ s)"

definition chunk_lines :: "update_file_chunk \<Rightarrow> ustring list" where
  "chunk_lines c =
     context_line (change_context c) # map ((#) 45) (old_lines c) @ map ((#) 43) (new_lines c) @
     (if is_end_of_file c then [EOF_MARKER] else [])"

fun hunk_lines :: "hunk \<Rightarrow> ustring list" where
  "hunk_lines (AddFile path contents) =
     (ADD_FILE_MARKER @ path) # map ((#) 43) (butlast (split_on newline contents))"
| "hunk_lines (DeleteFile path) = [DELETE_FILE_MARKER @ path]"
| "hunk_lines (UpdateFile path move_path chunks) =
     (UPDATE_FILE_MARKER @ path) # (case move_path of None \<Rightarrow> [] | Some dest \<Rightarrow> [MOVE_TO_MARKER @ dest]) @
     concat (map chunk_lines chunks)"

definition env_lines :: "ustring option \<Rightarrow> ustring list" where
  "env_lines environment_id = (case environment_id of None \<Rightarrow> [] | Some e \<Rightarrow> [ENVIRONMENT_ID_MARKER @ 32 # e])"

definition patch_lines :: "ustring option \<Rightarrow> hunk list \<Rightarrow> ustring list" where
  "patch_lines environment_id hs =
     BEGIN_PATCH_MARKER # env_lines environment_id @ concat (map hunk_lines hs) @ [END_PATCH_MARKER]"

definition print_patch :: "ustring option \<Rightarrow> hunk list \<Rightarrow> ustring" where
  "print_patch environment_id hs = unlines (patch_lines environment_id hs)"

definition chunk_printable :: "update_file_chunk \<Rightarrow> bool" where
  "chunk_printable c \<longleftrightarrow>
     \<not> chunk_empty c \<and> (\<forall>l \<in> set (old_lines c) \<union> set (new_lines c). clean_line l) \<and>
     (case change_context c of None \<Rightarrow> True | Some s \<Rightarrow> solid s)"

fun hunk_printable :: "hunk \<Rightarrow> bool" where
  "hunk_printable (AddFile path contents) =
     (solid path \<and> (contents = [] \<or> last contents = newline) \<and> (\<forall>l \<in> set (split_on newline contents). clean_line l))"
| "hunk_printable (DeleteFile path) = solid path"
| "hunk_printable (UpdateFile path move_path chunks) =
     (solid path \<and> (case move_path of None \<Rightarrow> True | Some dest \<Rightarrow> solid dest) \<and>
      chunks \<noteq> [] \<and> (\<forall>c \<in> set chunks. chunk_printable c))"

definition env_printable :: "ustring option \<Rightarrow> bool" where
  "env_printable environment_id =
     (case environment_id of None \<Rightarrow> True | Some e \<Rightarrow> solid e \<and> \<not> is_white (hd e))"

subsection \<open>Texts\<close>

lemma lit_Nil [simp]: "lit [] = []" and lit_Cons [simp]: "lit (c # s) = of_char c # lit s"
  by (simp_all add: lit_def)

lemma unlines_simps [simp]: "unlines [] = []" "unlines (l # ls) = l @ newline # unlines ls"
  "unlines (ls @ ms) = unlines ls @ unlines ms"
  by (simp_all add: unlines_def)

lemma join_unlines: "join_with newline (ls @ [l]) = unlines ls @ l"
proof (induction ls)
  case (Cons k ls)
  obtain y ys where "ls @ [l] = y # ys" by (cases "ls @ [l]") auto
  with Cons show ?case by simp
qed simp

lemma split_on_snoc: "split_on c (s @ [c]) = split_on c s @ [[]]"
  by (induction s) (auto split: list.split)

lemma unlines_split:
  assumes "c = [] \<or> last c = newline"
  shows "unlines (butlast (split_on newline c)) = c"
proof -
  have "last (split_on newline c) = []"
    using assms by (cases c rule: rev_cases) (auto simp: split_on_snoc)
  moreover have "c = join_with newline (butlast (split_on newline c) @ [last (split_on newline c)])"
    by (simp add: join_split)
  ultimately show ?thesis by (metis append.right_neutral join_unlines)
qed

lemma utrim_id: "s \<noteq> [] \<Longrightarrow> \<not> is_white (hd s) \<Longrightarrow> \<not> is_white (last s) \<Longrightarrow> utrim s = s"
  by (simp add: utrim_def trim_matches_id)

lemma utrim_end_id: "s \<noteq> [] \<Longrightarrow> \<not> is_white (last s) \<Longrightarrow> utrim_end s = s"
  by (cases s rule: rev_cases) (simp_all add: utrim_end_def)

lemma utrim_end_Cons: "\<not> is_white c \<Longrightarrow> \<exists>t. utrim_end (c # s) = c # t"
proof (induction s rule: rev_induct)
  case (snoc x s)
  then show ?case by (cases "is_white x") (simp_all add: utrim_end_def)
qed (simp add: utrim_end_def)

lemma utrim_Cons: "\<not> is_white c \<Longrightarrow> \<exists>t. utrim (c # s) = c # t"
  using utrim_end_Cons [of c s] by (simp add: utrim_def trim_matches_def utrim_end_def)

lemma marker_line:
  assumes "m \<noteq> []" "hd m = 42 \<or> hd m = 64" "solid s"
  shows "utrim (m @ s) = m @ s" "utrim_end (m @ s) = m @ s"
  using assms by (auto simp: solid_def is_white_def intro!: utrim_id utrim_end_id)

lemma not_header:
  assumes "t = [] \<or> hd t \<noteq> 42"
  shows "handle_hunk_headers_and_end_patch t p = None"
  using assms
  by (cases t) (auto simp: handle_hunk_headers_and_end_patch_def strip_prefix_def patch_markers)

subsection \<open>Lines\<close>

fun process_lines :: "ustring list \<Rightarrow> patch_parser \<Rightarrow> parse_error + patch_parser" where
  "process_lines [] p = Inr p"
| "process_lines (l # ls) p =
     (case process_line l (p\<lparr>pp_line_number := Suc (pp_line_number p)\<rparr>) of Inl e \<Rightarrow> Inl e | Inr q \<Rightarrow> process_lines ls q)"

lemma process_lines_append:
  "process_lines (ls @ ms) p = (case process_lines ls p of Inl e \<Rightarrow> Inl e | Inr q \<Rightarrow> process_lines ms q)"
  by (induction ls arbitrary: p) (auto split: sum.split)

lemma handle_buffer: "handle_hunk_headers_and_end_patch t p = Some (Inr q) \<Longrightarrow> pp_line_buffer q = pp_line_buffer p"
  by (auto simp: handle_hunk_headers_and_end_patch_def set_environment_id_def open_hunk_def split: if_splits option.splits)

lemma process_line_buffer: "process_line l p = Inr q \<Longrightarrow> pp_line_buffer q = pp_line_buffer p"
  by (auto simp: process_line_def Let_def dest: handle_buffer split: parser_mode.splits if_splits option.splits sum.splits hunk.splits)

lemma push_lines:
  "\<forall>l \<in> set ls. clean_line l \<Longrightarrow> pp_line_buffer p = [] \<Longrightarrow>
   push_delta (unlines ls @ r) p = (case process_lines ls p of Inl e \<Rightarrow> Inl e | Inr q \<Rightarrow> push_delta r q)"
proof (induction ls arbitrary: p)
  case (Cons l ls)
  have "strip_cr l = l" using Cons.prems(1) by (auto simp: clean_line_def strip_cr_def)
  then have e: "end_line (p\<lparr>pp_line_buffer := l\<rparr>) = process_line l (p\<lparr>pp_line_number := Suc (pp_line_number p)\<rparr>)"
    using Cons.prems(2) by (cases p) (simp add: end_line_def)
  have "newline \<notin> set l" using Cons.prems(1) by (simp add: clean_line_def)
  then have step: "push_delta (unlines (l # ls) @ r) p =
      (case process_line l (p\<lparr>pp_line_number := Suc (pp_line_number p)\<rparr>) of Inl e \<Rightarrow> Inl e | Inr q \<Rightarrow> push_delta (unlines ls @ r) q)"
    using push_delta_append [of l "newline # unlines ls @ r" p] Cons.prems(2) by (simp add: push_no_newline e)
  show ?case
  proof (cases "process_line l (p\<lparr>pp_line_number := Suc (pp_line_number p)\<rparr>)")
    case (Inr q)
    then have "pp_line_buffer q = []" using process_line_buffer Cons.prems(2) by fastforce
    then show ?thesis using Cons.IH [of q] Cons.prems(1) Inr by (simp only: step) simp
  qed (simp only: step, simp)
qed simp


subsection \<open>Hunks\<close>

definition ready :: "patch_parser \<Rightarrow> bool" where
  \<comment> \<open>a header may follow\<close>
  "ready p \<longleftrightarrow>
     pp_line_buffer p = [] \<and> pp_mode p \<notin> {NotStarted, EndedPatch} \<and>
     (\<forall>line n. ensure_update_hunk_is_not_empty line (p\<lparr>pp_line_number := n\<rparr>) = None)"

lemma header_line:
  assumes "ready p" "utrim t = t" "utrim_end t = t" "handle_hunk_headers_and_end_patch t (p\<lparr>pp_line_number := n\<rparr>) = Some r"
  shows "process_line t (p\<lparr>pp_line_number := n\<rparr>) = r"
  using assms by (cases "pp_mode p") (simp_all add: process_line_def ready_def)

lemma handle_headers:
  assumes "ready p"
  shows "handle_hunk_headers_and_end_patch (ADD_FILE_MARKER @ path) (p\<lparr>pp_line_number := n\<rparr>) =
      Some (Inr (p\<lparr>pp_line_number := n, pp_hunks := pp_hunks p @ [AddFile path []], pp_mode := InAddFile\<rparr>))"
    and "handle_hunk_headers_and_end_patch (DELETE_FILE_MARKER @ path) (p\<lparr>pp_line_number := n\<rparr>) =
      Some (Inr (p\<lparr>pp_line_number := n, pp_hunks := pp_hunks p @ [DeleteFile path], pp_mode := InDeleteFile\<rparr>))"
    and "handle_hunk_headers_and_end_patch (UPDATE_FILE_MARKER @ path) (p\<lparr>pp_line_number := n\<rparr>) =
      Some (Inr (p\<lparr>pp_line_number := n, pp_hunks := pp_hunks p @ [UpdateFile path None []], pp_mode := InUpdateFile n\<rparr>))"
  using assms
  by (simp_all add: handle_hunk_headers_and_end_patch_def open_hunk_def ready_def strip_prefix_def patch_markers)

lemma add_lines:
  "pp_mode p = InAddFile \<Longrightarrow> pp_hunks p = hs @ [AddFile path c] \<Longrightarrow>
   process_lines (map ((#) 43) ls) p =
     Inr (p\<lparr>pp_hunks := hs @ [AddFile path (c @ unlines ls)], pp_line_number := pp_line_number p + length ls\<rparr>)"
proof (induction ls arbitrary: p c)
  case (Cons l ls)
  have "process_line (43 # l) (p\<lparr>pp_line_number := Suc (pp_line_number p)\<rparr>) =
      Inr (p\<lparr>pp_line_number := Suc (pp_line_number p), pp_hunks := hs @ [AddFile path (c @ l @ [newline])]\<rparr>)"
    using Cons.prems utrim_Cons [of 43 l]
    by (auto simp: process_line_def Let_def not_header is_white_def strip_prefix_def)
  then show ?case using Cons by simp
qed simp

lemma update_step:
  assumes "pp_mode p = InUpdateFile k" "pp_hunks p = hs @ [h]"
    "handle_hunk_headers_and_end_patch (utrim_end line) p = None" "update_hunk_line (pp_line_number p) line h = Inr h'"
  shows "process_line line p = Inr (p\<lparr>pp_hunks := hs @ [h']\<rparr>)"
  using assms by (simp add: process_line_def Let_def)

lemma update_line_plain:
  assumes "c \<in> {45, 43}" "\<not> is_end_of_file ch"
  shows "update_hunk_line n (c # l) (UpdateFile path m (cs @ [ch])) =
    Inr (UpdateFile path m (cs @ [if c = 45 then push_old l ch else push_new l ch]))"
proof -
  obtain t where "utrim_end (c # l) = c # t" using utrim_end_Cons [of c l] assms(1) by (auto simp: is_white_def)
  with assms show ?thesis
    by (auto simp: update_hunk_line_def update_line_chunks_def Let_def is_context_marker_def starts_with_def
        strip_prefix_def patch_markers on_chunk_def on_last_def)
qed

lemma plain_lines:
  assumes "c \<in> {45, 43}"
  shows "pp_mode p = InUpdateFile k \<Longrightarrow> pp_hunks p = hs @ [UpdateFile path m (cs @ [ch])] \<Longrightarrow> \<not> is_end_of_file ch \<Longrightarrow>
    process_lines (map ((#) c) ls) p =
      Inr (p\<lparr>pp_hunks := hs @ [UpdateFile path m (cs @ [if c = 45 then ch\<lparr>old_lines := old_lines ch @ ls\<rparr>
                                                         else ch\<lparr>new_lines := new_lines ch @ ls\<rparr>])],
             pp_line_number := pp_line_number p + length ls\<rparr>)"
proof (induction ls arbitrary: p ch)
  case (Cons l ls)
  let ?p = "p\<lparr>pp_line_number := Suc (pp_line_number p)\<rparr>" and ?ch = "if c = 45 then push_old l ch else push_new l ch"
  obtain t where t: "utrim_end (c # l) = c # t" using utrim_end_Cons [of c l] assms by (auto simp: is_white_def)
  have "process_line (c # l) ?p = Inr (?p\<lparr>pp_hunks := hs @ [UpdateFile path m (cs @ [?ch])]\<rparr>)"
    using Cons.prems assms
    by (intro update_step [of _ k _ "UpdateFile path m (cs @ [ch])"]) (auto simp: t not_header update_line_plain)
  then show ?case using Cons.IH [of "?p\<lparr>pp_hunks := hs @ [UpdateFile path m (cs @ [?ch])]\<rparr>" ?ch] Cons.prems
    by (auto simp: push_old_def push_new_def)
qed (auto)


lemma context_trim: "(case ctx of None \<Rightarrow> True | Some s \<Rightarrow> solid s) \<Longrightarrow> utrim_end (context_line ctx) = context_line ctx"
  by (cases ctx)
    (auto simp: context_line_def solid_def is_white_def patch_markers intro!: utrim_end_id)

lemma context_step:
  assumes "case ctx of None \<Rightarrow> True | Some s \<Rightarrow> solid s" and "cs = [] \<or> \<not> chunk_empty (last cs)"
  shows "update_hunk_line n (context_line ctx) (UpdateFile path m cs) = Inr (UpdateFile path m (cs @ [new_chunk ctx]))"
proof (cases ctx)
  case None
  have t: "utrim_end (context_line None) = lit ''@@''" using context_trim [of None] by (simp add: context_line_def patch_markers)
  show ?thesis using assms(2) unfolding None update_hunk_line_def update_line_chunks_def t
    by (auto simp: Let_def is_context_marker_def starts_with_def strip_prefix_def patch_markers)
next
  case (Some s)
  then have "s \<noteq> []" using assms(1) by (simp add: solid_def)
  moreover have t: "utrim_end (context_line (Some s)) = lit ''@@ '' @ s"
    using context_trim [of "Some s"] assms(1) Some by (simp add: context_line_def patch_markers)
  ultimately show ?thesis using assms(2) unfolding Some update_hunk_line_def update_line_chunks_def t
    by (auto simp: Let_def is_context_marker_def starts_with_def strip_prefix_def patch_markers)
qed

lemma eof_step:
  assumes "\<not> is_end_of_file ch" "\<not> chunk_empty ch"
  shows "update_hunk_line n EOF_MARKER (UpdateFile path m (cs @ [ch])) = Inr (UpdateFile path m (cs @ [ch\<lparr>is_end_of_file := True\<rparr>]))"
proof -
  have "utrim_end EOF_MARKER = EOF_MARKER" by (rule utrim_end_id) (simp_all add: patch_markers is_white_def)
  with assms show ?thesis
    by (simp add: update_hunk_line_def update_line_chunks_def Let_def is_context_marker_def starts_with_def
        strip_prefix_def patch_markers on_last_def)
qed

lemma eof_no_header: "handle_hunk_headers_and_end_patch (utrim_end EOF_MARKER) p = None"
proof -
  have "utrim_end EOF_MARKER = EOF_MARKER" by (rule utrim_end_id) (simp_all add: patch_markers is_white_def)
  then show ?thesis by (simp add: handle_hunk_headers_and_end_patch_def strip_prefix_def patch_markers)
qed

lemma chunk_step:
  assumes mode: "pp_mode p = InUpdateFile k" and hunks: "pp_hunks p = hs @ [UpdateFile path m cs]"
    and cs: "cs = [] \<or> \<not> chunk_empty (last cs)" and c: "chunk_printable c"
  shows "process_lines (chunk_lines c) p =
    Inr (p\<lparr>pp_hunks := hs @ [UpdateFile path m (cs @ [c])], pp_line_number := pp_line_number p + length (chunk_lines c)\<rparr>)"
proof -
  let ?p1 = "p\<lparr>pp_line_number := Suc (pp_line_number p), pp_hunks := hs @ [UpdateFile path m (cs @ [new_chunk (change_context c)])]\<rparr>"
  let ?o = "(new_chunk (change_context c))\<lparr>old_lines := old_lines c\<rparr>"
  let ?n = "?o\<lparr>new_lines := new_lines c\<rparr>"
  let ?p2 = "?p1\<lparr>pp_hunks := hs @ [UpdateFile path m (cs @ [?o])], pp_line_number := Suc (pp_line_number p) + length (old_lines c)\<rparr>"
  let ?p3 = "?p2\<lparr>pp_hunks := hs @ [UpdateFile path m (cs @ [?n])],
      pp_line_number := Suc (pp_line_number p) + length (old_lines c) + length (new_lines c)\<rparr>"
  have ctx: "case change_context c of None \<Rightarrow> True | Some s \<Rightarrow> solid s" using c by (simp add: chunk_printable_def)
  have "hd (context_line (change_context c)) = 64" by (simp add: context_line_def patch_markers split: option.split)
  then have "handle_hunk_headers_and_end_patch (utrim_end (context_line (change_context c))) q = None" for q
    by (simp add: context_trim [OF ctx] not_header)
  then have s1: "process_line (context_line (change_context c)) (p\<lparr>pp_line_number := Suc (pp_line_number p)\<rparr>) = Inr ?p1"
    using mode hunks by (subst update_step [of _ k hs "UpdateFile path m cs"]) (auto intro: context_step [OF ctx cs])
  have s2: "process_lines (map ((#) 45) (old_lines c)) ?p1 = Inr ?p2"
    using mode by (subst plain_lines [of _ _ k]) (auto simp: new_chunk_def)
  have s3: "process_lines (map ((#) 43) (new_lines c)) ?p2 = Inr ?p3"
    using mode by (subst plain_lines [of _ _ k]) (auto simp: new_chunk_def)
  show ?thesis
  proof (cases "is_end_of_file c")
    case False
    then have "?n = c" by (cases c) (simp add: new_chunk_def)
    then show ?thesis using False s1 s2 s3 by (simp add: chunk_lines_def process_lines_append)
  next
    case True
    then have n: "?n\<lparr>is_end_of_file := True\<rparr> = c" by (cases c) (simp add: new_chunk_def)
    have "\<not> chunk_empty ?n" using c by (auto simp: chunk_printable_def chunk_empty_def)
    then have "process_line EOF_MARKER (?p3\<lparr>pp_line_number := Suc (pp_line_number ?p3)\<rparr>) =
        Inr (?p3\<lparr>pp_line_number := Suc (pp_line_number ?p3), pp_hunks := hs @ [UpdateFile path m (cs @ [?n\<lparr>is_end_of_file := True\<rparr>])]\<rparr>)"
      using mode by (subst update_step [of _ k hs "UpdateFile path m (cs @ [?n])"]) (auto simp: eof_no_header eof_step new_chunk_def)
    then show ?thesis using True s1 s2 s3 n by (simp add: chunk_lines_def process_lines_append)
  qed
qed

lemma chunks_step:
  assumes "pp_mode p = InUpdateFile k"
  shows "pp_hunks p = hs @ [UpdateFile path m cs] \<Longrightarrow> cs = [] \<or> \<not> chunk_empty (last cs) \<Longrightarrow> \<forall>c \<in> set ds. chunk_printable c \<Longrightarrow>
    \<exists>n. process_lines (concat (map chunk_lines ds)) p = Inr (p\<lparr>pp_hunks := hs @ [UpdateFile path m (cs @ ds)], pp_line_number := n\<rparr>)"
  using assms
proof (induction ds arbitrary: p cs)
  case Nil
  then show ?case by (intro exI [of _ "pp_line_number p"]) simp
next
  case (Cons c ds)
  let ?p = "p\<lparr>pp_hunks := hs @ [UpdateFile path m (cs @ [c])], pp_line_number := pp_line_number p + length (chunk_lines c)\<rparr>"
  have "\<exists>n. process_lines (concat (map chunk_lines ds)) ?p =
      Inr (?p\<lparr>pp_hunks := hs @ [UpdateFile path m ((cs @ [c]) @ ds)], pp_line_number := n\<rparr>)"
    using Cons.prems by (intro Cons.IH) (simp_all add: chunk_printable_def)
  then show ?case using Cons.prems chunk_step [of p k hs path m cs c] by (auto simp: process_lines_append)
qed

lemma move_step:
  assumes mode: "pp_mode p = InUpdateFile k" and hunks: "pp_hunks p = hs @ [UpdateFile path None []]" and d: "solid dest"
  shows "process_line (MOVE_TO_MARKER @ dest) p = Inr (p\<lparr>pp_hunks := hs @ [UpdateFile path (Some dest) []]\<rparr>)"
proof -
  have t: "utrim_end (MOVE_TO_MARKER @ dest) = MOVE_TO_MARKER @ dest"
    using d by (intro marker_line) (simp_all add: patch_markers)
  have "handle_hunk_headers_and_end_patch (MOVE_TO_MARKER @ dest) p = None" "MOVE_TO_MARKER @ dest \<noteq> []"
    using mode by (simp_all add: handle_hunk_headers_and_end_patch_def strip_prefix_def patch_markers)
  then show ?thesis using mode hunks by (subst update_step [of _ k hs "UpdateFile path None []"]) (auto simp: t update_hunk_line_def)
qed


lemma header_step:
  assumes "ready p" "solid path"
  shows "process_line (ADD_FILE_MARKER @ path) (p\<lparr>pp_line_number := n\<rparr>) =
      Inr (p\<lparr>pp_line_number := n, pp_hunks := pp_hunks p @ [AddFile path []], pp_mode := InAddFile\<rparr>)"
    and "process_line (DELETE_FILE_MARKER @ path) (p\<lparr>pp_line_number := n\<rparr>) =
      Inr (p\<lparr>pp_line_number := n, pp_hunks := pp_hunks p @ [DeleteFile path], pp_mode := InDeleteFile\<rparr>)"
    and "process_line (UPDATE_FILE_MARKER @ path) (p\<lparr>pp_line_number := n\<rparr>) =
      Inr (p\<lparr>pp_line_number := n, pp_hunks := pp_hunks p @ [UpdateFile path None []], pp_mode := InUpdateFile n\<rparr>)"
proof -
  have "utrim (m @ path) = m @ path" "utrim_end (m @ path) = m @ path"
    if "m \<in> {ADD_FILE_MARKER, DELETE_FILE_MARKER, UPDATE_FILE_MARKER}" for m
    using that assms(2) marker_line [of m path] by (auto simp: patch_markers)
  then show "process_line (ADD_FILE_MARKER @ path) (p\<lparr>pp_line_number := n\<rparr>) =
      Inr (p\<lparr>pp_line_number := n, pp_hunks := pp_hunks p @ [AddFile path []], pp_mode := InAddFile\<rparr>)"
    "process_line (DELETE_FILE_MARKER @ path) (p\<lparr>pp_line_number := n\<rparr>) =
      Inr (p\<lparr>pp_line_number := n, pp_hunks := pp_hunks p @ [DeleteFile path], pp_mode := InDeleteFile\<rparr>)"
    "process_line (UPDATE_FILE_MARKER @ path) (p\<lparr>pp_line_number := n\<rparr>) =
      Inr (p\<lparr>pp_line_number := n, pp_hunks := pp_hunks p @ [UpdateFile path None []], pp_mode := InUpdateFile n\<rparr>)"
    using header_line [OF assms(1) _ _ handle_headers(1) [OF assms(1)]] header_line [OF assms(1) _ _ handle_headers(2) [OF assms(1)]]
      header_line [OF assms(1) _ _ handle_headers(3) [OF assms(1)]] by simp_all
qed

lemma hunk_step:
  assumes r: "ready p" and h: "hunk_printable h"
  shows "\<exists>n m. process_lines (hunk_lines h) p =
      Inr (p\<lparr>pp_hunks := pp_hunks p @ [h], pp_mode := m, pp_line_number := n\<rparr>) \<and>
    ready (p\<lparr>pp_hunks := pp_hunks p @ [h], pp_mode := m, pp_line_number := n\<rparr>)"
proof (cases h)
  case (AddFile path contents)
  let ?p = "p\<lparr>pp_line_number := Suc (pp_line_number p), pp_hunks := pp_hunks p @ [AddFile path []], pp_mode := InAddFile\<rparr>"
  let ?ls = "butlast (split_on newline contents)"
  have "process_lines (hunk_lines h) p = process_lines (map ((#) 43) ?ls) ?p"
    using AddFile h header_step(1) [OF r, of path "Suc (pp_line_number p)"] by simp
  also have "\<dots> = Inr (?p\<lparr>pp_hunks := pp_hunks p @ [AddFile path ([] @ unlines ?ls)], pp_line_number := pp_line_number ?p + length ?ls\<rparr>)"
    by (rule add_lines) simp_all
  finally show ?thesis using AddFile h r unlines_split [of contents]
    by (intro exI [of _ "pp_line_number ?p + length ?ls"] exI [of _ InAddFile])
      (simp add: ready_def ensure_update_hunk_is_not_empty_def)
next
  case (DeleteFile path)
  then show ?thesis using h r header_step(2) [OF r, of path "Suc (pp_line_number p)"]
    by (intro exI [of _ "Suc (pp_line_number p)"] exI [of _ InDeleteFile])
      (simp add: ready_def ensure_update_hunk_is_not_empty_def)
next
  case (UpdateFile path m cs)
  let ?k = "Suc (pp_line_number p)"
  let ?p = "p\<lparr>pp_line_number := ?k, pp_hunks := pp_hunks p @ [UpdateFile path None []], pp_mode := InUpdateFile ?k\<rparr>"
  let ?move = "case m of None \<Rightarrow> [] | Some dest \<Rightarrow> [MOVE_TO_MARKER @ dest]"
  obtain j where j: "process_lines ?move ?p = Inr (?p\<lparr>pp_hunks := pp_hunks p @ [UpdateFile path m []], pp_line_number := j\<rparr>)"
  proof (cases m)
    case None
    then show thesis using that [of ?k] by simp
  next
    case (Some dest)
    have "process_line (MOVE_TO_MARKER @ dest) (?p\<lparr>pp_line_number := Suc ?k\<rparr>) =
        Inr (?p\<lparr>pp_line_number := Suc ?k, pp_hunks := pp_hunks p @ [UpdateFile path (Some dest) []]\<rparr>)"
      using h Some UpdateFile by (subst move_step [of _ ?k "pp_hunks p" path dest]) simp_all
    then show thesis using that [of "Suc ?k"] Some by simp
  qed
  let ?q = "?p\<lparr>pp_hunks := pp_hunks p @ [UpdateFile path m []], pp_line_number := j\<rparr>"
  obtain n where n: "process_lines (concat (map chunk_lines cs)) ?q =
      Inr (?q\<lparr>pp_hunks := pp_hunks p @ [UpdateFile path m ([] @ cs)], pp_line_number := n\<rparr>)"
    using chunks_step [of ?q ?k "pp_hunks p" path m "[]" cs] h UpdateFile by auto
  have "process_lines (hunk_lines h) p = Inr (p\<lparr>pp_hunks := pp_hunks p @ [h], pp_mode := InUpdateFile ?k, pp_line_number := n\<rparr>)"
    using header_step(3) [OF r, of path ?k] h j n by (simp add: UpdateFile process_lines_append)
  moreover have "cs \<noteq> [] \<and> \<not> chunk_empty (last cs)" using h UpdateFile by (auto simp: chunk_printable_def)
  then have "ready (p\<lparr>pp_hunks := pp_hunks p @ [h], pp_mode := InUpdateFile ?k, pp_line_number := n\<rparr>)"
    using r by (auto simp: ready_def UpdateFile ensure_update_hunk_is_not_empty_def split: list.split)
  ultimately show ?thesis by blast
qed

lemma hunks_step:
  "ready p \<Longrightarrow> \<forall>h \<in> set hs. hunk_printable h \<Longrightarrow>
   \<exists>n m. process_lines (concat (map hunk_lines hs)) p =
      Inr (p\<lparr>pp_hunks := pp_hunks p @ hs, pp_mode := m, pp_line_number := n\<rparr>) \<and>
    ready (p\<lparr>pp_hunks := pp_hunks p @ hs, pp_mode := m, pp_line_number := n\<rparr>)"
proof (induction hs arbitrary: p)
  case Nil
  then show ?case by (intro exI [of _ "pp_line_number p"] exI [of _ "pp_mode p"]) simp
next
  case (Cons h hs)
  obtain n m where h: "process_lines (hunk_lines h) p = Inr (p\<lparr>pp_hunks := pp_hunks p @ [h], pp_mode := m, pp_line_number := n\<rparr>)"
    "ready (p\<lparr>pp_hunks := pp_hunks p @ [h], pp_mode := m, pp_line_number := n\<rparr>)"
    using hunk_step [of p h] Cons.prems by auto
  from Cons.IH [OF h(2)] Cons.prems(2) show ?case by (auto simp: process_lines_append h(1))
qed

subsection \<open>Whole patches\<close>

lemma clean_cons: "clean_line l \<Longrightarrow> c \<noteq> newline \<Longrightarrow> c \<noteq> 13 \<Longrightarrow> clean_line (c # l)"
  by (auto simp: clean_line_def)

lemma clean_marker: "newline \<notin> set m \<Longrightarrow> solid s \<Longrightarrow> clean_line (m @ s)"
  by (auto simp: clean_line_def solid_def is_white_def)

lemma markers_one_line [simp]:
  "newline \<notin> set BEGIN_PATCH_MARKER" "newline \<notin> set END_PATCH_MARKER" "newline \<notin> set ADD_FILE_MARKER"
  "newline \<notin> set DELETE_FILE_MARKER" "newline \<notin> set UPDATE_FILE_MARKER" "newline \<notin> set MOVE_TO_MARKER"
  "newline \<notin> set CHANGE_CONTEXT_MARKER" "newline \<notin> set ENVIRONMENT_ID_MARKER"
  "clean_line BEGIN_PATCH_MARKER" "clean_line END_PATCH_MARKER" "clean_line EOF_MARKER" "clean_line EMPTY_CHANGE_CONTEXT_MARKER"
  by (simp_all add: patch_markers clean_line_def)

lemma clean_chunk: "chunk_printable c \<Longrightarrow> \<forall>l \<in> set (chunk_lines c). clean_line l"
  by (auto simp: chunk_lines_def chunk_printable_def context_line_def clean_cons clean_marker split: option.splits)

lemma clean_hunk: "hunk_printable h \<Longrightarrow> \<forall>l \<in> set (hunk_lines h). clean_line l"
  using clean_chunk by (cases h) (auto simp: clean_cons clean_marker dest: in_set_butlastD split: option.splits)

lemma clean_patch:
  assumes "env_printable e" "\<forall>h \<in> set hs. hunk_printable h"
  shows "\<forall>l \<in> set (patch_lines e hs). clean_line l"
proof -
  have "\<forall>l \<in> set (env_lines e). clean_line l"
    using assms(1) clean_marker [of "ENVIRONMENT_ID_MARKER @ [32]"] by (auto simp: env_lines_def env_printable_def split: option.splits)
  then show ?thesis using assms(2) clean_hunk by (auto simp: patch_lines_def)
qed

lemma start_step:
  assumes "env_printable e"
  shows "\<exists>n. process_lines (BEGIN_PATCH_MARKER # env_lines e) parser_default =
      Inr (parser_default\<lparr>pp_mode := StartedPatch, pp_environment_id := e, pp_line_number := n\<rparr>) \<and>
    ready (parser_default\<lparr>pp_mode := StartedPatch, pp_environment_id := e, pp_line_number := n\<rparr>)"
proof -
  let ?p = "parser_default\<lparr>pp_mode := StartedPatch, pp_line_number := Suc 0\<rparr>"
  have "utrim BEGIN_PATCH_MARKER = BEGIN_PATCH_MARKER" by (rule utrim_id) (simp_all add: patch_markers is_white_def)
  then have s: "process_line BEGIN_PATCH_MARKER (parser_default\<lparr>pp_line_number := Suc 0\<rparr>) = Inr ?p"
    by (simp add: process_line_def parser_default_def)
  have r: "ready (parser_default\<lparr>pp_mode := StartedPatch, pp_environment_id := e, pp_line_number := n\<rparr>)" for n
    by (simp add: ready_def parser_default_def ensure_update_hunk_is_not_empty_def)
  show ?thesis
  proof (cases e)
    case None
    then show ?thesis using s r by (intro exI [of _ "Suc 0"]) (simp add: env_lines_def parser_default_def)
  next
    case (Some i)
    then have i: "solid i" "\<not> is_white (hd i)" using assms by (auto simp: env_printable_def)
    then have "utrim i = i" by (auto simp: solid_def intro: utrim_id)
    then have i32: "utrim (32 # i) = i" by (simp add: utrim_def trim_matches_def is_white_def)
    have "utrim ((ENVIRONMENT_ID_MARKER @ [32]) @ i) = (ENVIRONMENT_ID_MARKER @ [32]) @ i"
      using i by (intro marker_line) (simp_all add: patch_markers)
    then have "process_line (ENVIRONMENT_ID_MARKER @ 32 # i) (?p\<lparr>pp_line_number := Suc (Suc 0)\<rparr>) =
        Inr (?p\<lparr>pp_line_number := Suc (Suc 0), pp_environment_id := Some i\<rparr>)"
      using i i32 by (simp add: process_line_def handle_hunk_headers_and_end_patch_def set_environment_id_def solid_def parser_default_def)
    then show ?thesis using Some s r by (intro exI [of _ "Suc (Suc 0)"]) (simp add: env_lines_def parser_default_def)
  qed
qed

lemma str_lines_patch:
  assumes "env_printable e" "\<forall>h \<in> set hs. hunk_printable h"
  shows "str_lines (utrim (print_patch e hs)) = patch_lines e hs" "utrim (print_patch e hs) = join_with newline (patch_lines e hs)"
proof -
  let ?ls = "butlast (patch_lines e hs)"
  have ls: "patch_lines e hs = ?ls @ [END_PATCH_MARKER]" "hd ?ls = BEGIN_PATCH_MARKER" "?ls \<noteq> []"
    by (simp_all add: patch_lines_def butlast_append)
  let ?t = "unlines ?ls @ END_PATCH_MARKER"
  have print: "print_patch e hs = ?t @ [newline]" unfolding print_patch_def by (subst ls(1)) simp
  have "hd ?t = 42" using ls(2,3) by (cases ?ls) (simp_all add: patch_markers)
  moreover have "last ?t = 104" by (simp add: patch_markers)
  ultimately have "utrim ?t = ?t" by (intro utrim_id) (simp_all add: is_white_def patch_markers)
  moreover have "utrim (s @ [newline]) = utrim s" if "s \<noteq> []" "hd s = 42" for s
    using that by (cases s) (simp_all add: utrim_def trim_matches_def is_white_def)
  moreover have "?t \<noteq> []" by (simp add: patch_markers)
  ultimately have trim: "utrim (print_patch e hs) = ?t" using print \<open>hd ?t = 42\<close> by metis
  also have "\<dots> = join_with newline (patch_lines e hs)" by (subst ls(1)) (simp add: join_unlines)
  finally show join: "utrim (print_patch e hs) = join_with newline (patch_lines e hs)" .
  have clean: "\<forall>l \<in> set (patch_lines e hs). clean_line l" using clean_patch assms by blast
  then have "split_on newline (join_with newline (patch_lines e hs)) = patch_lines e hs"
    using ls by (intro split_join) (auto simp: clean_line_def)
  moreover have "map strip_cr ?ls = ?ls"
    using clean by (intro map_idI) (auto simp: clean_line_def strip_cr_def dest: in_set_butlastD)
  moreover have "END_PATCH_MARKER \<noteq> []" by (simp add: patch_markers)
  ultimately show "str_lines (utrim (print_patch e hs)) = patch_lines e hs"
    unfolding join str_lines_def Let_def using ls(1) by (metis last_snoc)
qed

lemma parse_print:
  assumes e: "env_printable e" and hs: "\<forall>h \<in> set hs. hunk_printable h"
  shows "parse_patch (print_patch e hs) =
    Inr \<lparr>ap_hunks = hs, ap_patch = join_with newline (patch_lines e hs), ap_workdir = None, ap_environment_id = e\<rparr>"
proof -
  let ?ls = "BEGIN_PATCH_MARKER # env_lines e @ concat (map hunk_lines hs)"
  have ls: "patch_lines e hs = ?ls @ [END_PATCH_MARKER]" by (simp add: patch_lines_def)
  have "utrim BEGIN_PATCH_MARKER = BEGIN_PATCH_MARKER" and END: "utrim END_PATCH_MARKER = END_PATCH_MARKER"
    by (rule utrim_id, simp_all add: patch_markers is_white_def)+
  then have bounds: "check_patch_boundaries_lenient (patch_lines e hs) = Inr (patch_lines e hs)"
    by (simp add: check_patch_boundaries_lenient_def check_patch_boundaries_strict_def check_start_and_end_lines_strict_def ls)
  from start_step [OF e] obtain k where k: "process_lines (BEGIN_PATCH_MARKER # env_lines e) parser_default =
      Inr (parser_default\<lparr>pp_mode := StartedPatch, pp_environment_id := e, pp_line_number := k\<rparr>)"
    "ready (parser_default\<lparr>pp_mode := StartedPatch, pp_environment_id := e, pp_line_number := k\<rparr>)" by blast
  from hunks_step [OF k(2) hs] obtain n m where n: "process_lines ?ls parser_default =
      Inr (parser_default\<lparr>pp_hunks := hs, pp_mode := m, pp_environment_id := e, pp_line_number := n\<rparr>)"
    "ready (parser_default\<lparr>pp_hunks := hs, pp_mode := m, pp_environment_id := e, pp_line_number := n\<rparr>)"
    using process_lines_append [of "BEGIN_PATCH_MARKER # env_lines e" "concat (map hunk_lines hs)" parser_default] k(1)
    by (auto simp: parser_default_def)
  let ?q = "parser_default\<lparr>pp_hunks := hs, pp_mode := m, pp_environment_id := e, pp_line_number := n\<rparr>"
  have clean: "\<forall>l \<in> set ?ls. clean_line l" using clean_patch [OF e hs] by (simp add: ls)
  have "push_delta (join_with newline (patch_lines e hs)) parser_default = Inr (?q\<lparr>pp_line_buffer := END_PATCH_MARKER\<rparr>)"
    unfolding ls join_unlines using push_lines [OF clean, of parser_default END_PATCH_MARKER] n(1)
    by (simp add: parser_default_def push_no_newline del: process_lines.simps)
  moreover have "finish (?q\<lparr>pp_line_buffer := END_PATCH_MARKER\<rparr>) = Inr (?q\<lparr>pp_line_number := Suc n, pp_mode := EndedPatch\<rparr>)"
  proof -
    have "ensure_update_hunk_is_not_empty END_PATCH_MARKER (?q\<lparr>pp_line_number := Suc n\<rparr>) = None"
      using n(2) unfolding ready_def by blast
    then show ?thesis by (simp add: finish_def finish_line_def END parser_default_def) (simp add: patch_markers)
  qed
  ultimately show ?thesis
    unfolding parse_patch_def str_lines_patch(1) [OF e hs] bounds by (simp add: parser_default_def)
qed





end
