(* ===== verification/PatchSafe.thy ===== *)
theory PatchSafe
  imports PatchApply PatchPrint
begin

text \<open>
  Properties of applying a patch: an update replaces the lines it names, in order, and never
  panics; nothing outside the working directory changes.
\<close>

subsection \<open>Where lines are found\<close>

lemma dropWhile_rev_commute: "dropWhile P (rev (dropWhile P (rev s))) = rev (dropWhile P (rev (dropWhile P s)))"
proof (cases "dropWhile P s")
  case Nil
  then have "dropWhile P (rev s) = []" by (simp add: dropWhile_eq_Nil_conv)
  then show ?thesis by (simp only: Nil) simp
next
  case (Cons x t)
  let ?a = "takeWhile P s"
  have x: "\<not> P x" using Cons by (metis dropWhile_eq_Cons_conv)
  have "rev s = rev (x # t) @ rev ?a" using Cons by (metis rev_append takeWhile_dropWhile_id)
  then have "dropWhile P (rev s) = dropWhile P (rev (x # t)) @ rev ?a"
    using x by (simp only:) (rule dropWhile_append1 [of x], simp_all)
  then have "dropWhile P (rev (dropWhile P (rev s))) = dropWhile P (?a @ rev (dropWhile P (rev (x # t))))" by simp
  also have "\<dots> = dropWhile P (rev (dropWhile P (rev (x # t))))"
    by (rule dropWhile_append2) (auto dest: set_takeWhileD)
  also have "dropWhile P (rev (x # t)) = dropWhile P (rev t) @ (if dropWhile P (rev t) = [] then [x] else [x])"
    using x by (cases "\<exists>y \<in> set t. \<not> P y") (auto simp: dropWhile_append1 dropWhile_append3 dropWhile_eq_Nil_conv)
  finally show ?thesis using Cons x by (auto simp: dropWhile_append1 dropWhile_append3)
qed

lemma utrim_utrim_end: "utrim s = dropWhile is_white (utrim_end s)"
  by (simp add: utrim_def trim_matches_def utrim_end_def dropWhile_rev_commute)

lemma matches_weaken:
  assumes "matches_at f ls pattern i" and "f \<in> {id, utrim_end, utrim, normalise}"
  shows "matches_at normalise ls pattern i"
proof -
  have "\<exists>g. \<forall>s. normalise s = g (f s)"
    using assms(2)
    by (elim insertE emptyE) (auto simp: normalise_def utrim_utrim_end intro: exI [of _ normalise]
        exI [of _ "\<lambda>t. map normalise_char (dropWhile is_white t)"] exI [of _ "map normalise_char"] exI [of _ id])
  then obtain g where g: "\<forall>s. normalise s = g (f s)" by blast
  have norm: "map normalise xs = map g (map f xs)" for xs using g by simp
  show ?thesis using assms(1) unfolding matches_at_def norm by (rule arg_cong)
qed

lemma seek_pass_Some:
  assumes "seek_pass f ls pattern k = Some i"
  shows "matches_at f ls pattern i \<and> k \<le> i \<and> i \<le> length ls - length pattern"
proof -
  have "i \<in> set [k..<Suc (length ls - length pattern)]" "matches_at f ls pattern i"
    using assms unfolding seek_pass_def find_Some_iff by (metis nth_mem)+
  then show ?thesis by auto
qed

lemma seek_sequence_Some:
  assumes "seek_sequence ls pattern start eof = Some i" and "start \<le> length ls"
  shows "i + length pattern \<le> length ls \<and> matches_at normalise ls pattern i \<and> (\<not> eof \<longrightarrow> start \<le> i)"
proof (cases "pattern = []")
  case True
  then show ?thesis using assms by (auto simp: seek_sequence_def matches_at_def)
next
  case False
  then have len: "length pattern \<le> length ls" using assms(1) by (auto simp: seek_sequence_def split: if_splits)
  let ?k = "if eof \<and> length pattern \<le> length ls then length ls - length pattern else start"
  obtain f where "f \<in> {id, utrim_end, utrim, normalise}" "seek_pass f ls pattern ?k = Some i"
    using assms(1) False len by (auto simp: seek_sequence_def Let_def split: option.splits if_splits)
  with seek_pass_Some [OF this(2)] matches_weaken len show ?thesis by (auto split: if_splits)
qed


subsection \<open>Replacements\<close>

lemma vec_remove_pow: "(vec_remove i ^^ n) xs = take i xs @ drop (i + n) xs"
proof (induction n arbitrary: xs)
  case (Suc n)
  have "(vec_remove i ^^ Suc n) xs = (vec_remove i ^^ n) (vec_remove i xs)" by (simp add: funpow_swap1)
  also have "\<dots> = take i (vec_remove i xs) @ drop (i + n) (vec_remove i xs)" by (rule Suc)
  also have "\<dots> = take i xs @ drop (i + Suc n) xs" by (auto simp: vec_remove_def min_def add.commute)
  finally show ?case .
qed simp

lemma insert_all_eq: "i \<le> length xs \<Longrightarrow> insert_all i ns xs = Some (take i xs @ ns @ drop i xs)"
  by (induction ns arbitrary: i xs) (auto simp: vec_insert_def min_def)

definition replace_at :: "replacement \<Rightarrow> ustring list \<Rightarrow> ustring list" where
  "replace_at r ls = (case r of (i, n, new) \<Rightarrow> take i ls @ new @ drop (i + n) ls)"

lemma apply_backwards_Cons:
  "i \<le> length ls \<Longrightarrow> apply_backwards ((i, n, new) # rs) ls = apply_backwards rs (replace_at (i, n, new) ls)"
  by (simp add: vec_remove_pow insert_all_eq replace_at_def min_def)

lemma apply_backwards_sorted:
  \<comment> \<open>no insertion is out of range as long as the positions come in descending order\<close>
  "sorted (rev (map fst rs)) \<Longrightarrow> rs = [] \<or> fst (hd rs) \<le> length ls \<Longrightarrow>
   apply_backwards rs ls = Some (fold replace_at rs ls)"
proof (induction rs arbitrary: ls)
  case (Cons r rs)
  obtain i n new where r: "r = (i, n, new)" by (cases r)
  have "rs = [] \<or> fst (hd rs) \<le> i" using Cons.prems(1) r by (cases rs) (auto simp: sorted_append)
  then have "rs = [] \<or> fst (hd rs) \<le> length (replace_at r ls)" using Cons.prems(2) r by (auto simp: replace_at_def min_def)
  then show ?case using Cons r by (simp add: apply_backwards_Cons sorted_append del: apply_backwards.simps(2))
qed simp

lemma locate_chunks_range:
  "locate_chunks ls p i cs = Inr rs \<Longrightarrow> i \<le> length ls \<Longrightarrow> \<forall>(s, n, new) \<in> set rs. s + n \<le> length ls"
proof (induction cs arbitrary: i rs)
  case (Cons c cs)
  obtain j where j: "(case change_context c of None \<Rightarrow> Some i
      | Some ctx \<Rightarrow> map_option Suc (seek_sequence ls [ctx] i False)) = Some j"
    using Cons.prems(1) by (auto split: option.splits)
  have jl: "j \<le> length ls"
    using j Cons.prems(2) seek_sequence_Some [of ls _ i False] by (fastforce split: option.splits)
  show ?case
  proof (cases "old_lines c = []")
    case True
    then obtain rs' where "locate_chunks ls p j cs = Inr rs'" "set rs \<subseteq> insert (if ls \<noteq> [] \<and> last ls = [] then length ls - 1 else length ls, 0, new_lines c) (set rs')"
      using Cons.prems(1) j by (auto simp: Let_def split: sum.splits)
    with Cons.IH [OF this(1) jl] show ?thesis by (auto split: if_splits)
  next
    case False
    let ?found = "seek_sequence ls (old_lines c) j (is_end_of_file c)"
    let ?retry = "?found = None \<and> last (old_lines c) = []"
    let ?pattern = "if ?retry then butlast (old_lines c) else old_lines c"
    obtain start new rs' where st: "(if ?retry then seek_sequence ls ?pattern j (is_end_of_file c) else ?found) = Some start"
      "locate_chunks ls p (start + length ?pattern) cs = Inr rs'" "rs = (start, length ?pattern, new) # rs'"
      using Cons.prems(1) j False by (auto simp: Let_def split: sum.splits option.splits)
    have "seek_sequence ls ?pattern j (is_end_of_file c) = Some start" using st(1) by (auto split: if_splits)
    then have "start + length ?pattern \<le> length ls" using seek_sequence_Some jl by blast
    with Cons.IH [OF st(2)] st(3) show ?thesis by auto
  qed
qed simp

text \<open>
  However the chunks of an update lie, computing the new contents never inserts beyond the
  end of the lines: the result is the successive replacement from the last position to the first,
  and no panic is possible.
\<close>

theorem replacements_in_range:
  assumes "compute_replacements ls p cs = Inr rs"
  shows "apply_replacements ls rs = Some (foldr replace_at rs ls) \<and> (\<forall>(s, n, new) \<in> set rs. s + n \<le> length ls)"
proof -
  obtain rs' where rs': "locate_chunks ls p 0 cs = Inr rs'" "rs = sort_key fst rs'"
    using assms by (auto simp: compute_replacements_def split: sum.splits)
  then have range: "\<forall>(s, n, new) \<in> set rs. s + n \<le> length ls" using locate_chunks_range by fastforce
  have "sorted (map fst rs)" using rs'(2) by simp
  moreover have "rev rs = [] \<or> fst (hd (rev rs)) \<le> length ls"
    using range by (cases rs rule: rev_cases) (auto split: prod.splits)
  ultimately have "apply_backwards (rev rs) ls = Some (fold replace_at (rev rs) ls)"
    by (intro apply_backwards_sorted) (simp_all add: rev_map)
  then show ?thesis using range by (simp add: apply_replacements_def foldr_conv_fold)
qed

definition demo_chunk :: update_file_chunk where
  "demo_chunk = \<lparr>change_context = None, old_lines = [lit ''b ''], new_lines = [lit ''c'', lit ''d''], is_end_of_file = False\<rparr>"

lemma demo_chunk_located: "compute_replacements [lit ''a'', lit ''b''] [] [demo_chunk] = Inr [(1, 1, [lit ''c'', lit ''d''])]"
  by code_simp

subsection \<open>Updates in order\<close>

fun in_order :: "nat \<Rightarrow> replacement list \<Rightarrow> bool" where
  "in_order pos [] = True"
| "in_order pos ((s, n, new) # rs) = (pos \<le> s \<and> in_order (s + n) rs)"

fun splice :: "nat \<Rightarrow> ustring list \<Rightarrow> replacement list \<Rightarrow> ustring list" where
  \<comment> \<open>copy from a position on, with the regions replaced\<close>
  "splice pos ls [] = drop pos ls"
| "splice pos ls ((s, n, new) # rs) = take (s - pos) (drop pos ls) @ new @ splice (s + n) ls rs"

definition chunk_placed :: "ustring list \<Rightarrow> update_file_chunk \<Rightarrow> replacement \<Rightarrow> bool" where
  \<comment> \<open>the region holds the old lines up to white space and typography, possibly without an
    empty last one\<close>
  "chunk_placed ls c r =
     (case r of (s, n, new) \<Rightarrow>
        n = length (old_lines c) \<and> matches_at normalise ls (old_lines c) s \<and> new = new_lines c \<or>
        last (old_lines c) = [] \<and> n = length (butlast (old_lines c)) \<and> matches_at normalise ls (butlast (old_lines c)) s \<and>
        new = (if new_lines c \<noteq> [] \<and> last (new_lines c) = [] then butlast (new_lines c) else new_lines c))"

lemma in_order_sorted: "in_order pos rs \<Longrightarrow> sorted (map fst rs) \<and> (\<forall>r \<in> set rs. pos \<le> fst r)"
proof (induction pos rs rule: in_order.induct)
  case (2 pos s n new rs)
  then have IH: "sorted (map fst rs)" "\<forall>r \<in> set rs. s + n \<le> fst r" "pos \<le> s" by auto
  then have "\<forall>r \<in> set rs. s \<le> fst r" by fastforce
  with IH show ?case by fastforce
qed simp

lemma foldr_splice:
  "in_order pos rs \<Longrightarrow> pos \<le> length ls \<Longrightarrow> \<forall>(s, n, new) \<in> set rs. s + n \<le> length ls \<Longrightarrow>
   foldr replace_at rs ls = take pos ls @ splice pos ls rs"
proof (induction pos rs rule: in_order.induct)
  case (2 pos s n new rs)
  have "foldr replace_at rs ls = take (s + n) ls @ splice (s + n) ls rs" using 2 by auto
  moreover have "take s ls = take pos ls @ take (s - pos) (drop pos ls)"
    using 2(2) by (metis in_order.simps(2) le_add_diff_inverse take_add)
  ultimately show ?case using 2 by (simp add: replace_at_def min_def)
qed simp

lemma locate_chunks_in_order:
  "locate_chunks ls p i cs = Inr rs \<Longrightarrow> i \<le> length ls \<Longrightarrow> \<forall>c \<in> set cs. old_lines c \<noteq> [] \<and> \<not> is_end_of_file c \<Longrightarrow>
   in_order i rs \<and> list_all2 (chunk_placed ls) cs rs"
proof (induction cs arbitrary: i rs)
  case (Cons c cs)
  have old: "old_lines c \<noteq> []" and eof: "\<not> is_end_of_file c" using Cons.prems(3) by simp_all
  obtain j where j: "(case change_context c of None \<Rightarrow> Some i
      | Some ctx \<Rightarrow> map_option Suc (seek_sequence ls [ctx] i False)) = Some j"
    using Cons.prems(1) by (auto split: option.splits)
  have jl: "i \<le> j" "j \<le> length ls"
    using j Cons.prems(2) seek_sequence_Some [of ls _ i False] by (fastforce split: option.splits)+
  let ?found = "seek_sequence ls (old_lines c) j (is_end_of_file c)"
  let ?retry = "?found = None \<and> last (old_lines c) = []"
  let ?pattern = "if ?retry then butlast (old_lines c) else old_lines c"
  let ?new = "if ?retry \<and> new_lines c \<noteq> [] \<and> last (new_lines c) = [] then butlast (new_lines c) else new_lines c"
  obtain start rs' where st: "(if ?retry then seek_sequence ls ?pattern j (is_end_of_file c) else ?found) = Some start"
    "locate_chunks ls p (start + length ?pattern) cs = Inr rs'" "rs = (start, length ?pattern, ?new) # rs'"
    using Cons.prems(1) old j by (auto simp: Let_def split: sum.splits option.splits)
  have "seek_sequence ls ?pattern j (is_end_of_file c) = Some start" using st(1) by (auto split: if_splits)
  note at = seek_sequence_Some [OF this jl(2)]
  then have "in_order (start + length ?pattern) rs' \<and> list_all2 (chunk_placed ls) cs rs'"
    using Cons.IH [OF st(2)] Cons.prems(3) by simp
  moreover have "chunk_placed ls c (start, length ?pattern, ?new)"
    using at by (auto simp: chunk_placed_def split: if_splits)
  ultimately show ?case using at jl(1) st(3) eof by simp
qed simp



text \<open>
  With the mark for the end of the file only the last position is tried; the search does not
  fall back to the rest of the file.
\<close>

theorem eof_search_only_at_end:
  assumes "seek_sequence ls pattern start True = Some i" and "pattern \<noteq> []"
  shows "i = length ls - length pattern"
proof -
  have len: "length pattern \<le> length ls" using assms by (auto simp: seek_sequence_def split: if_splits)
  obtain f where "seek_pass f ls pattern (length ls - length pattern) = Some i"
    using assms len by (auto simp: seek_sequence_def Let_def split: option.splits if_splits)
  from seek_pass_Some [OF this] show ?thesis by simp
qed

text \<open>
  A chunk that only adds lines adds them at the end of the file (before an empty last line),
  wherever its context is.
\<close>

theorem addition_ignores_context:
  assumes "compute_replacements ls p [c] = Inr rs" and "old_lines c = []"
  shows "rs = [(if ls \<noteq> [] \<and> last ls = [] then length ls - 1 else length ls, 0, new_lines c)]"
  using assms by (auto simp: compute_replacements_def Let_def split: option.splits sum.splits)

text \<open>
  Such an addition before an empty last line that an earlier chunk replaces is lost: the
  regions overlap, and the removal for the earlier chunk takes the added line.
\<close>

theorem addition_lost:
  "compute_replacements [lit ''a'', []] [] 
     [\<lparr>change_context = None, old_lines = [lit ''a'', []], new_lines = [lit ''b'', []], is_end_of_file = False\<rparr>,
      \<lparr>change_context = None, old_lines = [], new_lines = [lit ''c''], is_end_of_file = False\<rparr>] =
     Inr [(0, 2, [lit ''b'', []]), (1, 0, [lit ''c''])]"
  "apply_replacements [lit ''a'', []] [(0, 2, [lit ''b'', []]), (1, 0, [lit ''c''])] = Some [lit ''b'', [], []]"
  by code_simp+


subsection \<open>Paths stay inside\<close>

lemma starts_with_iff: "starts_with s p \<longleftrightarrow> (\<exists>r. s = p @ r)"
  unfolding starts_with_def strip_prefix_def by (auto, metis append_take_drop_id)

definition norm_shape :: "path \<Rightarrow> bool" where
  "norm_shape p \<longleftrightarrow> (\<exists>a b. p = a @ b \<and> (\<forall>c \<in> set a. \<not> is_normal c) \<and> (\<forall>c \<in> set b. is_normal c))"

lemma norm_step_shape:
  assumes "norm_shape out" and "c = RootDir \<Longrightarrow> out = []"
  shows "norm_shape (norm_step c out)"
proof -
  obtain a b where ab: "out = a @ b" "\<forall>c \<in> set a. \<not> is_normal c" "\<forall>c \<in> set b. is_normal c"
    using assms(1) by (auto simp: norm_shape_def)
  show ?thesis
  proof (cases c)
    case ParentDir
    show ?thesis
    proof (cases b rule: rev_cases)
      case Nil
      then have "norm_step c out = (a @ [ParentDir]) @ []" using ab ParentDir by (auto simp: norm_step_def)
      moreover have "\<forall>c \<in> set (a @ [ParentDir]). \<not> is_normal c" using ab(2) by auto
      ultimately show ?thesis unfolding norm_shape_def by (metis empty_iff empty_set)
    next
      case (snoc b' x)
      then have "norm_step c out = a @ b'" using ab ParentDir by (simp add: norm_step_def butlast_append)
      then show ?thesis using ab snoc unfolding norm_shape_def by auto
    qed
  next
    case (Normal s)
    then have "norm_step c out = a @ (b @ [Normal s])" using ab by (simp add: norm_step_def)
    moreover have "\<forall>c \<in> set (b @ [Normal s]). is_normal c" using ab(3) by auto
    ultimately show ?thesis using ab(2) unfolding norm_shape_def by blast
  next
    case RootDir
    then have "norm_step c out = [RootDir] @ []" using assms(2) by (simp add: norm_step_def)
    then show ?thesis unfolding norm_shape_def by (intro exI [of _ "[RootDir]"] exI [of _ "[]"]) simp
  qed (use assms(1) in \<open>simp add: norm_step_def\<close>)
qed

lemma norm_fold_shape: "norm_shape out \<Longrightarrow> RootDir \<notin> set p \<Longrightarrow> norm_shape (fold norm_step p out)"
proof (induction p arbitrary: out)
  case (Cons c p)
  have "norm_shape (norm_step c out)" using Cons.prems by (intro norm_step_shape) simp_all
  then show ?case using Cons by simp
qed simp

lemma normalize_shape:
  assumes "RootDir \<notin> set (tl p)"
  shows "norm_shape (normalize_lexically p)"
proof (cases p)
  case (Cons c cs)
  have "norm_shape (norm_step c [])" by (rule norm_step_shape) (auto simp: norm_shape_def)
  then show ?thesis using assms Cons norm_fold_shape by (simp add: normalize_lexically_def)
qed (auto simp: normalize_lexically_def norm_shape_def)

lemma components_root: "RootDir \<notin> set (tl (components s))" "\<not> is_absolute (components s) \<Longrightarrow> RootDir \<notin> set (components s)"
proof -
  define body where "body = map segment (filter (\<lambda>x. x \<noteq> [] \<and> x \<noteq> lit ''.'') (split_on 47 s))"
  have body: "RootDir \<notin> set body" by (auto simp: body_def segment_def)
  then have tl: "RootDir \<notin> set (tl body)" by (cases body) auto
  have "components s = (if starts_with s [47] then RootDir # body else if hd (split_on 47 s) = lit ''.'' then CurDir # body else body)"
    by (simp add: components_def body_def Let_def)
  with body tl show "RootDir \<notin> set (tl (components s))" "\<not> is_absolute (components s) \<Longrightarrow> RootDir \<notin> set (components s)"
    by (auto simp: is_absolute_def split: if_splits)
qed

lemma resolve_inside:
  assumes "resolve_patch_path canon (components s) base root = Inr target"
    and base: "RootDir \<notin> set (tl base)" and root: "normalize_lexically root \<noteq> []" "is_normal (last (normalize_lexically root))"
  shows "\<exists>rest. target = normalize_lexically root @ rest \<and> (\<forall>c \<in> set rest. is_normal c)"
proof -
  let ?joined = "if is_absolute (components s) then components s else base @ components s"
  let ?b = "normalize_lexically root"
  have target: "target = normalize_lexically ?joined" "starts_with target ?b"
    using assms(1) by (auto simp: resolve_patch_path_def Let_def split: if_splits option.splits)
  have "RootDir \<notin> set (tl ?joined)" using base components_root [of s] by (cases base) auto
  then obtain a n where an: "target = a @ n" "\<forall>c \<in> set a. \<not> is_normal c" "\<forall>c \<in> set n. is_normal c"
    using normalize_shape target(1) unfolding norm_shape_def by blast
  obtain rest where rest: "target = ?b @ rest" using target(2) by (auto simp: starts_with_iff)
  have "length a < length ?b"
  proof (rule ccontr)
    assume "\<not> length a < length ?b"
    then have "?b = take (length ?b) a" using an(1) rest by (metis append_eq_conv_conj not_less take_append diff_is_0_eq take_0 append_Nil2)
    then have "last ?b \<in> set a" using root(1) by (metis in_set_takeD last_in_set)
    with an(2) root(2) show False by blast
  qed
  then have "rest = drop (length ?b - length a) n" using an(1) rest
    by (metis append_eq_conv_conj drop_append drop_all less_imp_le append_Nil)
  then show ?thesis using rest an(3) by (auto dest: in_set_dropD)
qed


subsection \<open>The file system stays inside\<close>

definition confined :: "path \<Rightarrow> file_system \<Rightarrow> file_system \<Rightarrow> bool" where
  \<comment> \<open>what changes lies below the boundary, or is a missing directory on the way to it\<close>
  "confined b fs fs' \<longleftrightarrow>
     (\<forall>q. hm_get fs' q \<noteq> hm_get fs q \<longrightarrow>
        (\<exists>rest. q = b @ rest \<and> (\<forall>c \<in> set rest. is_normal c)) \<or>
        (\<exists>r. b = q @ r) \<and> hm_get fs q = None \<and> hm_get fs' q = Some Directory)"

definition inside :: "path \<Rightarrow> path \<Rightarrow> bool" where
  "inside b p \<longleftrightarrow> (\<exists>rest. p = b @ rest \<and> (\<forall>c \<in> set rest. is_normal c))"

lemma confined_refl [simp]: "confined b fs fs"
  by (simp add: confined_def)

lemma confined_trans: "confined b fs fs1 \<Longrightarrow> confined b fs1 fs2 \<Longrightarrow> confined b fs fs2"
  unfolding confined_def by (metis option.distinct(1))

lemma confined_at: "inside b p \<Longrightarrow> (\<And>q. q \<noteq> p \<Longrightarrow> hm_get fs' q = hm_get fs q) \<Longrightarrow> confined b fs fs'"
  unfolding confined_def inside_def by metis

lemma make_dirs_effect:
  "make_dirs ps fs = Inr fs' \<Longrightarrow>
   hm_get fs' q = hm_get fs q \<or> q \<in> set ps \<and> hm_get fs q = None \<and> hm_get fs' q = Some Directory"
proof (induction ps arbitrary: fs)
  case (Cons p ps)
  show ?case
  proof (cases "is_dir fs p")
    case True
    then show ?thesis using Cons by auto
  next
    case False
    with Cons.prems have "hm_get fs p = None" "make_dirs ps (hm_insert p Directory fs) = Inr fs'" by (auto split: if_splits)
    with Cons.IH [OF this(2)] show ?thesis by (auto simp: hm_simps split: if_splits)
  qed
qed simp

lemma inside_prefix:
  assumes "inside b p" "q = take n (butlast p)"
  shows "inside b q \<or> (\<exists>r. b = q @ r)"
proof -
  obtain rest where rest: "p = b @ rest" "\<forall>c \<in> set rest. is_normal c" using assms(1) by (auto simp: inside_def)
  have q: "q = take (min n (length p - 1)) p" by (simp add: assms(2) butlast_conv_take)
  show ?thesis
  proof (cases "min n (length p - 1) \<le> length b")
    case True
    then have "q = take (min n (length p - 1)) b" using q rest(1) by simp
    then show ?thesis by (metis append_take_drop_id)
  next
    case False
    then have "q = b @ take (min n (length p - 1) - length b) rest" using q rest(1) by (auto simp: not_le)
    then show ?thesis using rest(2) unfolding inside_def by (metis in_set_takeD)
  qed
qed

lemma write_creating_confined:
  assumes "inside b p" "write_creating p contents fs = (e, fs')"
  shows "confined b fs fs'"
proof -
  let ?mk = "if p \<noteq> [] \<and> p \<noteq> [RootDir] then create_dir_all (butlast p) fs else Inr fs"
  show ?thesis
  proof (cases ?mk)
    case (Inl e')
    then show ?thesis using assms(2) by (simp add: write_creating_def)
  next
    case (Inr fs1)
    have "confined b fs fs1"
    proof (cases "p \<noteq> [] \<and> p \<noteq> [RootDir]")
      case True
      then have mk: "make_dirs (map (\<lambda>n. take n (butlast p)) [1..<Suc (length (butlast p))]) fs = Inr fs1"
        using Inr by (simp add: create_dir_all_def)
      show ?thesis unfolding confined_def
      proof (intro allI impI)
        fix q assume "hm_get fs1 q \<noteq> hm_get fs q"
        with make_dirs_effect [OF mk, of q] obtain n where "q = take n (butlast p)" "hm_get fs q = None" "hm_get fs1 q = Some Directory"
          by auto
        with inside_prefix [OF assms(1) this(1)]
        show "(\<exists>rest. q = b @ rest \<and> (\<forall>c \<in> set rest. is_normal c)) \<or>
            (\<exists>r. b = q @ r) \<and> hm_get fs q = None \<and> hm_get fs1 q = Some Directory" by (auto simp: inside_def)
      qed
    qed (use Inr in auto)
    moreover have "confined b fs1 fs'"
      using assms Inr by (auto simp: write_creating_def fs_write_def hm_simps intro!: confined_at [OF assms(1)] split: if_splits)
    ultimately show ?thesis by (rule confined_trans)
  qed
qed

lemma remove_file_confined: "inside b p \<Longrightarrow> remove_file p fs = Inr fs' \<Longrightarrow> confined b fs fs'"
  by (rule confined_at) (auto simp: remove_file_def hm_simps split: if_splits)

lemma fs_write_confined: "inside b p \<Longrightarrow> fs_write p contents fs = Inr fs' \<Longrightarrow> confined b fs fs'"
  by (rule confined_at) (auto simp: fs_write_def hm_simps split: if_splits)

lemma apply_ops_confined:
  assumes "inside b p"
  shows "confined b (as_fs st) (as_fs (snd (apply_add p contents st)))"
    and "confined b (as_fs st) (as_fs (snd (apply_delete p st)))"
    and "confined b (as_fs st) (as_fs (snd (apply_update p contents st)))"
    and "inside b dest \<Longrightarrow> confined b (as_fs st) (as_fs (snd (apply_move p dest contents st)))"
  using assms
  by (auto simp: apply_add_def apply_delete_def apply_update_def apply_move_def
      intro: write_creating_confined remove_file_confined fs_write_confined
        confined_trans [OF write_creating_confined remove_file_confined]
      split: prod.split option.split sum.split)


lemma apply_hunk_confined:
  assumes base: "RootDir \<notin> set (tl base)" and root: "normalize_lexically root \<noteq> []" "is_normal (last (normalize_lexically root))"
  shows "confined (normalize_lexically root) (as_fs st) (as_fs (snd (apply_hunk canon base root h st)))"
proof -
  let ?b = "normalize_lexically root"
  let ?resolve = "\<lambda>s. resolve_patch_path (canon (as_fs st)) (components s) base root"
  have inside: "inside ?b p" if "?resolve s = Inr p" for s p
    using resolve_inside [OF that base root] by (simp add: inside_def)
  note ops = apply_ops_confined [OF inside]
  show ?thesis
  proof (cases h)
    case (AddFile s contents)
    then show ?thesis by (cases "?resolve s") (auto simp: apply_hunk_def intro: ops(1))
  next
    case (DeleteFile s)
    then show ?thesis by (cases "?resolve s") (auto simp: apply_hunk_def intro: ops(2))
  next
    case (UpdateFile s m cs)
    show ?thesis
    proof (cases "?resolve s")
      case (Inr p)
      note r = Inr
      show ?thesis
      proof (cases "derive_new_contents (as_fs st) p cs")
        case (Some d)
        show ?thesis
        proof (cases d)
          case (Inr contents)
          show ?thesis
          proof (cases m)
            case None
            then show ?thesis using UpdateFile r Some Inr ops(3) [OF r] by (simp add: apply_hunk_def)
          next
            case (Some dest)
            then show ?thesis using UpdateFile r \<open>derive_new_contents (as_fs st) p cs = Some d\<close> Inr
                ops(4) [OF r inside, of dest _ st contents] by (cases "?resolve dest") (auto simp: apply_hunk_def)
          qed
        qed (use UpdateFile r Some in \<open>simp add: apply_hunk_def\<close>)
      qed (use UpdateFile r in \<open>simp add: apply_hunk_def\<close>)
    qed (use UpdateFile in \<open>simp add: apply_hunk_def\<close>)
  qed
qed

lemma apply_each_confined:
  assumes "RootDir \<notin> set (tl base)" "normalize_lexically root \<noteq> []" "is_normal (last (normalize_lexically root))"
  shows "confined (normalize_lexically root) (as_fs st) (as_fs (snd (apply_each canon base root hs st)))"
proof (induction hs arbitrary: st)
  case (Cons h hs)
  have "confined (normalize_lexically root) (as_fs st) (as_fs (snd (apply_hunk canon base root h st)))"
    using apply_hunk_confined [OF assms] .
  then show ?case using Cons by (auto intro: confined_trans split: prod.split option.split)
qed simp



text \<open>
  An update with a move writes the new contents to the destination and then removes the
  source; when both resolve to the same path, as in a move of a file onto itself, the
  hunk succeeds and the file is gone.
\<close>

theorem move_onto_itself_deletes:
  assumes "resolve_patch_path (canon (as_fs st)) (components s) base root = Inr p"
    and "resolve_patch_path (canon (as_fs st)) (components d) base root = Inr p"
    and "apply_hunk canon base root (UpdateFile s (Some d) cs) st = (None, st')"
  shows "is_file (as_fs st) p \<and> hm_get (as_fs st') p = None \<and> as_modified st' = as_modified st @ [p]"
proof -
  obtain contents where c: "derive_new_contents (as_fs st) p cs = Some (Inr contents)"
    "apply_move p p contents st = (None, st')"
    using assms by (auto simp: apply_hunk_def split: option.splits sum.splits)
  have "is_file (as_fs st) p"
    using c(1) by (auto simp: derive_new_contents_def read_to_string_def is_file_def split: option.splits entry.splits sum.splits)
  moreover obtain fs fs' where "remove_file p fs = Inr fs'" "st' = st\<lparr>as_fs := fs', as_modified := as_modified st @ [p]\<rparr>"
    using c(2) by (auto simp: apply_move_def split: prod.splits option.splits sum.splits)
  then have "hm_get (as_fs st') p = None" "as_modified st' = as_modified st @ [p]"
    by (auto simp: remove_file_def hm_simps split: if_splits)
  ultimately show ?thesis by blast
qed

end
