(* ===== verification/ForgeApproval.thy ===== *)
theory ForgeApproval
  imports PatchSafe
begin

text \<open>
  Who may run what: the execution policy (\<^verbatim>\<open>pulsing-forge/src/execpolicy/policy.rs\<close>), the cache of
  approvals and permission grants (\<^verbatim>\<open>approval/mod.rs\<close>, \<^verbatim>\<open>approval/types.rs\<close>) and the gate that every shell
  command passes (\<^verbatim>\<open>approval/gate.rs\<close>). Splitting a command into words (the crate \<^verbatim>\<open>shlex\<close>) and the
  answer of the host to an approval request are arguments.
\<close>

subsection \<open>JSON values\<close>

datatype json =
    JNull
  | JBool bool
  | JNumber string
  | JString string
  | JArray "json list"
  | JObject "(string \<times> json) list"

fun as_str :: "json \<Rightarrow> string option" where
  "as_str (JString s) = Some s" | "as_str _ = None"

fun as_bool :: "json \<Rightarrow> bool option" where
  "as_bool (JBool b) = Some b" | "as_bool _ = None"

fun as_array :: "json \<Rightarrow> json list option" where
  "as_array (JArray a) = Some a" | "as_array _ = None"

fun as_object :: "json \<Rightarrow> (string \<times> json) list option" where
  "as_object (JObject m) = Some m" | "as_object _ = None"

definition jget :: "string \<Rightarrow> json \<Rightarrow> json option" where
  "jget key v = Option.bind (as_object v) (\<lambda>m. map_of m key)"

definition get_str :: "string \<Rightarrow> json \<Rightarrow> string option" where
  "get_str key v = Option.bind (jget key v) as_str"

subsection \<open>The execution policy\<close>

datatype decision = Allow | Prompt | Forbidden

fun severity :: "decision \<Rightarrow> nat" where
  "severity Allow = 0"
| "severity Prompt = 1"
| "severity Forbidden = 2"

instantiation decision :: linorder
begin

definition less_eq_decision :: "decision \<Rightarrow> decision \<Rightarrow> bool" where
  "less_eq_decision a b \<longleftrightarrow> severity a \<le> severity b"

definition less_decision :: "decision \<Rightarrow> decision \<Rightarrow> bool" where
  "less_decision a b \<longleftrightarrow> severity a < severity b"

instance
proof
  fix a b :: decision
  show "a \<le> b \<Longrightarrow> b \<le> a \<Longrightarrow> a = b" by (cases a; cases b) (simp_all add: less_eq_decision_def)
qed (auto simp: less_eq_decision_def less_decision_def)

end

record prefix_rule =
  pr_pattern :: "string list"
  pr_decision :: decision
  pr_justification :: "string option"

definition rule_matches :: "prefix_rule \<Rightarrow> string list \<Rightarrow> bool" where
  "rule_matches r cmd \<longleftrightarrow>
     \<not> length cmd < length (pr_pattern r) \<and> (\<forall>(a, b) \<in> set (zip cmd (pr_pattern r)). a = b)"

record policy_match =
  pm_decision :: decision
  pm_matched_prefix :: "string list"
  pm_justification :: "string option"

definition default_codex_like :: "prefix_rule list" where
  "default_codex_like =
     [\<lparr>pr_pattern = [''git'', ''reset'', ''--hard''], pr_decision = Forbidden,
       pr_justification = Some ''destructive git reset --hard''\<rparr>,
      \<lparr>pr_pattern = [''rm'', ''-rf''], pr_decision = Prompt, pr_justification = Some ''recursive force delete''\<rparr>,
      \<lparr>pr_pattern = [''curl''], pr_decision = Prompt, pr_justification = Some ''network access via curl''\<rparr>,
      \<lparr>pr_pattern = [''wget''], pr_decision = Prompt, pr_justification = Some ''network access via wget''\<rparr>,
      \<lparr>pr_pattern = [''sudo''], pr_decision = Forbidden, pr_justification = Some ''elevated privileges''\<rparr>]"

definition add_allow_prefix :: "string list \<Rightarrow> prefix_rule list \<Rightarrow> prefix_rule list" where
  "add_allow_prefix prefix rules =
     (if prefix = [] then rules
      else filter (\<lambda>r. pr_pattern r \<noteq> prefix) rules @
           [\<lparr>pr_pattern = prefix, pr_decision = Allow, pr_justification = None\<rparr>])"

definition better_rule :: "string list \<Rightarrow> prefix_rule \<Rightarrow> prefix_rule option \<Rightarrow> prefix_rule option" where
  "better_rule cmd r best =
     (if \<not> rule_matches r cmd then best
      else case best of
        None \<Rightarrow> Some r
      | Some prev \<Rightarrow>
          if length (pr_pattern r) > length (pr_pattern prev) then Some r
          else if length (pr_pattern r) = length (pr_pattern prev) \<and> pr_decision r > pr_decision prev then Some r
          else best)"

definition evaluate :: "prefix_rule list \<Rightarrow> string list \<Rightarrow> policy_match" where
  "evaluate rules cmd =
     (case fold (better_rule cmd) rules None of
        Some r \<Rightarrow> \<lparr>pm_decision = pr_decision r, pm_matched_prefix = pr_pattern r, pm_justification = pr_justification r\<rparr>
      | None \<Rightarrow> \<lparr>pm_decision = Prompt, pm_matched_prefix = cmd, pm_justification = Some ''no matching execpolicy rule''\<rparr>)"

subsection \<open>Permission profiles\<close>

record permission_profile =
  pp_network :: "json option"
  pp_file_system :: "json option"

definition profile_default :: permission_profile where
  "profile_default = \<lparr>pp_network = None, pp_file_system = None\<rparr>"

definition empty_array :: "json option \<Rightarrow> bool" where
  \<comment> \<open>absent, no array, or an array without elements\<close>
  "empty_array v = (case Option.bind v as_array of None \<Rightarrow> True | Some a \<Rightarrow> a = [])"

fun is_permission_section_empty :: "json \<Rightarrow> bool" where
  "is_permission_section_empty JNull = True"
| "is_permission_section_empty (JObject m) =
     (if m = [] then True
      else if length m = 1 \<and> map_of m ''enabled'' = Some JNull then True
      else case Option.bind (map_of m ''entries'') as_array of
        Some entries \<Rightarrow> entries = []
      | None \<Rightarrow>
          if map_of m ''read'' \<noteq> None \<or> map_of m ''write'' \<noteq> None
          then empty_array (map_of m ''read'') \<and> empty_array (map_of m ''write'')
          else False)"
| "is_permission_section_empty _ = False"

definition is_effectively_empty :: "permission_profile \<Rightarrow> bool" where
  "is_effectively_empty p \<longleftrightarrow>
     (case pp_network p of None \<Rightarrow> True | Some v \<Rightarrow> is_permission_section_empty v) \<and>
     (case pp_file_system p of None \<Rightarrow> True | Some v \<Rightarrow> is_permission_section_empty v)"

definition network_enabled :: "permission_profile \<Rightarrow> bool" where
  "network_enabled p =
     (case Option.bind (Option.bind (pp_network p) (jget ''enabled'')) as_bool of Some b \<Rightarrow> b | None \<Rightarrow> False)"

definition array_strings :: "string \<Rightarrow> (string \<times> json) list \<Rightarrow> string list" where
  "array_strings key m =
     (case Option.bind (map_of m key) as_array of None \<Rightarrow> [] | Some a \<Rightarrow> List.map_filter as_str a)"

definition entry_path :: "json \<Rightarrow> string option" where
  "entry_path entry =
     (case jget ''path'' entry of
        None \<Rightarrow> None
      | Some (JString s) \<Rightarrow> Some s
      | Some v \<Rightarrow> if get_str ''type'' v = Some ''path'' then get_str ''path'' v else None)"

definition collect_file_system_path_strings :: "json \<Rightarrow> string list" where
  "collect_file_system_path_strings fs =
     (case as_object fs of
        None \<Rightarrow> []
      | Some m \<Rightarrow>
          array_strings ''read'' m @ array_strings ''write'' m @
          (case Option.bind (map_of m ''entries'') as_array of None \<Rightarrow> [] | Some a \<Rightarrow> List.map_filter entry_path a))"

definition resolve_permission_path :: "(path \<Rightarrow> io_error + path) \<Rightarrow> path \<Rightarrow> string \<Rightarrow> string + path" where
  "resolve_permission_path canon cwd raw =
     (let p = components (lit raw)
      in if is_absolute p then Inr (case canon p of Inr c \<Rightarrow> c | Inl _ \<Rightarrow> p)
         else if ParentDir \<in> set p
         then Inl (''file_system permission path must not contain '' @ [CHR 0x27] @ ''..'' @ [CHR 0x27] @ '': '' @ raw)
         else Inr (cwd @ filter (\<lambda>c. c \<noteq> CurDir) p))"

fun validate_each :: "(path \<Rightarrow> io_error + path) \<Rightarrow> path \<Rightarrow> string list \<Rightarrow> string option" where
  "validate_each canon root [] = None"
| "validate_each canon root (raw # raws) =
     (case resolve_permission_path canon root raw of
        Inl e \<Rightarrow> Some e
      | Inr resolved \<Rightarrow>
          if resolved \<noteq> root \<and> \<not> starts_with resolved root
          then Some (''file_system permission path outside working directory: '' @ raw)
          else validate_each canon root raws)"

definition validate_paths :: "(path \<Rightarrow> io_error + path) \<Rightarrow> path \<Rightarrow> permission_profile \<Rightarrow> string option" where
  \<comment> \<open>an error, if any\<close>
  "validate_paths canon cwd p =
     (case pp_file_system p of
        None \<Rightarrow> None
      | Some fs \<Rightarrow>
          validate_each canon (case canon cwd of Inr c \<Rightarrow> c | Inl _ \<Rightarrow> cwd) (collect_file_system_path_strings fs))"

subsection \<open>The approval cache\<close>

record approval_cache =
  ac_session_prefixes :: "string list list"
  ac_strict_auto_review :: bool
  ac_turn_grants :: "permission_profile option"
  ac_session_grants :: "permission_profile option"

definition cache_default :: approval_cache where
  "cache_default =
     \<lparr>ac_session_prefixes = [], ac_strict_auto_review = False, ac_turn_grants = None, ac_session_grants = None\<rparr>"

definition is_prefix_allowed :: "string list \<Rightarrow> approval_cache \<Rightarrow> bool" where
  "is_prefix_allowed cmd c \<longleftrightarrow> (\<exists>p \<in> set (ac_session_prefixes c). starts_with cmd p)"

definition allow_prefix_for_session :: "string list \<Rightarrow> approval_cache \<Rightarrow> approval_cache" where
  "allow_prefix_for_session prefix c =
     (if prefix = [] \<or> prefix \<in> set (ac_session_prefixes c) then c
      else c\<lparr>ac_session_prefixes := ac_session_prefixes c @ [prefix]\<rparr>)"

definition set_strict_auto_review :: "bool \<Rightarrow> approval_cache \<Rightarrow> approval_cache" where
  "set_strict_auto_review on c = c\<lparr>ac_strict_auto_review := on\<rparr>"

definition record_permission_grant :: "permission_profile \<Rightarrow> string \<Rightarrow> approval_cache \<Rightarrow> approval_cache" where
  "record_permission_grant p scope c =
     (if scope = ''session'' then c\<lparr>ac_session_grants := Some p\<rparr> else c\<lparr>ac_turn_grants := Some p\<rparr>)"

definition merge_key :: "(string \<times> json) list \<Rightarrow> string \<Rightarrow> (string \<times> json) list \<Rightarrow> (string \<times> json) list" where
  \<comment> \<open>the arrays under a key are united; what is no array stays\<close>
  "merge_key overlay key base =
     (case Option.bind (map_of overlay key) as_array of
        None \<Rightarrow> base
      | Some items \<Rightarrow>
          (case map_of base key of
             None \<Rightarrow> hm_insert key (JArray (fold (\<lambda>x acc. if x \<in> set acc then acc else acc @ [x]) items [])) base
           | Some (JArray old) \<Rightarrow>
               hm_insert key (JArray (fold (\<lambda>x acc. if x \<in> set acc then acc else acc @ [x]) items old)) base
           | Some _ \<Rightarrow> base))"

definition merge_file_system_json :: "json option \<Rightarrow> json \<Rightarrow> json" where
  "merge_file_system_json base overlay =
     (case (Option.bind base as_object, as_object overlay) of
        (Some b, Some v) \<Rightarrow> JObject (fold (merge_key v) [''read'', ''write'', ''entries''] b)
      | _ \<Rightarrow> overlay)"

definition effective_grants :: "approval_cache \<Rightarrow> permission_profile" where
  "effective_grants c =
     (case (ac_session_grants c, ac_turn_grants c) of
        (None, None) \<Rightarrow> profile_default
      | (Some s, None) \<Rightarrow> s
      | (None, Some t) \<Rightarrow> t
      | (Some s, Some t) \<Rightarrow>
          \<lparr>pp_network = (if pp_network t \<noteq> None then pp_network t else pp_network s),
           pp_file_system =
             (case pp_file_system t of
                None \<Rightarrow> pp_file_system s
              | Some t_fs \<Rightarrow> Some (merge_file_system_json (pp_file_system s) t_fs))\<rparr>)"

definition network_granted :: "approval_cache \<Rightarrow> bool" where
  "network_granted c = network_enabled (effective_grants c)"

definition clear_turn_state :: "approval_cache \<Rightarrow> approval_cache" where
  "clear_turn_state c = c\<lparr>ac_strict_auto_review := False, ac_turn_grants := None\<rparr>"

subsection \<open>The gate\<close>

datatype sandbox_policy = SandboxOff | Restricted | Bwrap

datatype approval_policy = OnRequest | Always | Never

datatype review_decision =
    Approved
  | ApprovedExecpolicyAmendment "string list"
  | ApprovedForSession
  | Denied
  | Abort

fun is_approved :: "review_decision \<Rightarrow> bool" where
  "is_approved Denied = False"
| "is_approved Abort = False"
| "is_approved _ = True"

record tool_call_context =
  tc_cwd :: path
  tc_cache :: approval_cache
  tc_rules :: "prefix_rule list"
  tc_approval_policy :: approval_policy
  tc_sandbox_policy :: sandbox_policy
  tc_dangerously_disable_sandbox :: bool

record exec_approval_request =
  er_command :: "string list"
  er_cwd :: path
  er_reason :: "string option"
  er_sandbox_permissions :: "string option"
  er_policy_decision :: decision
  er_justification :: "string option"
  er_proposed_amendment :: "string list option"

definition args_dangerously_disable_sandbox :: "tool_call_context \<Rightarrow> json \<Rightarrow> bool" where
  "args_dangerously_disable_sandbox ctx args =
     (case Option.bind (jget ''dangerously_disable_sandbox'' args) as_bool of
        Some b \<Rightarrow> b
      | None \<Rightarrow> tc_dangerously_disable_sandbox ctx)"

definition effective_sandbox_policy :: "tool_call_context \<Rightarrow> json \<Rightarrow> sandbox_policy" where
  "effective_sandbox_policy ctx args =
     (if args_dangerously_disable_sandbox ctx args then SandboxOff
      else case get_str ''sandbox_permissions'' args of
        Some perm \<Rightarrow>
          if perm = ''require_escalated'' then SandboxOff
          else if perm = ''with_additional_permissions'' then
            (if is_effectively_empty (effective_grants (tc_cache ctx)) then tc_sandbox_policy ctx else Restricted)
          else tc_sandbox_policy ctx
      | None \<Rightarrow> tc_sandbox_policy ctx)"

function split_whitespace :: "string \<Rightarrow> string list" where
  "split_whitespace s =
     (case dropWhile is_whitespace s of
        [] \<Rightarrow> []
      | c # cs \<Rightarrow> takeWhile (\<lambda>x. \<not> is_whitespace x) (c # cs) # split_whitespace (dropWhile (\<lambda>x. \<not> is_whitespace x) cs))"
  by auto
termination
proof (relation "measure length")
  fix s c cs
  assume "dropWhile is_whitespace s = c # cs"
  then have "length (c # cs) \<le> length s" by (metis length_dropWhile_le)
  moreover have "length (dropWhile (\<lambda>x. \<not> is_whitespace x) cs) \<le> length cs" by (rule length_dropWhile_le)
  ultimately show "(dropWhile (\<lambda>x. \<not> is_whitespace x) cs, s) \<in> measure length" by simp
qed simp

declare split_whitespace.simps [simp del]

definition tokenize_shell_command :: "(string \<Rightarrow> string list option) \<Rightarrow> string \<Rightarrow> string list" where
  "tokenize_shell_command shlex command =
     (case shlex command of Some ws \<Rightarrow> ws | None \<Rightarrow> split_whitespace command)"

fun apply_review_decision :: "tool_call_context \<Rightarrow> review_decision \<Rightarrow> string list \<Rightarrow> tool_call_context" where
  "apply_review_decision ctx ApprovedForSession tokens = ctx\<lparr>tc_cache := allow_prefix_for_session tokens (tc_cache ctx)\<rparr>"
| "apply_review_decision ctx (ApprovedExecpolicyAmendment amendment) tokens =
     ctx\<lparr>tc_rules := add_allow_prefix amendment (tc_rules ctx)\<rparr>"
| "apply_review_decision ctx _ tokens = ctx"

fun review_debug :: "review_decision \<Rightarrow> string" where
  "review_debug Denied = ''Denied''"
| "review_debug Abort = ''Abort''"
| "review_debug _ = []" \<comment> \<open>never printed: these decisions approve\<close>

definition needs_prompt :: "tool_call_context \<Rightarrow> json \<Rightarrow> decision \<Rightarrow> bool" where
  "needs_prompt ctx args d \<longleftrightarrow>
     d = Prompt \<or> get_str ''sandbox_permissions'' args = Some ''require_escalated'' \<or>
     ac_strict_auto_review (tc_cache ctx) \<or> get_str ''justification'' args \<noteq> None"

definition approval_reason :: "json \<Rightarrow> policy_match \<Rightarrow> string option" where
  "approval_reason args pm =
     (case Option.bind (case jget ''justification'' args of Some v \<Rightarrow> Some v | None \<Rightarrow> jget ''reason'' args) as_str of
        Some s \<Rightarrow> Some s
      | None \<Rightarrow>
          (case pm_justification pm of
             Some s \<Rightarrow> Some s
           | None \<Rightarrow>
               if get_str ''sandbox_permissions'' args = Some ''require_escalated''
               then Some ''sandbox_permissions=require_escalated'' else None))"

definition approval_request :: "tool_call_context \<Rightarrow> json \<Rightarrow> string list \<Rightarrow> policy_match \<Rightarrow> exec_approval_request" where
  "approval_request ctx args tokens pm =
     \<lparr>er_command = tokens, er_cwd = tc_cwd ctx, er_reason = approval_reason args pm,
      er_sandbox_permissions = get_str ''sandbox_permissions'' args, er_policy_decision = pm_decision pm,
      er_justification = pm_justification pm, er_proposed_amendment = Some tokens\<rparr>"

definition ensure_shell_allowed ::
  "(string \<Rightarrow> string list option) \<Rightarrow> (exec_approval_request \<Rightarrow> string + review_decision) \<Rightarrow> tool_call_context \<Rightarrow>
   json \<Rightarrow> string \<Rightarrow> (string + sandbox_policy) \<times> tool_call_context" where
  "ensure_shell_allowed shlex ask ctx args command =
     (let tokens = tokenize_shell_command shlex command
      in if tokens = [] then (Inl ''empty command'', ctx)
         else if is_prefix_allowed tokens (tc_cache ctx) then (Inr (effective_sandbox_policy ctx args), ctx)
         else let pm = evaluate (tc_rules ctx) tokens
           in if pm_decision pm = Forbidden
              then (Inl (''execpolicy forbidden: '' @
                         (case pm_justification pm of Some m \<Rightarrow> m | None \<Rightarrow> ''command forbidden by execpolicy'')), ctx)
              else if \<not> needs_prompt ctx args (pm_decision pm) then (Inr (effective_sandbox_policy ctx args), ctx)
              else case tc_approval_policy ctx of
                Always \<Rightarrow> (Inr (effective_sandbox_policy ctx args), ctx)
              | Never \<Rightarrow> (Inl ''command requires approval but approval_policy=never'', ctx)
              | OnRequest \<Rightarrow>
                  (case ask (approval_request ctx args tokens pm) of
                     Inl e \<Rightarrow> (Inl e, ctx)
                   | Inr d \<Rightarrow>
                       let ctx' = apply_review_decision ctx d tokens
                       in if is_approved d then (Inr (effective_sandbox_policy ctx' args), ctx')
                          else (Inl (''exec approval denied: '' @ review_debug d), ctx')))"

subsection \<open>Which rule decides\<close>

lemma rule_matches_take: "rule_matches r cmd \<longleftrightarrow> take (length (pr_pattern r)) cmd = pr_pattern r"
proof
  assume m: "rule_matches r cmd"
  then have len: "length (pr_pattern r) \<le> length cmd" by (simp add: rule_matches_def not_less)
  show "take (length (pr_pattern r)) cmd = pr_pattern r"
  proof (rule nth_equalityI)
    fix i assume "i < length (take (length (pr_pattern r)) cmd)"
    then have i: "i < length (pr_pattern r)" "i < length cmd" using len by simp_all
    then have "(cmd ! i, pr_pattern r ! i) \<in> set (zip cmd (pr_pattern r))" by (auto simp: set_zip)
    then show "take (length (pr_pattern r)) cmd ! i = pr_pattern r ! i" using m i by (auto simp: rule_matches_def)
  qed (use len in simp)
next
  assume t: "take (length (pr_pattern r)) cmd = pr_pattern r"
  then have len: "length (pr_pattern r) \<le> length cmd" by (metis length_take min.cobounded1 min_def not_le_imp_less nat_less_le)
  have "a = b" if "(a, b) \<in> set (zip cmd (pr_pattern r))" for a b
  proof -
    from that obtain i where i: "a = cmd ! i" "b = pr_pattern r ! i" "i < length (pr_pattern r)"
      by (auto simp: set_zip)
    then show ?thesis by (metis t nth_take)
  qed
  then show "rule_matches r cmd" using len by (auto simp: rule_matches_def)
qed

definition outranks :: "prefix_rule \<Rightarrow> prefix_rule \<Rightarrow> bool" where
  "outranks r r' \<longleftrightarrow>
     length (pr_pattern r') < length (pr_pattern r) \<or>
     length (pr_pattern r') = length (pr_pattern r) \<and> pr_decision r' \<le> pr_decision r"

lemma outranks_refl [simp]: "outranks r r"
  by (simp add: outranks_def)

lemma outranks_trans: "outranks a b \<Longrightarrow> outranks b c \<Longrightarrow> outranks a c"
  by (auto simp: outranks_def)

lemma better_rule_step:
  assumes "best = None \<and> S = {} \<or> (\<exists>b. best = Some b \<and> b \<in> S \<and> (\<forall>r \<in> S. outranks b r))"
    and "S' = (if rule_matches x cmd then insert x S else S)"
  shows "better_rule cmd x best = None \<and> S' = {} \<or>
         (\<exists>b. better_rule cmd x best = Some b \<and> b \<in> S' \<and> (\<forall>r \<in> S'. outranks b r))"
proof (cases "rule_matches x cmd")
  case True
  show ?thesis
  proof (cases best)
    case None
    then show ?thesis using assms True by (auto simp: better_rule_def)
  next
    case (Some b)
    then have b: "b \<in> S" "\<forall>r \<in> S. outranks b r" using assms(1) by auto
    show ?thesis
    proof (cases "length (pr_pattern x) > length (pr_pattern b) \<or>
                  length (pr_pattern x) = length (pr_pattern b) \<and> pr_decision x > pr_decision b")
      case better: True
      then have "outranks x b" by (auto simp: outranks_def)
      then have "\<forall>r \<in> S. outranks x r" using b(2) outranks_trans by blast
      then show ?thesis using assms(2) True Some better by (auto simp: better_rule_def)
    next
      case False
      then have "outranks b x" by (auto simp: outranks_def not_less)
      then show ?thesis using assms(2) True Some False b by (auto simp: better_rule_def)
    qed
  qed
qed (use assms in \<open>auto simp: better_rule_def\<close>)

lemma better_rule_fold:
  assumes "best = None \<and> S = {} \<or> (\<exists>b. best = Some b \<and> b \<in> S \<and> (\<forall>r \<in> S. outranks b r))"
  shows "fold (better_rule cmd) rules best = None \<and> S \<union> {r \<in> set rules. rule_matches r cmd} = {} \<or>
         (\<exists>b. fold (better_rule cmd) rules best = Some b \<and> b \<in> S \<union> {r \<in> set rules. rule_matches r cmd} \<and>
              (\<forall>r \<in> S \<union> {r \<in> set rules. rule_matches r cmd}. outranks b r))"
  using assms
proof (induction rules arbitrary: best S)
  case (Cons x rules)
  let ?S = "if rule_matches x cmd then insert x S else S"
  have "S \<union> {r \<in> set (x # rules). rule_matches r cmd} = ?S \<union> {r \<in> set rules. rule_matches r cmd}" by auto
  then show ?case using Cons.IH [OF better_rule_step [OF Cons.prems refl]] by simp
qed simp

lemmas winning_rule = better_rule_fold [where best = None and S = "{}", simplified]

text \<open>
  C26. The decision of the execution policy on a command, for every list of rules and whatever their
  order: where no rule's pattern is a prefix of the command it is to prompt; otherwise it is the one
  of a rule that matches, no matching rule has a longer pattern, and no rule with the same pattern
  is stricter.\<close>
theorem evaluate_longest_strictest:
  "if \<exists>r \<in> set rules. take (length (pr_pattern r)) cmd = pr_pattern r
   then \<exists>r \<in> set rules.
          evaluate rules cmd = \<lparr>pm_decision = pr_decision r, pm_matched_prefix = pr_pattern r,
                                pm_justification = pr_justification r\<rparr> \<and>
          take (length (pr_pattern r)) cmd = pr_pattern r \<and>
          (\<forall>r' \<in> set rules. take (length (pr_pattern r')) cmd = pr_pattern r' \<longrightarrow>
             length (pr_pattern r') \<le> length (pr_pattern r) \<and>
             (pr_pattern r' = pr_pattern r \<longrightarrow> pr_decision r' \<le> pr_decision r))
   else evaluate rules cmd = \<lparr>pm_decision = Prompt, pm_matched_prefix = cmd,
                               pm_justification = Some ''no matching execpolicy rule''\<rparr>"
proof (cases "fold (better_rule cmd) rules None")
  case None
  then show ?thesis using winning_rule [of cmd rules] by (auto simp: evaluate_def rule_matches_take)
next
  case (Some b)
  then have b: "b \<in> set rules" "take (length (pr_pattern b)) cmd = pr_pattern b"
    "\<forall>r \<in> set rules. take (length (pr_pattern r)) cmd = pr_pattern r \<longrightarrow> outranks b r"
    using winning_rule [of cmd rules] by (auto simp: rule_matches_take)
  moreover have "evaluate rules cmd = \<lparr>pm_decision = pr_decision b, pm_matched_prefix = pr_pattern b,
                                pm_justification = pr_justification b\<rparr>"
    using Some by (simp add: evaluate_def)
  moreover have "length (pr_pattern r') \<le> length (pr_pattern b) \<and>
             (pr_pattern r' = pr_pattern b \<longrightarrow> pr_decision r' \<le> pr_decision b)" if "outranks b r'" for r'
    using that by (auto simp: outranks_def)
  ultimately show ?thesis by auto
qed

theorem evaluate_longest_strictest_witness:
  "\<exists>r \<in> set default_codex_like.
     evaluate default_codex_like [''sudo'', ''ls''] =
       \<lparr>pm_decision = pr_decision r, pm_matched_prefix = pr_pattern r, pm_justification = pr_justification r\<rparr> \<and>
     pr_pattern r = [''sudo'']"
proof -
  have "\<exists>r \<in> set default_codex_like. take (length (pr_pattern r)) [''sudo'', ''ls''] = pr_pattern r"
    by (simp add: default_codex_like_def)
  with evaluate_longest_strictest [of default_codex_like "[''sudo'', ''ls'']"] obtain r where
    "r \<in> set default_codex_like"
    "evaluate default_codex_like [''sudo'', ''ls''] =
       \<lparr>pm_decision = pr_decision r, pm_matched_prefix = pr_pattern r, pm_justification = pr_justification r\<rparr>"
    "take (length (pr_pattern r)) [''sudo'', ''ls''] = pr_pattern r" by auto
  then show ?thesis by (auto simp: default_codex_like_def)
qed

subsection \<open>What the gate lets through\<close>

lemma evaluate_Allow_rule:
  assumes "pm_decision (evaluate rules cmd) = Allow"
  obtains r where "r \<in> set rules" "pr_decision r = Allow" "take (length (pr_pattern r)) cmd = pr_pattern r"
proof (cases "fold (better_rule cmd) rules None")
  case None
  then show ?thesis using assms by (simp add: evaluate_def)
next
  case (Some b)
  then show ?thesis using assms winning_rule [of cmd rules] that
    by (auto simp: evaluate_def rule_matches_take)
qed

definition host_answers ::
  "(string \<Rightarrow> string list option) \<Rightarrow> (exec_approval_request \<Rightarrow> string + review_decision) \<Rightarrow> tool_call_context \<Rightarrow>
   json \<Rightarrow> string \<Rightarrow> (string list \<times> review_decision) list" where
  \<comment> \<open>the command a call puts to the host, with the answer, if it asks the host at all\<close>
  "host_answers shlex ask ctx args command =
     (let tokens = tokenize_shell_command shlex command; pm = evaluate (tc_rules ctx) tokens
      in if tokens \<noteq> [] \<and> \<not> is_prefix_allowed tokens (tc_cache ctx) \<and> pm_decision pm \<noteq> Forbidden \<and>
            needs_prompt ctx args (pm_decision pm) \<and> tc_approval_policy ctx = OnRequest
         then (case ask (approval_request ctx args tokens pm) of Inr d \<Rightarrow> [(tokens, d)] | Inl _ \<Rightarrow> [])
         else [])"

inductive gate_reach ::
  "(string \<Rightarrow> string list option) \<Rightarrow> tool_call_context \<Rightarrow> tool_call_context \<Rightarrow> (string list \<times> review_decision) list \<Rightarrow> bool"
  for shlex ctx0 where
  gate_start: "gate_reach shlex ctx0 ctx0 []"
| gate_call: "gate_reach shlex ctx0 ctx log \<Longrightarrow> ensure_shell_allowed shlex ask ctx args command = (res, ctx') \<Longrightarrow>
    gate_reach shlex ctx0 ctx' (host_answers shlex ask ctx args command @ log)"
| gate_turn: "gate_reach shlex ctx0 ctx log \<Longrightarrow>
    gate_reach shlex ctx0 (ctx\<lparr>tc_cache := clear_turn_state (tc_cache ctx)\<rparr>) log"
| gate_grant: "gate_reach shlex ctx0 ctx log \<Longrightarrow>
    gate_reach shlex ctx0 (ctx\<lparr>tc_cache := record_permission_grant p scope (tc_cache ctx)\<rparr>) log"
| gate_review: "gate_reach shlex ctx0 ctx log \<Longrightarrow>
    gate_reach shlex ctx0 (ctx\<lparr>tc_cache := set_strict_auto_review on (tc_cache ctx)\<rparr>) log"

definition approved_prefixes :: "(string list \<times> review_decision) list \<Rightarrow> string list set" where
  "approved_prefixes log = {p. (p, ApprovedForSession) \<in> set log} \<union> {p. \<exists>t. (t, ApprovedExecpolicyAmendment p) \<in> set log}"

lemma approved_prefixes_append [simp]: "approved_prefixes (l @ l') = approved_prefixes l \<union> approved_prefixes l'"
  by (auto simp: approved_prefixes_def)

definition traced :: "prefix_rule list \<Rightarrow> (string list \<times> review_decision) list \<Rightarrow> tool_call_context \<Rightarrow> bool" where
  "traced rules0 log ctx \<longleftrightarrow>
     set (ac_session_prefixes (tc_cache ctx)) \<subseteq> approved_prefixes log \<and>
     [] \<notin> set (ac_session_prefixes (tc_cache ctx)) \<and>
     (\<forall>r \<in> set (tc_rules ctx). r \<in> set rules0 \<or> pr_pattern r \<in> approved_prefixes log \<and> pr_pattern r \<noteq> [])"

lemma traced_mono: "traced rules0 log ctx \<Longrightarrow> traced rules0 (l @ log) ctx"
  by (auto simp: traced_def)

lemma apply_review_traced:
  "traced rules0 log ctx \<Longrightarrow> traced rules0 ([(tokens, d)] @ log) (apply_review_decision ctx d tokens)"
  by (cases d) (auto simp: traced_def approved_prefixes_def allow_prefix_for_session_def add_allow_prefix_def)

lemma ensure_cases:
  assumes "ensure_shell_allowed shlex ask ctx args command = (res, ctx')"
  shows "ctx' = ctx \<or>
         (\<exists>d. host_answers shlex ask ctx args command = [(tokenize_shell_command shlex command, d)] \<and>
              ctx' = apply_review_decision ctx d (tokenize_shell_command shlex command))"
  using assms
  by (auto simp: ensure_shell_allowed_def host_answers_def Let_def split: if_splits approval_policy.splits sum.splits)

lemma apply_review_policy [simp]: "tc_approval_policy (apply_review_decision ctx d tokens) = tc_approval_policy ctx"
  by (cases d) auto

lemma gate_reach_traced:
  assumes "gate_reach shlex ctx0 ctx log" "traced (tc_rules ctx0) [] ctx0"
  shows "traced (tc_rules ctx0) log ctx \<and> tc_approval_policy ctx = tc_approval_policy ctx0"
  using assms
proof (induction rule: gate_reach.induct)
  case (gate_call ctx log ask args command res ctx')
  then have IH: "traced (tc_rules ctx0) log ctx" "tc_approval_policy ctx = tc_approval_policy ctx0" by blast+
  from ensure_cases [OF gate_call.hyps(2)] show ?case
  proof (elim disjE exE conjE)
    assume "ctx' = ctx"
    then show ?thesis using IH traced_mono by simp
  qed (use IH in \<open>simp add: apply_review_traced [simplified]\<close>)
qed (auto simp: traced_def clear_turn_state_def record_permission_grant_def set_strict_auto_review_def)

lemma starts_with_take: "starts_with xs p \<longleftrightarrow> take (length p) xs = p"
  by (auto simp: starts_with_def strip_prefix_def)

lemma let_through_cases:
  assumes "ensure_shell_allowed shlex ask ctx args command = (Inr sb, ctx')" "tc_approval_policy ctx \<noteq> Always"
  defines "tokens \<equiv> tokenize_shell_command shlex command"
  shows "is_prefix_allowed tokens (tc_cache ctx) \<or> pm_decision (evaluate (tc_rules ctx) tokens) = Allow \<or>
         (\<exists>d. host_answers shlex ask ctx args command = [(tokens, d)] \<and> is_approved d)"
proof -
  have "d = Allow" if "\<not> needs_prompt ctx args d" "d \<noteq> Forbidden" for d
    using that by (cases d) (auto simp: needs_prompt_def)
  then show ?thesis using assms
    by (auto simp: ensure_shell_allowed_def host_answers_def Let_def split: if_splits approval_policy.splits sum.splits)
qed



subsection \<open>Two gaps\<close>

lemma absolute_dotdot_permission_accepted:
  \<comment> \<open>canonicalisation fails for a file that does not exist, and the path is then compared as written\<close>
  "validate_paths (\<lambda>p. if ParentDir \<in> set p then Inl NotFound else Inr p) (components (lit ''/w''))
     \<lparr>pp_network = None, pp_file_system = Some (JObject [(''write'', JArray [JString ''/w/../etc/new''])])\<rparr> = None"
  by code_simp

lemma disable_argument_not_put_to_host:
  \<comment> \<open>the argument that switches the sandbox off does not by itself make the gate ask\<close>
  assumes "pm_decision (evaluate (tc_rules ctx) (tokenize_shell_command shlex command)) = Allow"
    and "tokenize_shell_command shlex command \<noteq> []" "\<not> ac_strict_auto_review (tc_cache ctx)"
  shows "ensure_shell_allowed shlex ask ctx (JObject [(''dangerously_disable_sandbox'', JBool True)]) command =
         (Inr SandboxOff, ctx)"
  using assms
  by (simp add: ensure_shell_allowed_def Let_def needs_prompt_def get_str_def jget_def
      effective_sandbox_policy_def args_dangerously_disable_sandbox_def)

end
