(* ===== verification/ForgeSession.thy ===== *)
theory ForgeSession
  imports ForgeApproval
begin

text \<open>
  Sessions of the agent service (\<^verbatim>\<open>pulsing-forge/src/session\<close> and \<^verbatim>\<open>protocol\<close>): events, commands and
  errors of the protocol; the reducer that turns events into a snapshot (\<^verbatim>\<open>reducer.rs\<close>); the event
  store kept in memory (\<^verbatim>\<open>store.rs\<close>); the service that accepts commands, records events and runs turns,
  and the subscriptions to its events (\<^verbatim>\<open>service.rs\<close>).

  Identifiers are strings. A sequence number is a natural number: it grows by one per event, so the
  limit of 64 bits is out of reach. An event's random identifier and its time are one argument, the
  stamp. Every lock section of \<^verbatim>\<open>service.rs\<close> is one operation here; sending the event afterwards, outside
  the lock, is a second one, and what the lock section leaves to be sent is the outbox.
\<close>

type_synonym session_id = string
type_synonym turn_id = string
type_synonym command_id = string
type_synonym stamp = "string \<times> int"

subsection \<open>The protocol\<close>

datatype forge_event_kind =
    SessionCreated
  | SessionClosed
  | TurnStarted string
  | TurnOutputDelta string
  | TurnCancelRequested
  | TurnCleanupStalled "string list"
  | TurnCancelled
  | TurnCompleted string
  | TurnFailed string
  | ToolStarted string
  | ToolCompleted string bool string
  | ToolCancelled string

record forge_event =
  ev_protocol :: string
  ev_version :: "nat \<times> nat"
  ev_stamp :: stamp
  ev_session_id :: session_id
  ev_seq :: nat
  ev_turn_id :: "turn_id option"
  ev_causation_id :: "command_id option"
  ev_kind :: forge_event_kind

definition new_event ::
  "stamp \<Rightarrow> session_id \<Rightarrow> nat \<Rightarrow> turn_id option \<Rightarrow> command_id option \<Rightarrow> forge_event_kind \<Rightarrow> forge_event" where
  "new_event stamp sid seq turn causation kind =
     \<lparr>ev_protocol = ''forge.event'', ev_version = (1, 0), ev_stamp = stamp, ev_session_id = sid, ev_seq = seq,
      ev_turn_id = turn, ev_causation_id = causation, ev_kind = kind\<rparr>"

datatype forge_protocol_error =
    SessionNotFound session_id
  | SessionAlreadyExists session_id
  | ErrSessionClosed session_id
  | SessionBusy session_id
  | TurnNotActive turn_id
  | SequenceConflict nat nat
  | InvalidTransition string
  | SubscriptionLagged nat
  | SubscriptionClosed
  | InvalidProtocol string string
  | UnsupportedVersion string nat
  | AgentError string
  | Internal string

record session_spec =
  ss_cwd :: path
  ss_provider :: string
  ss_model :: string
  ss_max_tokens :: nat
  ss_max_turns :: nat
  ss_sandbox :: string
  ss_approval_policy :: approval_policy
  ss_tool_names :: "string list"
  ss_system_prompt :: "string option"

record 'p command_envelope =
  ce_protocol :: string
  ce_version :: "nat \<times> nat"
  ce_command_id :: command_id
  ce_session_id :: session_id
  ce_expected_seq :: "nat option"
  ce_payload :: 'p

definition new_command :: "command_id \<Rightarrow> session_id \<Rightarrow> 'p \<Rightarrow> 'p command_envelope" where
  "new_command cid sid p =
     \<lparr>ce_protocol = ''forge.session'', ce_version = (1, 0), ce_command_id = cid, ce_session_id = sid,
      ce_expected_seq = None, ce_payload = p\<rparr>"

definition expecting :: "nat \<Rightarrow> 'p command_envelope \<Rightarrow> 'p command_envelope" where
  "expecting seq cmd = cmd\<lparr>ce_expected_seq := Some seq\<rparr>"

record command_receipt =
  cr_command_id :: command_id
  cr_session_id :: session_id
  cr_turn_id :: "turn_id option"
  cr_accepted_seq :: nat

subsection \<open>The reducer\<close>

datatype session_status = SessActive | SessClosed

datatype turn_status = Running | Cancelling | Unknown | Completed | Failed | Cancelled

fun is_terminal :: "turn_status \<Rightarrow> bool" where
  "is_terminal Completed = True"
| "is_terminal Failed = True"
| "is_terminal Cancelled = True"
| "is_terminal _ = False"

fun turn_status_debug :: "turn_status \<Rightarrow> string" where
  "turn_status_debug Running = ''Running''"
| "turn_status_debug Cancelling = ''Cancelling''"
| "turn_status_debug Unknown = ''Unknown''"
| "turn_status_debug Completed = ''Completed''"
| "turn_status_debug Failed = ''Failed''"
| "turn_status_debug Cancelled = ''Cancelled''"

record turn_snapshot =
  ts_id :: turn_id
  ts_input :: string
  ts_status :: turn_status
  ts_output :: "string option"
  ts_error :: "string option"

record session_snapshot =
  sn_id :: session_id
  sn_spec :: session_spec
  sn_status :: session_status
  sn_last_seq :: nat
  sn_active_turn :: "turn_id option"
  sn_turns :: "turn_id \<rightharpoonup> turn_snapshot"

definition uninitialized :: "session_id \<Rightarrow> session_spec \<Rightarrow> session_snapshot" where
  "uninitialized sid spec =
     \<lparr>sn_id = sid, sn_spec = spec, sn_status = SessActive, sn_last_seq = 0, sn_active_turn = None, sn_turns = Map.empty\<rparr>"

definition ensure_can_start :: "session_snapshot \<Rightarrow> forge_protocol_error option" where
  \<comment> \<open>an error, if any\<close>
  "ensure_can_start s =
     (if sn_status s = SessClosed then Some (ErrSessionClosed (sn_id s))
      else if sn_active_turn s \<noteq> None then Some (SessionBusy (sn_id s))
      else None)"

definition active_turn_mut :: "forge_event \<Rightarrow> session_snapshot \<Rightarrow> forge_protocol_error + turn_id \<times> turn_snapshot" where
  "active_turn_mut ev s =
     (case ev_turn_id ev of
        None \<Rightarrow> Inl (InvalidTransition ''turn event missing turn_id'')
      | Some t \<Rightarrow>
          if sn_active_turn s \<noteq> Some t then Inl (TurnNotActive t)
          else case sn_turns s t of None \<Rightarrow> Inl (TurnNotActive t) | Some ts \<Rightarrow> Inr (t, ts))"

definition put_turn :: "turn_id \<Rightarrow> turn_snapshot \<Rightarrow> session_snapshot \<Rightarrow> session_snapshot" where
  "put_turn t ts s = s\<lparr>sn_turns := (sn_turns s)(t \<mapsto> ts)\<rparr>"

definition end_turn :: "turn_id \<Rightarrow> turn_snapshot \<Rightarrow> session_snapshot \<Rightarrow> session_snapshot" where
  "end_turn t ts s = (put_turn t ts s)\<lparr>sn_active_turn := None\<rparr>"

fun join_comma :: "string list \<Rightarrow> string" where
  "join_comma [] = []"
| "join_comma [x] = x"
| "join_comma (x # xs) = x @ '', '' @ join_comma xs"

definition active_turn_activity :: "forge_event \<Rightarrow> session_snapshot \<Rightarrow> forge_protocol_error + session_snapshot" where
  "active_turn_activity ev s =
     (case active_turn_mut ev s of
        Inl e \<Rightarrow> Inl e
      | Inr (t, ts) \<Rightarrow>
          if is_terminal (ts_status ts) then Inl (InvalidTransition ''activity after terminal turn'') else Inr s)"

definition apply_kind :: "forge_event \<Rightarrow> session_snapshot \<Rightarrow> forge_protocol_error + session_snapshot" where
  "apply_kind ev s =
     (case ev_kind ev of
        SessionCreated \<Rightarrow>
          if sn_last_seq s \<noteq> 0 then Inl (InvalidTransition ''session.created must be the first event'') else Inr s
      | SessionClosed \<Rightarrow>
          if sn_active_turn s \<noteq> None then Inl (InvalidTransition ''cannot close a session with an active turn'')
          else Inr (s\<lparr>sn_status := SessClosed\<rparr>)
      | TurnStarted input \<Rightarrow>
          (case ensure_can_start s of
             Some e \<Rightarrow> Inl e
           | None \<Rightarrow>
               (case ev_turn_id ev of
                  None \<Rightarrow> Inl (InvalidTransition ''turn.started missing turn_id'')
                | Some t \<Rightarrow>
                    Inr ((put_turn t \<lparr>ts_id = t, ts_input = input, ts_status = Running, ts_output = None, ts_error = None\<rparr> s)
                           \<lparr>sn_active_turn := Some t\<rparr>)))
      | TurnCancelRequested \<Rightarrow>
          (case active_turn_mut ev s of
             Inl e \<Rightarrow> Inl e
           | Inr (t, ts) \<Rightarrow>
               if ts_status ts \<noteq> Running
               then Inl (InvalidTransition (''cannot cancel turn in '' @ turn_status_debug (ts_status ts)))
               else Inr (put_turn t (ts\<lparr>ts_status := Cancelling\<rparr>) s))
      | TurnCancelled \<Rightarrow>
          (case active_turn_mut ev s of
             Inl e \<Rightarrow> Inl e
           | Inr (t, ts) \<Rightarrow>
               if ts_status ts \<notin> {Running, Cancelling, Unknown}
               then Inl (InvalidTransition (''cannot complete cancellation from '' @ turn_status_debug (ts_status ts)))
               else Inr (end_turn t (ts\<lparr>ts_status := Cancelled\<rparr>) s))
      | TurnCleanupStalled resources \<Rightarrow>
          (case active_turn_mut ev s of
             Inl e \<Rightarrow> Inl e
           | Inr (t, ts) \<Rightarrow>
               Inr (put_turn t (ts\<lparr>ts_status := Unknown,
                                  ts_error := Some (''waiting for turn resources to stop: '' @ join_comma resources)\<rparr>) s))
      | TurnCompleted txt \<Rightarrow>
          (case active_turn_mut ev s of
             Inl e \<Rightarrow> Inl e
           | Inr (t, ts) \<Rightarrow> Inr (end_turn t (ts\<lparr>ts_status := Completed, ts_output := Some txt\<rparr>) s))
      | TurnFailed msg \<Rightarrow>
          (case active_turn_mut ev s of
             Inl e \<Rightarrow> Inl e
           | Inr (t, ts) \<Rightarrow> Inr (end_turn t (ts\<lparr>ts_status := Failed, ts_error := Some msg\<rparr>) s))
      | TurnOutputDelta _ \<Rightarrow> active_turn_activity ev s
      | ToolStarted _ \<Rightarrow> active_turn_activity ev s
      | ToolCompleted _ _ _ \<Rightarrow> active_turn_activity ev s
      | ToolCancelled _ \<Rightarrow> active_turn_activity ev s)"

definition apply_event :: "forge_event \<Rightarrow> session_snapshot \<Rightarrow> forge_protocol_error + session_snapshot" where
  "apply_event ev s =
     (if ev_session_id ev \<noteq> sn_id s
      then Inl (InvalidTransition (''event belongs to '' @ ev_session_id ev @ '', reducer belongs to '' @ sn_id s))
      else if ev_seq ev \<noteq> sn_last_seq s + 1 then Inl (SequenceConflict (sn_last_seq s + 1) (ev_seq ev))
      else case apply_kind ev s of
        Inl e \<Rightarrow> Inl e
      | Inr s' \<Rightarrow> Inr (s'\<lparr>sn_last_seq := ev_seq ev\<rparr>))"

subsection \<open>The event store\<close>

type_synonym event_store = "session_id \<rightharpoonup> forge_event list"

definition stored :: "event_store \<Rightarrow> session_id \<Rightarrow> forge_event list" where
  "stored st sid = (case st sid of None \<Rightarrow> [] | Some evs \<Rightarrow> evs)"

definition store_append :: "forge_event \<Rightarrow> event_store \<Rightarrow> forge_protocol_error option \<times> event_store" where
  "store_append ev st =
     (let evs = stored st (ev_session_id ev);
          expected = (if evs = [] then 1 else ev_seq (last evs) + 1)
      in if ev_seq ev \<noteq> expected
         then (Some (SequenceConflict expected (ev_seq ev)), st(ev_session_id ev \<mapsto> evs))
         else (None, st(ev_session_id ev \<mapsto> evs @ [ev])))"

definition store_load :: "session_id \<Rightarrow> nat \<Rightarrow> event_store \<Rightarrow> forge_event list" where
  "store_load sid after_seq st = filter (\<lambda>ev. ev_seq ev > after_seq) (stored st sid)"

subsection \<open>The service\<close>

record session_runtime =
  sr_snapshot :: session_snapshot
  sr_receipts :: "command_id \<rightharpoonup> command_receipt"
  sr_active_execution :: "(turn_id \<times> nat) option"
  sr_outbox :: "forge_event list"
  sr_events :: "forge_event list"

record forge_service =
  sv_store :: event_store
  sv_sessions :: "session_id \<rightharpoonup> session_runtime"
  sv_next_exec :: nat
  sv_cancelled :: "nat set"

definition service_new :: forge_service where
  "service_new = \<lparr>sv_store = Map.empty, sv_sessions = Map.empty, sv_next_exec = 0, sv_cancelled = {}\<rparr>"

definition check_expected_seq :: "nat option \<Rightarrow> nat \<Rightarrow> forge_protocol_error option" where
  "check_expected_seq expected actual =
     (case expected of
        Some e \<Rightarrow> if e \<noteq> actual then Some (SequenceConflict e actual) else None
      | None \<Rightarrow> None)"

definition validate_command :: "'p command_envelope \<Rightarrow> forge_protocol_error option" where
  "validate_command cmd =
     (if ce_protocol cmd \<noteq> ''forge.session'' then Some (InvalidProtocol ''forge.session'' (ce_protocol cmd))
      else if fst (ce_version cmd) \<noteq> 1 then Some (UnsupportedVersion (ce_protocol cmd) (fst (ce_version cmd)))
      else None)"

definition session :: "session_id \<Rightarrow> forge_service \<Rightarrow> forge_protocol_error + session_runtime" where
  "session sid sv = (case sv_sessions sv sid of None \<Rightarrow> Inl (SessionNotFound sid) | Some rt \<Rightarrow> Inr rt)"

definition commit_event ::
  "forge_event \<Rightarrow> (session_runtime \<Rightarrow> session_runtime) \<Rightarrow> session_id \<Rightarrow> session_runtime \<Rightarrow> forge_service \<Rightarrow>
   forge_protocol_error option \<times> forge_service" where
  \<comment> \<open>append to the store, then apply to the snapshot, then the rest of the lock section\<close>
  "commit_event ev rest sid rt sv =
     (case store_append ev (sv_store sv) of
        (Some e, st) \<Rightarrow> (Some e, sv\<lparr>sv_store := st\<rparr>)
      | (None, st) \<Rightarrow>
          (case apply_event ev (sr_snapshot rt) of
             Inl e \<Rightarrow> (Some e, sv\<lparr>sv_store := st\<rparr>)
           | Inr sn \<Rightarrow>
               (None, sv\<lparr>sv_store := st,
                        sv_sessions := (sv_sessions sv)(sid \<mapsto>
                          rest (rt\<lparr>sr_snapshot := sn, sr_outbox := sr_outbox rt @ [ev]\<rparr>))\<rparr>)))"

definition create_check ::
  "(session_spec \<Rightarrow> string option) \<Rightarrow> session_spec command_envelope \<Rightarrow> forge_service \<Rightarrow>
   (forge_protocol_error + command_receipt) option" where
  \<comment> \<open>an answer without creating, or none when the session is to be created\<close>
  "create_check try_new cmd sv =
     (case validate_command cmd of
        Some e \<Rightarrow> Some (Inl e)
      | None \<Rightarrow>
          (case sv_sessions sv (ce_session_id cmd) of
             Some rt \<Rightarrow>
               Some (case sr_receipts rt (ce_command_id cmd) of
                       Some r \<Rightarrow> Inr r
                     | None \<Rightarrow> Inl (SessionAlreadyExists (ce_session_id cmd)))
           | None \<Rightarrow>
               (case try_new (ce_payload cmd) of
                  Some e \<Rightarrow> Some (Inl (AgentError e))
                | None \<Rightarrow> None)))"

definition create_commit ::
  "stamp \<Rightarrow> session_spec command_envelope \<Rightarrow> forge_service \<Rightarrow>
   (forge_protocol_error + command_receipt) \<times> forge_service" where
  "create_commit stamp cmd sv =
     (let sid = ce_session_id cmd;
          ev = new_event stamp sid 1 None (Some (ce_command_id cmd)) SessionCreated
      in case store_append ev (sv_store sv) of
           (Some e, st) \<Rightarrow> (Inl e, sv\<lparr>sv_store := st\<rparr>)
         | (None, st) \<Rightarrow>
             (case apply_event ev (uninitialized sid (ce_payload cmd)) of
                Inl e \<Rightarrow> (Inl e, sv\<lparr>sv_store := st\<rparr>)
              | Inr sn \<Rightarrow>
                  let receipt = \<lparr>cr_command_id = ce_command_id cmd, cr_session_id = sid, cr_turn_id = None,
                                 cr_accepted_seq = 1\<rparr>;
                      rt = \<lparr>sr_snapshot = sn, sr_receipts = [ce_command_id cmd \<mapsto> receipt],
                            sr_active_execution = None, sr_outbox = [], sr_events = []\<rparr>
                  in if sv_sessions sv sid \<noteq> None
                     then (Inl (SessionAlreadyExists sid), sv\<lparr>sv_store := st\<rparr>)
                     else (Inr receipt, sv\<lparr>sv_store := st, sv_sessions := (sv_sessions sv)(sid \<mapsto> rt)\<rparr>)))"

definition create_session ::
  "(session_spec \<Rightarrow> string option) \<Rightarrow> stamp \<Rightarrow> session_spec command_envelope \<Rightarrow> forge_service \<Rightarrow>
   (forge_protocol_error + command_receipt) \<times> forge_service" where
  "create_session try_new stamp cmd sv =
     (case create_check try_new cmd sv of Some r \<Rightarrow> (r, sv) | None \<Rightarrow> create_commit stamp cmd sv)"

definition turn_receipt :: "'p command_envelope \<Rightarrow> turn_id \<Rightarrow> nat \<Rightarrow> command_receipt" where
  "turn_receipt cmd t seq =
     \<lparr>cr_command_id = ce_command_id cmd, cr_session_id = ce_session_id cmd, cr_turn_id = Some t, cr_accepted_seq = seq\<rparr>"

definition add_receipt :: "command_receipt \<Rightarrow> session_runtime \<Rightarrow> session_runtime" where
  "add_receipt r rt = rt\<lparr>sr_receipts := (sr_receipts rt)(cr_command_id r \<mapsto> r)\<rparr>"

definition start_turn ::
  "stamp \<Rightarrow> (turn_id \<times> string) command_envelope \<Rightarrow> forge_service \<Rightarrow>
   (forge_protocol_error + command_receipt) \<times> forge_service" where
  "start_turn stamp cmd sv =
     (case validate_command cmd of
        Some e \<Rightarrow> (Inl e, sv)
      | None \<Rightarrow>
          (case session (ce_session_id cmd) sv of
             Inl e \<Rightarrow> (Inl e, sv)
           | Inr rt \<Rightarrow>
               let h = sv_next_exec sv; sv1 = sv\<lparr>sv_next_exec := h + 1\<rparr>; (t, input) = ce_payload cmd
               in case sr_receipts rt (ce_command_id cmd) of
                    Some r \<Rightarrow> (Inr r, sv1)
                  | None \<Rightarrow>
                      (case check_expected_seq (ce_expected_seq cmd) (sn_last_seq (sr_snapshot rt)) of
                         Some e \<Rightarrow> (Inl e, sv1)
                       | None \<Rightarrow>
                           (case ensure_can_start (sr_snapshot rt) of
                              Some e \<Rightarrow> (Inl e, sv1)
                            | None \<Rightarrow>
                                let seq = sn_last_seq (sr_snapshot rt) + 1;
                                    ev = new_event stamp (ce_session_id cmd) seq (Some t) (Some (ce_command_id cmd))
                                           (TurnStarted input);
                                    r = turn_receipt cmd t seq
                                in case commit_event ev
                                          (\<lambda>rt. add_receipt r (rt\<lparr>sr_active_execution := Some (t, h)\<rparr>))
                                          (ce_session_id cmd) rt sv1 of
                                     (Some e, sv2) \<Rightarrow> (Inl e, sv2)
                                   | (None, sv2) \<Rightarrow> (Inr r, sv2)))))"

definition cancel_turn ::
  "stamp \<Rightarrow> turn_id command_envelope \<Rightarrow> forge_service \<Rightarrow>
   (forge_protocol_error + command_receipt) \<times> forge_service" where
  "cancel_turn stamp cmd sv =
     (case validate_command cmd of
        Some e \<Rightarrow> (Inl e, sv)
      | None \<Rightarrow>
          (case session (ce_session_id cmd) sv of
             Inl e \<Rightarrow> (Inl e, sv)
           | Inr rt \<Rightarrow>
               (case sr_receipts rt (ce_command_id cmd) of
                  Some r \<Rightarrow> (Inr r, sv)
                | None \<Rightarrow>
                    (case check_expected_seq (ce_expected_seq cmd) (sn_last_seq (sr_snapshot rt)) of
                       Some e \<Rightarrow> (Inl e, sv)
                     | None \<Rightarrow>
                         (case sr_active_execution rt of
                            None \<Rightarrow> (Inl (TurnNotActive (ce_payload cmd)), sv)
                          | Some (t, h) \<Rightarrow>
                              if t \<noteq> ce_payload cmd then (Inl (TurnNotActive (ce_payload cmd)), sv)
                              else let seq = sn_last_seq (sr_snapshot rt) + 1;
                                       ev = new_event stamp (ce_session_id cmd) seq (Some (ce_payload cmd))
                                              (Some (ce_command_id cmd)) TurnCancelRequested;
                                       r = turn_receipt cmd (ce_payload cmd) seq
                                   in case commit_event ev (add_receipt r) (ce_session_id cmd) rt sv of
                                        (Some e, sv2) \<Rightarrow> (Inl e, sv2)
                                      | (None, sv2) \<Rightarrow>
                                          (Inr r, sv2\<lparr>sv_cancelled := insert h (sv_cancelled sv2)\<rparr>))))))"

definition record_event ::
  "stamp \<Rightarrow> session_id \<Rightarrow> turn_id option \<Rightarrow> command_id option \<Rightarrow> forge_event_kind \<Rightarrow> forge_service \<Rightarrow>
   (forge_protocol_error + forge_event) \<times> forge_service" where
  \<comment> \<open>the runtime is the one the turn was started with, which stays registered\<close>
  "record_event stamp sid turn causation kind sv =
     (case session sid sv of
        Inl e \<Rightarrow> (Inl e, sv)
      | Inr rt \<Rightarrow>
          let ev = new_event stamp (sn_id (sr_snapshot rt)) (sn_last_seq (sr_snapshot rt) + 1) turn causation kind
          in case commit_event ev (\<lambda>rt. rt) sid rt sv of
               (Some e, sv2) \<Rightarrow> (Inl e, sv2)
             | (None, sv2) \<Rightarrow> (Inr ev, sv2))"

definition clear_execution :: "turn_id \<Rightarrow> session_runtime \<Rightarrow> session_runtime" where
  "clear_execution t rt =
     (if map_option fst (sr_active_execution rt) = Some t then rt\<lparr>sr_active_execution := None\<rparr> else rt)"

definition record_terminal_event ::
  "stamp \<Rightarrow> session_id \<Rightarrow> turn_id \<Rightarrow> forge_event_kind \<Rightarrow> forge_service \<Rightarrow>
   (forge_protocol_error + forge_event) \<times> forge_service" where
  "record_terminal_event stamp sid t kind sv =
     (case session sid sv of
        Inl e \<Rightarrow> (Inl e, sv)
      | Inr rt \<Rightarrow>
          let ev = new_event stamp sid (sn_last_seq (sr_snapshot rt) + 1) (Some t) None kind
          in case commit_event ev (clear_execution t) sid rt sv of
               (Some e, sv2) \<Rightarrow> (Inl e, sv2)
             | (None, sv2) \<Rightarrow> (Inr ev, sv2))"

definition send_event :: "session_id \<Rightarrow> nat \<Rightarrow> forge_service \<Rightarrow> forge_service" where
  \<comment> \<open>one of the calls that have left the lock section sends its event\<close>
  "send_event sid i sv =
     (case sv_sessions sv sid of
        None \<Rightarrow> sv
      | Some rt \<Rightarrow>
          if i < length (sr_outbox rt)
          then sv\<lparr>sv_sessions := (sv_sessions sv)(sid \<mapsto>
                 rt\<lparr>sr_events := sr_events rt @ [sr_outbox rt ! i],
                    sr_outbox := take i (sr_outbox rt) @ drop (Suc i) (sr_outbox rt)\<rparr>)\<rparr>
          else sv)"

subsection \<open>Running a turn\<close>

datatype agent_event =
    TextDelta string
  | ToolStart string
  | ToolEnd string bool string
  | AgentToolCancelled string
  | AgentErrorEvent string
  | AgentDone string
  | AgentCancelledEvent

fun observer_kind :: "agent_event \<Rightarrow> forge_event_kind option" where
  "observer_kind (TextDelta delta) = Some (TurnOutputDelta delta)"
| "observer_kind (ToolStart name) = Some (ToolStarted name)"
| "observer_kind (ToolEnd name ok summary) = Some (ToolCompleted name ok summary)"
| "observer_kind (AgentToolCancelled name) = Some (ToolCancelled name)"
| "observer_kind _ = None"

datatype agent_result = AgentOk string | AgentFailed string | AgentWasCancelled

fun terminal_kind :: "bool \<Rightarrow> agent_result \<Rightarrow> forge_event_kind" where
  "terminal_kind True _ = TurnCancelled"
| "terminal_kind False (AgentOk txt) = TurnCompleted txt"
| "terminal_kind False AgentWasCancelled = TurnCancelled"
| "terminal_kind False (AgentFailed msg) = TurnFailed msg"

fun observe :: "stamp \<Rightarrow> session_id \<Rightarrow> turn_id \<Rightarrow> agent_event list \<Rightarrow> forge_service \<Rightarrow> forge_service" where
  "observe stamp sid t [] sv = sv"
| "observe stamp sid t (a # as) sv =
     observe stamp sid t as
       (case observer_kind a of None \<Rightarrow> sv | Some kind \<Rightarrow> snd (record_event stamp sid (Some t) None kind sv))"

definition run_turn_task ::
  "stamp \<Rightarrow> session_id \<Rightarrow> turn_id \<Rightarrow> nat \<Rightarrow> agent_event list \<Rightarrow> agent_result \<Rightarrow> string list option \<Rightarrow>
   forge_service \<Rightarrow> forge_service" where
  \<comment> \<open>what the agent reported, its result, and the resources that did not stop in time, if any\<close>
  "run_turn_task stamp sid t h reported result stalled sv =
     (let sv1 = observe stamp sid t reported sv;
          sv2 = (case stalled of
                   None \<Rightarrow> sv1
                 | Some resources \<Rightarrow>
                     snd (record_event stamp sid (Some t) None (TurnCleanupStalled resources) sv1))
      in snd (record_terminal_event stamp sid t (terminal_kind (h \<in> sv_cancelled sv2) result) sv2))"

subsection \<open>Subscriptions\<close>

datatype live_item = LiveEvent forge_event | Lagged nat

record event_subscription =
  es_replay :: "forge_event list"
  es_live :: "live_item list" \<comment> \<open>what the receiver will yield before the channel is closed\<close>
  es_last_seq :: nat

definition subscribe :: "session_id \<Rightarrow> nat \<Rightarrow> live_item list \<Rightarrow> event_store \<Rightarrow> event_subscription" where
  "subscribe sid after_seq live st =
     \<lparr>es_replay = store_load sid after_seq st, es_live = live, es_last_seq = after_seq\<rparr>"

fun recv_live :: "live_item list \<Rightarrow> nat \<Rightarrow> (forge_protocol_error + forge_event) \<times> live_item list" where
  "recv_live [] seen = (Inl SubscriptionClosed, [])"
| "recv_live (Lagged n # live) seen = (Inl (SubscriptionLagged n), live)"
| "recv_live (LiveEvent ev # live) seen = (if ev_seq ev \<le> seen then recv_live live seen else (Inr ev, live))"

definition recv :: "event_subscription \<Rightarrow> (forge_protocol_error + forge_event) \<times> event_subscription" where
  "recv sub =
     (case es_replay sub of
        ev # rest \<Rightarrow> (Inr ev, sub\<lparr>es_replay := rest, es_last_seq := max (es_last_seq sub) (ev_seq ev)\<rparr>)
      | [] \<Rightarrow>
          (case recv_live (es_live sub) (es_last_seq sub) of
             (Inl e, live) \<Rightarrow> (Inl e, sub\<lparr>es_live := live\<rparr>)
           | (Inr ev, live) \<Rightarrow> (Inr ev, sub\<lparr>es_live := live, es_last_seq := ev_seq ev\<rparr>)))"

text \<open>The client's wait for its turn (\<^verbatim>\<open>LocalForgeClient::run_turn\<close>, \<^verbatim>\<open>client.rs\<close>).\<close>

definition turn_verdict :: "turn_id \<Rightarrow> forge_event \<Rightarrow> (forge_protocol_error + string) option" where
  "turn_verdict t ev =
     (if ev_turn_id ev \<noteq> Some t then None
      else case ev_kind ev of
        TurnCompleted txt \<Rightarrow> Some (Inr txt)
      | TurnFailed msg \<Rightarrow> Some (Inl (AgentError msg))
      | TurnCancelled \<Rightarrow> Some (Inl (AgentError ''turn cancelled''))
      | _ \<Rightarrow> None)"

definition sub_size :: "event_subscription \<Rightarrow> nat" where
  "sub_size sub = length (es_replay sub) + length (es_live sub)"

lemma recv_live_shorter: "recv_live live seen = (Inr ev, live') \<Longrightarrow> length live' < length live"
  by (induction live seen rule: recv_live.induct) (auto split: if_splits)

lemma recv_smaller: "recv sub = (Inr ev, sub') \<Longrightarrow> sub_size sub' < sub_size sub"
  by (auto simp: recv_def sub_size_def split: list.splits prod.splits sum.splits dest: recv_live_shorter)

function await_turn :: "turn_id \<Rightarrow> event_subscription \<Rightarrow> forge_protocol_error + string" where
  "await_turn t sub =
     (case recv sub of
        (Inl e, _) \<Rightarrow> Inl e
      | (Inr ev, sub') \<Rightarrow> (case turn_verdict t ev of Some r \<Rightarrow> r | None \<Rightarrow> await_turn t sub'))"
  by auto
termination by (relation "measure (\<lambda>(t, sub). sub_size sub)") (auto dest: recv_smaller [OF sym])

declare await_turn.simps [simp del]

end
