(* ===== verification/ForgeLog.thy ===== *)
theory ForgeLog
  imports ForgeSession "HOL-Library.Multiset"
begin

text \<open>
  The contract of an event store as a locale, its interpretation on the store kept in memory, and
  the reducer: replaying events, and the invariant of the snapshots it produces.
\<close>

subsection \<open>Consecutive sequence numbers\<close>

fun numbered :: "nat \<Rightarrow> forge_event list \<Rightarrow> bool" where
  \<comment> \<open>the sequence numbers continue after the given one without a gap\<close>
  "numbered m [] = True"
| "numbered m (ev # evs) = (ev_seq ev = Suc m \<and> numbered (Suc m) evs)"

lemma numbered_snoc: "numbered m (evs @ [ev]) \<longleftrightarrow> numbered m evs \<and> ev_seq ev = Suc (m + length evs)"
  by (induction evs arbitrary: m) auto

lemma numbered_last: "numbered m evs \<Longrightarrow> evs \<noteq> [] \<Longrightarrow> ev_seq (last evs) = m + length evs"
  by (induction evs rule: rev_induct) (simp_all add: numbered_snoc)

lemma numbered_less: "numbered m evs \<Longrightarrow> ev \<in> set evs \<Longrightarrow> m < ev_seq ev"
  by (induction evs arbitrary: m) (auto dest: Suc_lessD)

lemma numbered_filter: "numbered m evs \<Longrightarrow> filter (\<lambda>ev. n < ev_seq ev) evs = drop (n - m) evs"
proof (induction evs arbitrary: m)
  case (Cons e es)
  show ?case
  proof (cases "n \<le> m")
    case True
    then have "filter (\<lambda>ev. n < ev_seq ev) (e # es) = e # es"
      using numbered_less [OF Cons.prems] by (fastforce simp: filter_id_conv)
    then show ?thesis using True by simp
  next
    case False
    then obtain k where "n - m = Suc k" "n - Suc m = k" by (metis Suc_diff_Suc not_le)
    then show ?thesis using Cons.IH [of "Suc m"] Cons.prems False by simp
  qed
qed simp

subsection \<open>The contract of an event store\<close>

locale event_log =
  fixes append :: "forge_event \<Rightarrow> 's \<Rightarrow> forge_protocol_error option \<times> 's"
    and load :: "session_id \<Rightarrow> nat \<Rightarrow> 's \<Rightarrow> forge_event list"
    and empty :: 's
    and ok :: "'s \<Rightarrow> bool"
  assumes ok_empty: "ok empty"
    and load_empty: "load sid n empty = []"
    and load_filter: "load sid n s = filter (\<lambda>ev. n < ev_seq ev) (load sid 0 s)"
    and append_ok: "ok s \<Longrightarrow> ok (snd (append ev s))"
    and append_iff: "ok s \<Longrightarrow> fst (append ev s) = None \<longleftrightarrow>
      ev_seq ev = (if load (ev_session_id ev) 0 s = [] then 1 else Suc (ev_seq (last (load (ev_session_id ev) 0 s))))"
    and append_load: "ok s \<Longrightarrow> fst (append ev s) = None \<Longrightarrow>
      load sid 0 (snd (append ev s)) = load sid 0 s @ (if sid = ev_session_id ev then [ev] else [])"
    and append_refused: "ok s \<Longrightarrow> fst (append ev s) \<noteq> None \<Longrightarrow> load sid 0 (snd (append ev s)) = load sid 0 s"
begin

definition written :: "'s \<Rightarrow> bool" where
  "written s \<longleftrightarrow> (\<exists>evs. s = fold (\<lambda>ev s. snd (append ev s)) evs empty)"

lemma written_empty: "written empty"
  unfolding written_def by (rule exI [of _ "[]"]) simp

lemma written_append: "written s \<Longrightarrow> written (snd (append ev s))"
  unfolding written_def
proof (elim exE)
  fix evs assume "s = fold (\<lambda>ev s. snd (append ev s)) evs empty"
  then show "\<exists>evs. snd (append ev s) = fold (\<lambda>ev s. snd (append ev s)) evs empty"
    by (intro exI [of _ "evs @ [ev]"]) simp
qed

lemma written_induct [consumes 1, case_names empty append]:
  assumes "written s" "P empty" "\<And>ev s. written s \<Longrightarrow> P s \<Longrightarrow> P (snd (append ev s))"
  shows "P s"
proof -
  have "written (fold (\<lambda>ev s. snd (append ev s)) evs empty) \<and> P (fold (\<lambda>ev s. snd (append ev s)) evs empty)" for evs
    by (induction evs rule: rev_induct) (simp_all add: assms(2,3) written_empty written_append)
  then show ?thesis using assms(1) unfolding written_def by blast
qed

lemma written_ok: "written s \<Longrightarrow> ok s"
  by (induction rule: written_induct) (simp_all add: ok_empty append_ok)

lemma contiguous:
  "written s \<Longrightarrow> numbered 0 (load sid 0 s) \<and> (\<forall>ev \<in> set (load sid 0 s). ev_session_id ev = sid)"
proof (induction arbitrary: sid rule: written_induct)
  case (append ev s)
  show ?case
  proof (cases "fst (append ev s) = None")
    case True
    then have "ev_seq ev = Suc (length (load (ev_session_id ev) 0 s))"
      using append_iff [OF written_ok [OF append.hyps]] numbered_last append.IH [of "ev_session_id ev"]
      by (auto split: if_splits)
    then show ?thesis
      using append_load [OF written_ok [OF append.hyps] True, of sid] append.IH [of sid] by (auto simp: numbered_snoc)
  next
    case False
    then show ?thesis using append_refused [OF written_ok [OF append.hyps], of ev sid] append.IH [of sid] by simp
  qed
qed (simp add: load_empty)

lemma last_seq: "written s \<Longrightarrow> load sid 0 s \<noteq> [] \<Longrightarrow> ev_seq (last (load sid 0 s)) = length (load sid 0 s)"
  using contiguous [of s sid] numbered_last by auto

lemma accepts_iff:
  "written s \<Longrightarrow> fst (append ev s) = None \<longleftrightarrow> ev_seq ev = Suc (length (load (ev_session_id ev) 0 s))"
  using append_iff [OF written_ok] last_seq by auto

lemma load_drop: "written s \<Longrightarrow> load sid n s = drop n (load sid 0 s)"
  using numbered_filter [of 0 "load sid 0 s" n] contiguous [of s sid] load_filter [of sid n s] by simp

end

interpretation mem: event_log store_append store_load Map.empty "\<lambda>st. \<forall>sid. \<forall>ev \<in> set (stored st sid). 0 < ev_seq ev"
proof
  fix st :: event_store and ev :: forge_event and sid
  assume pos: "\<forall>sid. \<forall>ev \<in> set (stored st sid). 0 < ev_seq ev"
  have load: "store_load sid 0 st = stored st sid" for sid
    using pos by (auto simp: store_load_def)
  show pos': "\<forall>sid. \<forall>ev' \<in> set (stored (snd (store_append ev st)) sid). 0 < ev_seq ev'"
    using pos by (auto simp: store_append_def stored_def Let_def split: option.splits if_splits)
  show "(fst (store_append ev st) = None) = (ev_seq ev =
    (if store_load (ev_session_id ev) 0 st = [] then 1 else Suc (ev_seq (last (store_load (ev_session_id ev) 0 st)))))"
    unfolding load by (auto simp: store_append_def Let_def)
  have load': "store_load sid 0 (snd (store_append ev st)) = stored (snd (store_append ev st)) sid" for sid
    using pos' by (auto simp: store_load_def)
  show "fst (store_append ev st) = None \<Longrightarrow> store_load sid 0 (snd (store_append ev st)) =
    store_load sid 0 st @ (if sid = ev_session_id ev then [ev] else [])"
    unfolding load load' by (auto simp: store_append_def stored_def Let_def split: if_splits)
  show "fst (store_append ev st) \<noteq> None \<Longrightarrow> store_load sid 0 (snd (store_append ev st)) = store_load sid 0 st"
    unfolding load load' by (auto simp: store_append_def stored_def Let_def split: if_splits option.splits)
next
  fix sid n and st :: event_store
  show "store_load sid n st = filter (\<lambda>ev. n < ev_seq ev) (store_load sid 0 st)"
    unfolding store_load_def filter_filter by (rule filter_cong) auto
qed (auto simp: store_load_def stored_def)

lemma load_stored: "mem.written st \<Longrightarrow> store_load sid 0 st = stored st sid"
  using mem.written_ok [of st] by (auto simp: store_load_def)

subsection \<open>Replay\<close>

fun replay :: "forge_event list \<Rightarrow> session_snapshot \<Rightarrow> forge_protocol_error + session_snapshot" where
  "replay [] s = Inr s"
| "replay (ev # evs) s = (case apply_event ev s of Inl e \<Rightarrow> Inl e | Inr s' \<Rightarrow> replay evs s')"

lemma replay_snoc: "replay (evs @ [ev]) s = (case replay evs s of Inl e \<Rightarrow> Inl e | Inr s' \<Rightarrow> apply_event ev s')"
  by (induction evs arbitrary: s) (auto split: sum.splits)

definition snapshot_ok :: "session_snapshot \<Rightarrow> bool" where
  "snapshot_ok s \<longleftrightarrow>
     (\<forall>t ts. sn_turns s t = Some ts \<longrightarrow> ts_id ts = t \<and> (is_terminal (ts_status ts) \<longleftrightarrow> sn_active_turn s \<noteq> Some t)) \<and>
     (\<forall>t. sn_active_turn s = Some t \<longrightarrow> sn_turns s t \<noteq> None \<and> sn_status s = SessActive)"

lemma snapshot_ok_uninitialized: "snapshot_ok (uninitialized sid spec)"
  by (simp add: snapshot_ok_def uninitialized_def)

lemma snapshot_ok_seq [simp]: "snapshot_ok (s\<lparr>sn_last_seq := n\<rparr>) = snapshot_ok s"
  by (simp add: snapshot_ok_def)

lemma snapshot_ok_put_turn:
  assumes "snapshot_ok s" "sn_active_turn s = Some t" "ts_id ts = t" "\<not> is_terminal (ts_status ts)"
  shows "snapshot_ok (put_turn t ts s)"
  using assms by (auto simp: snapshot_ok_def put_turn_def)

lemma snapshot_ok_end_turn:
  assumes "snapshot_ok s" "sn_active_turn s = Some t" "ts_id ts = t" "is_terminal (ts_status ts)"
  shows "snapshot_ok (end_turn t ts s)"
  using assms by (auto simp: snapshot_ok_def end_turn_def put_turn_def)

lemma active_turn_mut_Inr:
  "active_turn_mut ev s = Inr (t, ts) \<longleftrightarrow> ev_turn_id ev = Some t \<and> sn_active_turn s = Some t \<and> sn_turns s t = Some ts"
  by (auto simp: active_turn_mut_def split: option.splits if_splits)

lemma snapshot_ok_active: "snapshot_ok s \<Longrightarrow> sn_turns s t = Some ts \<Longrightarrow> ts_id ts = t"
  by (auto simp: snapshot_ok_def)

lemma activity_unchanged: "active_turn_activity ev s = Inr s' \<Longrightarrow> s' = s"
  by (auto simp: active_turn_activity_def split: sum.splits if_splits)

lemma put_end_fields [simp]:
  "sn_id (put_turn t ts s) = sn_id s" "sn_spec (put_turn t ts s) = sn_spec s"
  "sn_id (end_turn t ts s) = sn_id s" "sn_spec (end_turn t ts s) = sn_spec s"
  by (simp_all add: put_turn_def end_turn_def)

lemma apply_kind_started:
  assumes "apply_kind ev s = Inr s'" "ev_kind ev = TurnStarted input" "snapshot_ok s"
  shows "snapshot_ok s'"
proof -
  from assms(1,2) obtain t where t: "ensure_can_start s = None" "ev_turn_id ev = Some t"
    "s' = (put_turn t \<lparr>ts_id = t, ts_input = input, ts_status = Running, ts_output = None, ts_error = None\<rparr> s)
            \<lparr>sn_active_turn := Some t\<rparr>"
    by (auto simp: apply_kind_def split: option.splits)
  then have "sn_active_turn s = None" "sn_status s = SessActive"
    by (auto simp: ensure_can_start_def split: if_splits) (cases "sn_status s"; simp)
  then show ?thesis using assms(3) t(3) by (auto simp: snapshot_ok_def put_turn_def)
qed

lemma apply_kind_ok:
  assumes "apply_kind ev s = Inr s'" "snapshot_ok s"
  shows "snapshot_ok s'"
proof (cases "ev_kind ev")
  case SessionClosed
  then show ?thesis using assms by (auto simp: apply_kind_def snapshot_ok_def split: if_splits)
next
  case TurnStarted
  then show ?thesis using apply_kind_started assms by blast
next
  case (TurnOutputDelta d)
  then show ?thesis using assms activity_unchanged [of ev s s'] by (auto simp: apply_kind_def)
next
  case (ToolStarted d)
  then show ?thesis using assms activity_unchanged [of ev s s'] by (auto simp: apply_kind_def)
next
  case (ToolCompleted n b d)
  then show ?thesis using assms activity_unchanged [of ev s s'] by (auto simp: apply_kind_def)
next
  case (ToolCancelled d)
  then show ?thesis using assms activity_unchanged [of ev s s'] by (auto simp: apply_kind_def)
qed (use assms in \<open>auto simp: apply_kind_def active_turn_mut_Inr snapshot_ok_active
      intro!: snapshot_ok_put_turn snapshot_ok_end_turn split: if_splits sum.splits\<close>)

lemma apply_kind_fields:
  assumes "apply_kind ev s = Inr s'"
  shows "sn_id s' = sn_id s \<and> sn_spec s' = sn_spec s"
proof -
  have "active_turn_activity ev s = Inr s' \<Longrightarrow> ?thesis" using activity_unchanged by metis
  then show ?thesis using assms
    by (cases "ev_kind ev") (auto simp: apply_kind_def split: if_splits sum.splits option.splits)
qed

lemma apply_event_ok:
  assumes "apply_event ev s = Inr s'" "snapshot_ok s"
  shows "snapshot_ok s' \<and> sn_id s' = sn_id s \<and> sn_spec s' = sn_spec s \<and> sn_last_seq s' = Suc (sn_last_seq s)"
proof -
  from assms(1) obtain s1 where "apply_kind ev s = Inr s1" "s' = s1\<lparr>sn_last_seq := Suc (sn_last_seq s)\<rparr>"
    by (auto simp: apply_event_def split: if_splits sum.splits)
  then show ?thesis using apply_kind_ok [of ev s s1] apply_kind_fields [of ev s s1] assms(2) by simp
qed

end
