(* ===== verification/ForgeService.thy ===== *)
theory ForgeService
  imports ForgeLog
begin

text \<open>
  The service over any interleaving of its lock sections and sends: the invariant that ties each
  session's snapshot to the store, idempotent commands, subscriptions that deliver every event
  once, and the commands after which a session accepts nothing any more.
\<close>

subsection \<open>The invariant of a session\<close>

definition receipts_ok :: "forge_event list \<Rightarrow> nat \<Rightarrow> (command_id \<rightharpoonup> command_receipt) \<Rightarrow> bool" where
  "receipts_ok evs n rs \<longleftrightarrow>
     (\<forall>c r. rs c = Some r \<longrightarrow> cr_command_id r = c \<and>
        (\<exists>i < n. cr_accepted_seq r = Suc i \<and> i < length evs \<and> ev_causation_id (evs ! i) = Some c \<and>
                 ev_turn_id (evs ! i) = cr_turn_id r)) \<and>
     (\<forall>c. \<forall>i < n. ev_causation_id (evs ! i) = Some c \<longrightarrow> (\<exists>r. rs c = Some r \<and> cr_accepted_seq r = Suc i))"

definition session_ok :: "session_id \<Rightarrow> forge_event list \<Rightarrow> session_runtime \<Rightarrow> bool" where
  "session_ok sid evs rt \<longleftrightarrow>
     (let sn = sr_snapshot rt; n = sn_last_seq sn
      in sn_id sn = sid \<and> 0 < n \<and> n \<le> length evs \<and> length evs \<le> Suc n \<and>
         replay (take n evs) (uninitialized sid (sn_spec sn)) = Inr sn \<and> snapshot_ok sn \<and>
         mset (sr_events rt @ sr_outbox rt) = mset (tl (take n evs)) \<and>
         receipts_ok evs n (sr_receipts rt))"

definition svc_inv :: "forge_service \<Rightarrow> bool" where
  "svc_inv sv \<longleftrightarrow> mem.written (sv_store sv) \<and>
     (\<forall>sid. sv_sessions sv sid = None \<longrightarrow> stored (sv_store sv) sid = []) \<and>
     (\<forall>sid rt. sv_sessions sv sid = Some rt \<longrightarrow> session_ok sid (stored (sv_store sv) sid) rt)"

lemma svc_inv_session: "svc_inv sv \<Longrightarrow> sv_sessions sv sid = Some rt \<Longrightarrow> session_ok sid (stored (sv_store sv) sid) rt"
  unfolding svc_inv_def by blast

lemma svc_inv_exec [simp]: "svc_inv (sv\<lparr>sv_next_exec := k\<rparr>) = svc_inv sv" "svc_inv (sv\<lparr>sv_cancelled := C\<rparr>) = svc_inv sv"
  by (simp_all add: svc_inv_def)

lemma store_append_cases:
  assumes "mem.written st" "store_append ev st = (res, st')"
  shows "mem.written st' \<and>
         (if ev_seq ev = Suc (length (stored st (ev_session_id ev)))
          then res = None \<and> stored st' = (stored st)(ev_session_id ev := stored st (ev_session_id ev) @ [ev])
          else (\<exists>e. res = Some (SequenceConflict e (ev_seq ev))) \<and> stored st' = stored st)"
proof -
  have w: "mem.written st'" using mem.written_append [OF assms(1), of ev] assms(2) by simp
  have iff: "res = None \<longleftrightarrow> ev_seq ev = Suc (length (stored st (ev_session_id ev)))"
    using mem.accepts_iff [OF assms(1), of ev] assms load_stored by simp
  show ?thesis
  proof (cases "res = None")
    case True
    then have "stored st' sid = stored st sid @ (if sid = ev_session_id ev then [ev] else [])" for sid
      using mem.append_load [OF mem.written_ok [OF assms(1)], of ev sid] assms w by (simp add: load_stored)
    then show ?thesis using w iff True by (auto simp: fun_eq_iff)
  next
    case False
    then have "stored st' sid = stored st sid" for sid
      using mem.append_refused [OF mem.written_ok [OF assms(1)], of ev sid] assms w by (simp add: load_stored)
    moreover have "\<exists>e. res = Some (SequenceConflict e (ev_seq ev))"
      using False assms(2) by (auto simp: store_append_def Let_def split: if_splits)
    ultimately show ?thesis using w iff False by (auto simp: fun_eq_iff)
  qed
qed

subsection \<open>One lock section\<close>

definition rest_ok :: "forge_event \<Rightarrow> (session_runtime \<Rightarrow> session_runtime) \<Rightarrow> session_runtime \<Rightarrow> bool" where
  \<comment> \<open>the rest of a lock section adds the receipt of a new command, or the event has no cause\<close>
  "rest_ok ev rest rt \<longleftrightarrow>
     sr_snapshot (rest rt) = sr_snapshot rt \<and> sr_outbox (rest rt) = sr_outbox rt \<and> sr_events (rest rt) = sr_events rt \<and>
     (sr_receipts (rest rt) = sr_receipts rt \<and> ev_causation_id ev = None \<or>
      (\<exists>r. sr_receipts (rest rt) = (sr_receipts rt)(cr_command_id r \<mapsto> r) \<and> sr_receipts rt (cr_command_id r) = None \<and>
           cr_accepted_seq r = ev_seq ev \<and> ev_causation_id ev = Some (cr_command_id r) \<and> ev_turn_id ev = cr_turn_id r))"

lemma receipts_okI:
  assumes "\<And>c r. rs c = Some r \<Longrightarrow> cr_command_id r = c \<and>
        (\<exists>i < n. cr_accepted_seq r = Suc i \<and> i < length evs \<and> ev_causation_id (evs ! i) = Some c \<and>
                 ev_turn_id (evs ! i) = cr_turn_id r)"
    and "\<And>c i. i < n \<Longrightarrow> ev_causation_id (evs ! i) = Some c \<Longrightarrow> \<exists>r. rs c = Some r \<and> cr_accepted_seq r = Suc i"
  shows "receipts_ok evs n rs"
  using assms unfolding receipts_ok_def by blast

lemma receipts_okE:
  assumes "receipts_ok evs n rs" "rs c = Some r"
  obtains i where "cr_command_id r = c" "i < n" "cr_accepted_seq r = Suc i" "i < length evs"
    "ev_causation_id (evs ! i) = Some c" "ev_turn_id (evs ! i) = cr_turn_id r"
  using assms unfolding receipts_ok_def by blast

lemma receipts_ok_cause:
  "receipts_ok evs n rs \<Longrightarrow> i < n \<Longrightarrow> ev_causation_id (evs ! i) = Some c \<Longrightarrow> \<exists>r. rs c = Some r \<and> cr_accepted_seq r = Suc i"
  unfolding receipts_ok_def by blast

lemma receipts_ok_grow:
  assumes "receipts_ok evs n rs" "n \<le> length evs"
  shows "receipts_ok (evs @ evs') n rs"
proof (rule receipts_okI)
  fix c r assume "rs c = Some r"
  from receipts_okE [OF assms(1) this] obtain i where "cr_command_id r = c" "i < n" "cr_accepted_seq r = Suc i"
    "i < length evs" "ev_causation_id (evs ! i) = Some c" "ev_turn_id (evs ! i) = cr_turn_id r" .
  then show "cr_command_id r = c \<and> (\<exists>i < n. cr_accepted_seq r = Suc i \<and> i < length (evs @ evs') \<and>
      ev_causation_id ((evs @ evs') ! i) = Some c \<and> ev_turn_id ((evs @ evs') ! i) = cr_turn_id r)"
    by (intro conjI exI [of _ i]) (simp_all add: nth_append)
qed (use assms in \<open>auto simp: nth_append dest: receipts_ok_cause\<close>)

lemma receipts_ok_snoc:
  assumes ok: "receipts_ok evs (length evs) rs"
    and new: "rs' = rs \<and> ev_causation_id ev = None \<or>
      (\<exists>r. rs' = rs(cr_command_id r \<mapsto> r) \<and> rs (cr_command_id r) = None \<and> cr_accepted_seq r = Suc (length evs) \<and>
           ev_causation_id ev = Some (cr_command_id r) \<and> ev_turn_id ev = cr_turn_id r)"
  shows "receipts_ok (evs @ [ev]) (Suc (length evs)) rs'"
proof (rule receipts_okI)
  fix c r assume r: "rs' c = Some r"
  show "cr_command_id r = c \<and> (\<exists>i < Suc (length evs). cr_accepted_seq r = Suc i \<and> i < length (evs @ [ev]) \<and>
      ev_causation_id ((evs @ [ev]) ! i) = Some c \<and> ev_turn_id ((evs @ [ev]) ! i) = cr_turn_id r)"
  proof (cases "rs c = Some r")
    case True
    from receipts_okE [OF ok this] obtain i where "cr_command_id r = c" "i < length evs" "cr_accepted_seq r = Suc i"
      "ev_causation_id (evs ! i) = Some c" "ev_turn_id (evs ! i) = cr_turn_id r" .
    then show ?thesis by (intro conjI exI [of _ i]) (simp_all add: nth_append)
  next
    case False
    then show ?thesis using r new by (auto intro!: exI [of _ "length evs"] split: if_splits)
  qed
next
  fix c i assume "i < Suc (length evs)" and cause: "ev_causation_id ((evs @ [ev]) ! i) = Some c"
  then consider "i < length evs" | "i = length evs" by linarith
  then show "\<exists>r. rs' c = Some r \<and> cr_accepted_seq r = Suc i"
  proof cases
    case 1
    then obtain r where "rs c = Some r" "cr_accepted_seq r = Suc i"
      using receipts_ok_cause [OF ok 1, of c] cause by (auto simp: nth_append)
    then show ?thesis using new by auto
  qed (use new cause in auto)
qed

lemma session_ok_refused:
  "session_ok sid evs rt \<Longrightarrow> length evs = sn_last_seq (sr_snapshot rt) \<Longrightarrow> session_ok sid (evs @ [ev]) rt"
  by (simp add: session_ok_def Let_def receipts_ok_grow)

lemma session_ok_applied:
  assumes ok: "session_ok sid evs rt" and len: "length evs = sn_last_seq (sr_snapshot rt)"
    and app: "apply_event ev (sr_snapshot rt) = Inr sn" and seq: "ev_seq ev = Suc (length evs)"
    and rest: "rest_ok ev rest (rt\<lparr>sr_snapshot := sn, sr_outbox := sr_outbox rt @ [ev]\<rparr>)"
  shows "session_ok sid (evs @ [ev]) (rest (rt\<lparr>sr_snapshot := sn, sr_outbox := sr_outbox rt @ [ev]\<rparr>))"
proof -
  let ?rt = "rt\<lparr>sr_snapshot := sn, sr_outbox := sr_outbox rt @ [ev]\<rparr>"
  have sn: "snapshot_ok sn" "sn_id sn = sid" "sn_spec sn = sn_spec (sr_snapshot rt)" "sn_last_seq sn = Suc (length evs)"
    using apply_event_ok [OF app] ok len by (simp_all add: session_ok_def Let_def)
  have "replay (evs @ [ev]) (uninitialized sid (sn_spec sn)) = Inr sn"
    using ok len app sn by (simp add: session_ok_def Let_def replay_snoc)
  moreover have "mset (sr_events rt @ sr_outbox rt @ [ev]) = mset (tl (evs @ [ev]))"
    using ok len by (cases evs) (auto simp: session_ok_def Let_def)
  moreover have "receipts_ok (evs @ [ev]) (Suc (length evs)) (sr_receipts (rest ?rt))"
    using rest seq ok len by (intro receipts_ok_snoc [of _ "sr_receipts rt"]) (simp_all add: session_ok_def Let_def rest_ok_def)
  ultimately show ?thesis using rest sn by (simp add: session_ok_def Let_def rest_ok_def)
qed

lemma svc_inv_update:
  assumes "svc_inv sv" "mem.written st" "stored st = (stored (sv_store sv))(sid := evs)" "session_ok sid evs rt"
  shows "svc_inv (sv\<lparr>sv_store := st, sv_sessions := (sv_sessions sv)(sid \<mapsto> rt)\<rparr>)"
  using assms unfolding svc_inv_def by simp

lemma svc_inv_store:
  assumes "svc_inv sv" "mem.written st" "stored st = (stored (sv_store sv))(sid := evs)"
    "sv_sessions sv sid = Some rt" "session_ok sid evs rt"
  shows "svc_inv (sv\<lparr>sv_store := st\<rparr>)"
proof -
  have "sv\<lparr>sv_store := st\<rparr> = sv\<lparr>sv_store := st, sv_sessions := (sv_sessions sv)(sid \<mapsto> rt)\<rparr>"
    using assms(4) by (simp add: fun_upd_idem)
  then show ?thesis using svc_inv_update [OF assms(1,2,3,5)] by simp
qed

lemma commit_event_inv:
  assumes inv: "svc_inv sv" and rt: "sv_sessions sv sid = Some rt" and ev: "ev_session_id ev = sid"
    "ev_seq ev = Suc (sn_last_seq (sr_snapshot rt))" and rest: "\<And>sn. rest_ok ev rest (rt\<lparr>sr_snapshot := sn, sr_outbox := sr_outbox rt @ [ev]\<rparr>)"
    and run: "commit_event ev rest sid rt sv = (res, sv')"
  shows "svc_inv sv'"
proof -
  obtain r st where app: "store_append ev (sv_store sv) = (r, st)" by fastforce
  let ?evs = "stored (sv_store sv) sid"
  have ok: "session_ok sid ?evs rt" using svc_inv_session [OF inv rt] .
  have w: "mem.written (sv_store sv)" using inv by (simp add: svc_inv_def)
  note c = store_append_cases [OF w app, unfolded ev(1)]
  show ?thesis
  proof (cases "length ?evs = sn_last_seq (sr_snapshot rt)")
    case True
    then have st: "r = None" "mem.written st" "stored st = (stored (sv_store sv))(sid := ?evs @ [ev])"
      using c ev(2) by simp_all
    show ?thesis
    proof (cases "apply_event ev (sr_snapshot rt)")
      case (Inl e)
      then show ?thesis using run app st svc_inv_store [OF inv st(2,3) rt session_ok_refused [OF ok True]]
        by (simp add: commit_event_def)
    next
      case (Inr sn)
      then show ?thesis
        using run app st svc_inv_update [OF inv st(2,3) session_ok_applied [OF ok True Inr _ rest]] ev(2) True
        by (simp add: commit_event_def)
    qed
  next
    case False
    then have "r \<noteq> None" "mem.written st" "stored st = (stored (sv_store sv))(sid := ?evs)" using c ev(2) by auto
    then show ?thesis using run app svc_inv_store [OF inv _ _ rt ok] by (auto simp: commit_event_def split: option.splits)
  qed
qed

subsection \<open>Histories\<close>

datatype svc_action =
    Create stamp "session_spec command_envelope"
  | Start stamp "(turn_id \<times> string) command_envelope"
  | Cancel stamp "turn_id command_envelope"
  | Record stamp session_id "turn_id option" forge_event_kind
  | Terminal stamp session_id turn_id forge_event_kind
  | Send session_id nat

fun svc_step :: "svc_action \<Rightarrow> forge_service \<Rightarrow> forge_service" where
  "svc_step (Create stamp cmd) sv = snd (create_commit stamp cmd sv)"
| "svc_step (Start stamp cmd) sv = snd (start_turn stamp cmd sv)"
| "svc_step (Cancel stamp cmd) sv = snd (cancel_turn stamp cmd sv)"
| "svc_step (Record stamp sid turn kind) sv = snd (record_event stamp sid turn None kind sv)"
| "svc_step (Terminal stamp sid t kind) sv = snd (record_terminal_event stamp sid t kind sv)"
| "svc_step (Send sid i) sv = send_event sid i sv"

abbreviation svc_run :: "svc_action list \<Rightarrow> forge_service \<Rightarrow> forge_service" where
  "svc_run acts sv \<equiv> fold svc_step acts sv"

lemma new_event_sel [simp]:
  "ev_session_id (new_event stamp sid seq turn causation kind) = sid"
  "ev_seq (new_event stamp sid seq turn causation kind) = seq"
  "ev_turn_id (new_event stamp sid seq turn causation kind) = turn"
  "ev_causation_id (new_event stamp sid seq turn causation kind) = causation"
  "ev_kind (new_event stamp sid seq turn causation kind) = kind"
  by (simp_all add: new_event_def)

lemma session_Inr [simp]: "session sid sv = Inr rt \<longleftrightarrow> sv_sessions sv sid = Some rt"
  by (auto simp: session_def split: option.splits)

lemma rest_ok_start:
  "sr_receipts rt (ce_command_id cmd) = None \<Longrightarrow>
   rest_ok (new_event stamp sid seq (Some t) (Some (ce_command_id cmd)) kind)
     (\<lambda>rt. add_receipt (turn_receipt cmd t seq) (rt\<lparr>sr_active_execution := x\<rparr>)) rt"
  by (auto simp: rest_ok_def add_receipt_def turn_receipt_def intro!: exI [of _ "turn_receipt cmd t seq"])

lemma rest_ok_cancel:
  "sr_receipts rt (ce_command_id cmd) = None \<Longrightarrow>
   rest_ok (new_event stamp sid seq (Some t) (Some (ce_command_id cmd)) kind) (add_receipt (turn_receipt cmd t seq)) rt"
  by (auto simp: rest_ok_def add_receipt_def turn_receipt_def intro!: exI [of _ "turn_receipt cmd t seq"])

lemma rest_ok_id: "ev_causation_id ev = None \<Longrightarrow> rest_ok ev (\<lambda>rt. rt) rt"
  and rest_ok_clear: "ev_causation_id ev = None \<Longrightarrow> rest_ok ev (clear_execution t) rt"
  by (simp_all add: rest_ok_def clear_execution_def)

definition core :: "forge_service \<Rightarrow> event_store \<times> (session_id \<rightharpoonup> session_runtime)" where
  "core sv = (sv_store sv, sv_sessions sv)"

lemma core_exec [simp]: "core (sv\<lparr>sv_next_exec := k\<rparr>) = core sv" "core (sv\<lparr>sv_cancelled := C\<rparr>) = core sv"
  by (simp_all add: core_def)

lemma core_sel: "core sv = core sv' \<Longrightarrow> sv_store sv = sv_store sv' \<and> sv_sessions sv = sv_sessions sv'"
  by (simp add: core_def)

lemma svc_inv_core: "core sv = core sv' \<Longrightarrow> svc_inv sv = svc_inv sv'"
  by (simp add: core_def svc_inv_def)

lemma commit_event_exec:
  "core (snd (commit_event ev rest sid rt (sv\<lparr>sv_next_exec := k\<rparr>))) = core (snd (commit_event ev rest sid rt sv))"
  "fst (commit_event ev rest sid rt (sv\<lparr>sv_next_exec := k\<rparr>)) = fst (commit_event ev rest sid rt sv)"
  by (auto simp: commit_event_def core_def split: prod.splits option.splits sum.splits)

definition commits :: "session_id \<Rightarrow> forge_service \<Rightarrow> forge_service \<Rightarrow> bool" where
  \<comment> \<open>the new state comes from a lock section that tries to record one event of the session\<close>
  "commits sid sv sv' \<longleftrightarrow>
     (\<exists>rt ev rest. sv_sessions sv sid = Some rt \<and> ev_session_id ev = sid \<and>
        ev_seq ev = Suc (sn_last_seq (sr_snapshot rt)) \<and>
        (\<forall>sn. rest_ok ev rest (rt\<lparr>sr_snapshot := sn, sr_outbox := sr_outbox rt @ [ev]\<rparr>)) \<and>
        core sv' = core (snd (commit_event ev rest sid rt sv)))"

lemma commitsI:
  assumes "sv_sessions sv sid = Some rt"
    and "\<And>sn. rest_ok (new_event stamp sid (Suc (sn_last_seq (sr_snapshot rt))) turn causation kind) rest
          (rt\<lparr>sr_snapshot := sn,
             sr_outbox := sr_outbox rt @ [new_event stamp sid (Suc (sn_last_seq (sr_snapshot rt))) turn causation kind]\<rparr>)"
    and "core sv' = core (snd (commit_event
           (new_event stamp sid (Suc (sn_last_seq (sr_snapshot rt))) turn causation kind) rest sid rt sv))"
  shows "commits sid sv sv'"
  unfolding commits_def using assms by (metis new_event_sel(1,2))

lemma commits_inv: "commits sid sv sv' \<Longrightarrow> svc_inv sv \<Longrightarrow> svc_inv sv'"
  unfolding commits_def by (metis commit_event_inv svc_inv_core surjective_pairing)

lemma start_turn_cases:
  "core (snd (start_turn stamp cmd sv)) = core sv \<or> commits (ce_session_id cmd) sv (snd (start_turn stamp cmd sv))"
proof -
  have "commits (ce_session_id cmd) sv sv'"
    if "sv_sessions sv (ce_session_id cmd) = Some rt" "sr_receipts rt (ce_command_id cmd) = None"
      "core sv' = core (snd (commit_event (new_event stamp (ce_session_id cmd) (Suc (sn_last_seq (sr_snapshot rt))) (Some t)
        (Some (ce_command_id cmd)) (TurnStarted input))
       (\<lambda>rt'. add_receipt (turn_receipt cmd t (Suc (sn_last_seq (sr_snapshot rt)))) (rt'\<lparr>sr_active_execution := x\<rparr>))
       (ce_session_id cmd) rt (sv\<lparr>sv_next_exec := k\<rparr>)))" for rt t input x k sv'
    by (rule commitsI [OF that(1) rest_ok_start]) (simp_all add: that commit_event_exec)
  note committed = this [OF _ _ arg_cong [where f = "\<lambda>p. core (snd p)", of "(_, _)", OF sym, simplified]]
  show ?thesis
    by (auto simp: start_turn_def Let_def split: option.splits sum.splits prod.splits intro: committed)
qed

lemma cancel_turn_cases:
  "core (snd (cancel_turn stamp cmd sv)) = core sv \<or> commits (ce_session_id cmd) sv (snd (cancel_turn stamp cmd sv))"
proof -
  have "commits (ce_session_id cmd) sv sv'"
    if "sv_sessions sv (ce_session_id cmd) = Some rt" "sr_receipts rt (ce_command_id cmd) = None"
      "commit_event (new_event stamp (ce_session_id cmd) (Suc (sn_last_seq (sr_snapshot rt))) (Some t)
        (Some (ce_command_id cmd)) TurnCancelRequested)
       (add_receipt (turn_receipt cmd t (Suc (sn_last_seq (sr_snapshot rt)))))
       (ce_session_id cmd) rt sv = (res, sv1)" "core sv' = core sv1" for rt t res sv1 sv'
    by (rule commitsI [OF that(1) rest_ok_cancel [of _ cmd stamp "ce_session_id cmd" _ t TurnCancelRequested]])
      (use that in simp_all)
  then show ?thesis
    by (auto simp: cancel_turn_def Let_def split: option.splits sum.splits prod.splits)
qed

lemma record_event_cases:
  assumes "svc_inv sv"
  shows "core (snd (record_event stamp sid turn None kind sv)) = core sv \<or>
         commits sid sv (snd (record_event stamp sid turn None kind sv))"
proof (cases "sv_sessions sv sid")
  case (Some rt)
  have "sn_id (sr_snapshot rt) = sid" using svc_inv_session [OF assms Some] by (simp add: session_ok_def Let_def)
  then show ?thesis using Some
    by (intro disjI2 commitsI [OF Some rest_ok_id, of stamp turn None kind])
      (auto simp: record_event_def session_def Let_def split: option.splits prod.splits)
qed (simp add: record_event_def session_def)

lemma record_terminal_event_cases:
  "core (snd (record_terminal_event stamp sid t kind sv)) = core sv \<or>
   commits sid sv (snd (record_terminal_event stamp sid t kind sv))"
proof (cases "sv_sessions sv sid")
  case (Some rt)
  then show ?thesis
    by (intro disjI2 commitsI [OF Some rest_ok_clear [of _ t], of stamp "Some t" None kind])
      (auto simp: record_terminal_event_def session_def Let_def split: option.splits prod.splits)
qed (simp add: record_terminal_event_def session_def)

lemma create_commit_inv:
  assumes inv: "svc_inv sv"
  shows "svc_inv (snd (create_commit stamp cmd sv))"
proof -
  let ?sid = "ce_session_id cmd" and ?c = "ce_command_id cmd"
  let ?ev = "new_event stamp ?sid 1 None (Some ?c) SessionCreated"
  obtain r st where app: "store_append ?ev (sv_store sv) = (r, st)" by fastforce
  have w: "mem.written (sv_store sv)" using inv by (simp add: svc_inv_def)
  note c = store_append_cases [OF w app, simplified]
  show ?thesis
  proof (cases "stored (sv_store sv) ?sid = []")
    case True
    have none: "sv_sessions sv ?sid = None"
      using True svc_inv_session [OF inv, of ?sid] by (cases "sv_sessions sv ?sid") (fastforce simp: session_ok_def Let_def)+
    let ?r = "\<lparr>cr_command_id = ?c, cr_session_id = ?sid, cr_turn_id = None, cr_accepted_seq = 1\<rparr>"
    let ?sn = "(uninitialized ?sid (ce_payload cmd))\<lparr>sn_last_seq := 1\<rparr>"
    have ap: "apply_event ?ev (uninitialized ?sid (ce_payload cmd)) = Inr ?sn"
      by (simp add: apply_event_def apply_kind_def uninitialized_def)
    have "session_ok ?sid [?ev] \<lparr>sr_snapshot = ?sn, sr_receipts = [?c \<mapsto> ?r], sr_active_execution = None,
        sr_outbox = [], sr_events = []\<rparr>"
      using ap by (auto simp: session_ok_def Let_def receipts_ok_def snapshot_ok_uninitialized)
        (simp add: uninitialized_def)+
    then show ?thesis
      using c app True none ap svc_inv_update [OF inv, of st ?sid "[?ev]"] by (simp add: create_commit_def Let_def)
  next
    case False
    then have "r \<noteq> None" "mem.written st" "stored st = stored (sv_store sv)" using c by auto
    then show ?thesis using app inv by (auto simp: create_commit_def Let_def svc_inv_def split: option.splits)
  qed
qed

lemma send_event_inv:
  assumes "svc_inv sv"
  shows "svc_inv (send_event sid i sv)"
proof (cases "sv_sessions sv sid")
  case (Some rt)
  have ms: "mset (take i xs @ drop (Suc i) xs) + {#xs ! i#} = mset xs" if "i < length xs" for xs :: "forge_event list"
    using that by (metis add_mset_add_single id_take_nth_drop mset.simps(2) mset_append union_mset_add_mset_right)
  show ?thesis
  proof (cases "i < length (sr_outbox rt)")
    case True
    let ?rt = "rt\<lparr>sr_events := sr_events rt @ [sr_outbox rt ! i], sr_outbox := take i (sr_outbox rt) @ drop (Suc i) (sr_outbox rt)\<rparr>"
    have "session_ok sid (stored (sv_store sv) sid) ?rt"
      using svc_inv_session [OF assms Some] ms [OF True] by (simp add: session_ok_def Let_def)
    then have "svc_inv (sv\<lparr>sv_store := sv_store sv, sv_sessions := (sv_sessions sv)(sid \<mapsto> ?rt)\<rparr>)"
      using assms by (intro svc_inv_update) (auto simp: svc_inv_def)
    then show ?thesis using Some True by (simp add: send_event_def)
  qed (use assms Some in \<open>simp add: send_event_def\<close>)
qed (simp add: send_event_def assms)

lemma svc_step_cases:
  assumes "svc_inv sv"
  obtains (same) "core (svc_step a sv) = core sv"
  | (commits) sid where "commits sid sv (svc_step a sv)"
  | (create) stamp cmd where "a = Create stamp cmd"
  | (send) sid i where "a = Send sid i"
proof (cases a)
  case (Start stamp cmd)
  then show ?thesis using start_turn_cases [of stamp cmd sv] that by auto
next
  case (Cancel stamp cmd)
  then show ?thesis using cancel_turn_cases [of stamp cmd sv] that by auto
next
  case (Record stamp sid turn kind)
  then show ?thesis using record_event_cases [OF assms, of stamp sid turn kind] that by auto
next
  case (Terminal stamp sid t kind)
  then show ?thesis using record_terminal_event_cases [of stamp sid t kind sv] that by auto
qed (use that in auto)

lemma svc_step_inv: "svc_inv sv \<Longrightarrow> svc_inv (svc_step a sv)"
proof -
  assume inv: "svc_inv sv"
  then show ?thesis
  proof (cases rule: svc_step_cases [where a = a])
    case same
    then show ?thesis using inv svc_inv_core by blast
  next
    case (commits sid)
    then show ?thesis using inv commits_inv by blast
  qed (simp_all add: inv create_commit_inv send_event_inv)
qed

lemma svc_run_inv: "svc_inv sv \<Longrightarrow> svc_inv (svc_run acts sv)"
  by (induction acts arbitrary: sv) (simp_all add: svc_step_inv)

lemma svc_inv_new: "svc_inv service_new"
  by (simp add: svc_inv_def service_new_def mem.written_empty stored_def)

lemmas svc_reach_inv = svc_run_inv [OF svc_inv_new]

subsection \<open>A run: a session, a turn, a request to cancel it\<close>

definition demo_spec :: session_spec where
  "demo_spec = \<lparr>ss_cwd = [], ss_provider = ''demo'', ss_model = ''demo'', ss_max_tokens = 1, ss_max_turns = 1,
     ss_sandbox = ''off'', ss_approval_policy = OnRequest, ss_tool_names = [], ss_system_prompt = None\<rparr>"

definition demo_cancelling :: "svc_action list" where
  "demo_cancelling =
     [Create ([], 0) (new_command ''c1'' ''s'' demo_spec), Start ([], 0) (new_command ''c2'' ''s'' (''t'', ''hi'')),
      Cancel ([], 0) (new_command ''c3'' ''s'' ''t'')]"

lemmas run_defs = service_new_def create_commit_def start_turn_def cancel_turn_def record_event_def
  record_terminal_event_def commit_event_def store_append_def stored_def apply_event_def apply_kind_def
  active_turn_mut_def active_turn_activity_def ensure_can_start_def uninitialized_def put_turn_def end_turn_def
  session_def validate_command_def check_expected_seq_def turn_receipt_def add_receipt_def clear_execution_def
  new_command_def new_event_def send_event_def Let_def

definition demo_event :: "nat \<Rightarrow> turn_id option \<Rightarrow> command_id option \<Rightarrow> forge_event_kind \<Rightarrow> forge_event" where
  "demo_event seq t c kind = new_event ([], 0) ''s'' seq t c kind"

definition demo_rt :: session_runtime where
  "demo_rt =
     \<lparr>sr_snapshot =
        \<lparr>sn_id = ''s'', sn_spec = demo_spec, sn_status = SessActive, sn_last_seq = 3, sn_active_turn = Some ''t'',
         sn_turns = [''t'' \<mapsto> \<lparr>ts_id = ''t'', ts_input = ''hi'', ts_status = Cancelling, ts_output = None, ts_error = None\<rparr>]\<rparr>,
      sr_receipts =
        [''c1'' \<mapsto> \<lparr>cr_command_id = ''c1'', cr_session_id = ''s'', cr_turn_id = None, cr_accepted_seq = 1\<rparr>,
         ''c2'' \<mapsto> \<lparr>cr_command_id = ''c2'', cr_session_id = ''s'', cr_turn_id = Some ''t'', cr_accepted_seq = 2\<rparr>,
         ''c3'' \<mapsto> \<lparr>cr_command_id = ''c3'', cr_session_id = ''s'', cr_turn_id = Some ''t'', cr_accepted_seq = 3\<rparr>],
      sr_active_execution = Some (''t'', 0),
      sr_outbox = [demo_event 2 (Some ''t'') (Some ''c2'') (TurnStarted ''hi''),
                   demo_event 3 (Some ''t'') (Some ''c3'') TurnCancelRequested],
      sr_events = []\<rparr>"

lemma demo_run:
  "sv_sessions (svc_run demo_cancelling service_new) ''s'' = Some demo_rt"
  "length (stored (sv_store (svc_run demo_cancelling service_new)) ''s'') = 3"
  by (simp_all add: demo_cancelling_def run_defs demo_rt_def demo_event_def eval_nat_numeral)

subsection \<open>Snapshot and store\<close>

text \<open>
  C28. After any interleaving of session creations, commands, recorded events and sends, of any number
  of sessions: the events stored for a session are numbered 1, 2, 3, ... without a gap and are all
  its own; its snapshot is the replay of the first \<^verbatim>\<open>last_seq\<close> of them, and at most one more is
  stored; the active turn is known and not ended, and every other turn is.\<close>
theorem snapshot_is_replay:
  assumes "sv = svc_run acts service_new" "sv_sessions sv sid = Some rt"
  defines "evs \<equiv> stored (sv_store sv) sid" and "sn \<equiv> sr_snapshot rt"
  shows "numbered 0 evs \<and> (\<forall>ev \<in> set evs. ev_session_id ev = sid) \<and>
         sn_last_seq sn \<le> length evs \<and> length evs \<le> sn_last_seq sn + 1 \<and>
         replay (take (sn_last_seq sn) evs) (uninitialized sid (sn_spec sn)) = Inr sn \<and>
         (\<forall>t ts. sn_turns sn t = Some ts \<longrightarrow> (is_terminal (ts_status ts) \<longleftrightarrow> sn_active_turn sn \<noteq> Some t)) \<and>
         (\<forall>t. sn_active_turn sn = Some t \<longrightarrow> sn_turns sn t \<noteq> None)"
proof -
  have inv: "svc_inv sv" using svc_reach_inv assms(1) by simp
  then have w: "mem.written (sv_store sv)" by (simp add: svc_inv_def)
  note ok = svc_inv_session [OF inv assms(2), folded evs_def]
  have "numbered 0 evs \<and> (\<forall>ev \<in> set evs. ev_session_id ev = sid)"
    using mem.contiguous [OF w, of sid] load_stored [OF w, of sid] by (simp add: evs_def)
  moreover have "snapshot_ok sn" using ok by (simp add: session_ok_def Let_def sn_def)
  ultimately show ?thesis using ok by (auto simp: session_ok_def Let_def sn_def snapshot_ok_def)
qed

theorem snapshot_is_replay_witness:
  "numbered 0 (stored (sv_store (svc_run demo_cancelling service_new)) ''s'')"
  using snapshot_is_replay [OF refl demo_run(1)] by blast

subsection \<open>Commands are carried out once\<close>

lemma commit_event_sessions:
  assumes "commit_event ev rest sid rt sv = (res, sv')"
  shows "sv_sessions sv' = sv_sessions sv \<or>
         (\<exists>sn. sv_sessions sv' = (sv_sessions sv)(sid \<mapsto> rest (rt\<lparr>sr_snapshot := sn, sr_outbox := sr_outbox rt @ [ev]\<rparr>)))"
  using assms by (auto simp: commit_event_def split: prod.splits option.splits sum.splits)

definition has_receipt :: "session_id \<Rightarrow> command_receipt \<Rightarrow> forge_service \<Rightarrow> bool" where
  "has_receipt sid r sv \<longleftrightarrow> (\<exists>rt. sv_sessions sv sid = Some rt \<and> sr_receipts rt (cr_command_id r) = Some r)"

lemma has_receipt_exec [simp]:
  "has_receipt sid r (sv\<lparr>sv_next_exec := k\<rparr>) = has_receipt sid r sv"
  "has_receipt sid r (sv\<lparr>sv_cancelled := C\<rparr>) = has_receipt sid r sv"
  "has_receipt sid r (sv\<lparr>sv_store := st\<rparr>) = has_receipt sid r sv"
  by (simp_all add: has_receipt_def)

lemma has_receipt_core: "core sv = core sv' \<Longrightarrow> has_receipt sid r sv = has_receipt sid r sv'"
  by (simp add: core_def has_receipt_def)

lemma commits_receipt:
  assumes "commits sid' sv sv'" "has_receipt sid r sv"
  shows "has_receipt sid r sv'"
proof -
  from assms(1) obtain rt ev rest where c: "sv_sessions sv sid' = Some rt"
    "\<And>sn. rest_ok ev rest (rt\<lparr>sr_snapshot := sn, sr_outbox := sr_outbox rt @ [ev]\<rparr>)"
    "core sv' = core (snd (commit_event ev rest sid' rt sv))"
    unfolding commits_def by blast
  from commit_event_sessions [OF surjective_pairing, of ev rest sid' rt sv]
  have "has_receipt sid r (snd (commit_event ev rest sid' rt sv))"
  proof (elim disjE exE)
    fix sn
    let ?rt = "rest (rt\<lparr>sr_snapshot := sn, sr_outbox := sr_outbox rt @ [ev]\<rparr>)"
    assume upd: "sv_sessions (snd (commit_event ev rest sid' rt sv)) = (sv_sessions sv)(sid' \<mapsto> ?rt)"
    have "sr_receipts ?rt k = Some q" if "sr_receipts rt k = Some q" for k q
      using c(2) [of sn] that by (auto simp: rest_ok_def)
    then show ?thesis using assms(2) c(1) upd by (auto simp: has_receipt_def)
  qed (use assms(2) in \<open>simp add: has_receipt_def\<close>)
  then show ?thesis using has_receipt_core [OF c(3)] by simp
qed

lemma svc_step_receipt:
  assumes "svc_inv sv" and r: "has_receipt sid r sv"
  shows "has_receipt sid r (svc_step a sv)"
  using assms(1)
proof (cases rule: svc_step_cases [where a = a])
  case (create stamp cmd)
  then show ?thesis using r
    by (auto simp: create_commit_def Let_def has_receipt_def split: prod.splits option.splits sum.splits if_splits)
next
  case (send sid' i)
  then show ?thesis using r by (auto simp: send_event_def has_receipt_def split: option.splits)
qed (use r has_receipt_core commits_receipt in blast)+

lemma svc_run_receipt: "svc_inv sv \<Longrightarrow> has_receipt sid r sv \<Longrightarrow> has_receipt sid r (svc_run acts sv)"
  by (induction acts arbitrary: sv) (simp_all add: svc_step_receipt svc_step_inv)

lemma commit_event_None:
  "commit_event ev rest sid rt sv = (None, sv') \<Longrightarrow>
   \<exists>sn. sv_sessions sv' = (sv_sessions sv)(sid \<mapsto> rest (rt\<lparr>sr_snapshot := sn, sr_outbox := sr_outbox rt @ [ev]\<rparr>))"
  by (auto simp: commit_event_def split: prod.splits option.splits sum.splits)

lemma start_turn_accepted:
  assumes "svc_inv sv" "start_turn stamp cmd sv = (Inr r, sv')"
  shows "validate_command cmd = None \<and> cr_command_id r = ce_command_id cmd \<and> has_receipt (ce_session_id cmd) r sv'"
proof -
  have old: "cr_command_id r = c" if "sv_sessions sv sid = Some rt" "sr_receipts rt c = Some r" for sid rt c
    using svc_inv_session [OF assms(1) that(1)] that(2) by (auto simp: session_ok_def Let_def elim: receipts_okE)
  show ?thesis using assms(2) old
    by (auto simp: start_turn_def Let_def has_receipt_def add_receipt_def turn_receipt_def
        split: option.splits sum.splits prod.splits dest!: commit_event_None)
qed

lemma start_turn_repeated:
  assumes "validate_command cmd = None" "has_receipt (ce_session_id cmd) r sv" "cr_command_id r = ce_command_id cmd"
  shows "start_turn stamp cmd sv = (Inr r, sv\<lparr>sv_next_exec := sv_next_exec sv + 1\<rparr>)"
  using assms by (auto simp: start_turn_def has_receipt_def Let_def session_def split: prod.splits)

lemma caused_once:
  assumes "receipts_ok evs n rs" "rs c = Some r" "n \<le> length evs"
  shows "\<exists>i < n. cr_accepted_seq r = Suc i \<and> filter (\<lambda>ev. ev_causation_id ev = Some c) (take n evs) = [evs ! i]"
proof -
  from receipts_okE [OF assms(1,2)] obtain i where i: "i < n" "cr_accepted_seq r = Suc i"
    "ev_causation_id (evs ! i) = Some c" .
  have uniq: "j = i" if "j < n" "ev_causation_id (evs ! j) = Some c" for j
    using receipts_ok_cause [OF assms(1) that] assms(2) i(2) by auto
  have split: "take n evs = take i evs @ evs ! i # drop (Suc i) (take n evs)"
    using id_take_nth_drop [of i "take n evs"] i(1) assms(3) by (simp add: min_def)
  have "filter (\<lambda>ev. ev_causation_id ev = Some c) (take i evs) = []"
  proof -
    have "ev_causation_id (take i evs ! j) \<noteq> Some c" if "j < length (take i evs)" for j
      using uniq [of j] that i(1) by auto
    then show ?thesis unfolding filter_empty_conv by (metis in_set_conv_nth)
  qed
  moreover have "filter (\<lambda>ev. ev_causation_id ev = Some c) (drop (Suc i) (take n evs)) = []"
  proof -
    have "ev_causation_id (drop (Suc i) (take n evs) ! j) \<noteq> Some c" if "j < length (drop (Suc i) (take n evs))" for j
    proof -
      have "Suc i + j < n" using that by simp
      then show ?thesis using uniq [of "Suc i + j"] that assms(3) by auto
    qed
    then show ?thesis unfolding filter_empty_conv by (metis in_set_conv_nth)
  qed
  ultimately have "filter (\<lambda>ev. ev_causation_id ev = Some c) (take n evs) = [evs ! i]"
    using i(3) by (subst split) simp
  then show ?thesis using i by blast
qed

text \<open>
  C29. A command to start a turn that has been accepted is carried out once: whatever happens in
  between, sending it again returns the same receipt and changes neither the store nor any session,
  and of the events in the session's snapshot exactly one was caused by it, the one whose number the
  receipt names.\<close>
theorem start_command_once:
  assumes "sv = svc_run acts service_new" "start_turn stamp cmd sv = (Inr r, sv1)" "sv2 = svc_run acts' sv1"
  shows "\<exists>sv3. start_turn stamp' cmd sv2 = (Inr r, sv3) \<and> sv_store sv3 = sv_store sv2 \<and> sv_sessions sv3 = sv_sessions sv2 \<and>
         (\<exists>rt i. sv_sessions sv2 (ce_session_id cmd) = Some rt \<and> cr_accepted_seq r = Suc i \<and>
            filter (\<lambda>ev. ev_causation_id ev = Some (ce_command_id cmd))
              (take (sn_last_seq (sr_snapshot rt)) (stored (sv_store sv2) (ce_session_id cmd))) =
            [stored (sv_store sv2) (ce_session_id cmd) ! i])"
proof -
  let ?sid = "ce_session_id cmd"
  have inv: "svc_inv sv" using assms(1) svc_reach_inv by simp
  have inv1: "svc_inv sv1" using svc_step_inv [OF inv, of "Start stamp cmd"] assms(2) by simp
  then have inv2: "svc_inv sv2" using svc_run_inv assms(3) by simp
  note acc = start_turn_accepted [OF inv assms(2)]
  then have has: "has_receipt ?sid r sv2" using svc_run_receipt [OF inv1] assms(3) by simp
  then obtain rt where rt: "sv_sessions sv2 ?sid = Some rt" "sr_receipts rt (ce_command_id cmd) = Some r"
    using acc by (auto simp: has_receipt_def)
  have ok: "session_ok ?sid (stored (sv_store sv2) ?sid) rt" by (rule svc_inv_session [OF inv2 rt(1)])
  from caused_once [of "stored (sv_store sv2) ?sid" "sn_last_seq (sr_snapshot rt)" "sr_receipts rt" "ce_command_id cmd" r] ok rt(2)
  obtain i where "cr_accepted_seq r = Suc i"
    "filter (\<lambda>ev. ev_causation_id ev = Some (ce_command_id cmd))
       (take (sn_last_seq (sr_snapshot rt)) (stored (sv_store sv2) ?sid)) = [stored (sv_store sv2) ?sid ! i]"
    by (auto simp: session_ok_def Let_def)
  then show ?thesis using start_turn_repeated [of cmd r sv2 stamp'] acc has rt(1) by auto
qed

theorem start_command_once_witness:
  "\<exists>r sv3. start_turn ([], 1) (new_command ''c2'' ''s'' (''t'', ''hi'')) (svc_run demo_cancelling service_new) = (Inr r, sv3) \<and>
           sv_sessions sv3 = sv_sessions (svc_run demo_cancelling service_new)"
proof -
  let ?cmd = "new_command ''c2'' ''s'' (''t'', ''hi'')"
  let ?sv = "svc_run (take 1 demo_cancelling) service_new"
  obtain r sv1 where run: "start_turn ([], 0) ?cmd ?sv = (Inr r, sv1)"
    by (simp add: demo_cancelling_def run_defs)
  have "svc_run demo_cancelling service_new = svc_run (drop 2 demo_cancelling) sv1"
    using run by (simp add: demo_cancelling_def)
  from start_command_once [OF refl run this, of "([], 1)"] show ?thesis by blast
qed

subsection \<open>Sessions that accept nothing any more\<close>

definition wedged :: "session_id \<Rightarrow> forge_service \<Rightarrow> bool" where
  \<comment> \<open>an event is stored that the snapshot did not accept\<close>
  "wedged sid sv \<longleftrightarrow>
     (\<exists>rt. sv_sessions sv sid = Some rt \<and> length (stored (sv_store sv) sid) = Suc (sn_last_seq (sr_snapshot rt)))"

definition held :: "session_id \<Rightarrow> forge_service \<Rightarrow> forge_event list \<times> session_snapshot option" where
  "held sid sv = (stored (sv_store sv) sid, map_option sr_snapshot (sv_sessions sv sid))"

lemma held_core: "core sv = core sv' \<Longrightarrow> held sid sv = held sid sv'"
  by (simp add: core_def held_def)

lemma wedged_held: "wedged sid sv \<Longrightarrow> held sid sv' = held sid sv \<Longrightarrow> wedged sid sv'"
  by (auto simp: wedged_def held_def)

lemma commit_event_wedged:
  assumes "svc_inv sv" "wedged sid sv" "sv_sessions sv sid = Some rt"
    "ev_session_id ev = sid" "ev_seq ev = Suc (sn_last_seq (sr_snapshot rt))"
    "commit_event ev rest sid rt sv = (res, sv')"
  shows "held sid' sv' = held sid' sv \<and> (\<exists>e. res = Some (SequenceConflict e (ev_seq ev)))"
proof -
  obtain r st where app: "store_append ev (sv_store sv) = (r, st)" by fastforce
  have "mem.written (sv_store sv)" using assms(1) by (simp add: svc_inv_def)
  from store_append_cases [OF this app] have
    "(\<exists>e. r = Some (SequenceConflict e (ev_seq ev))) \<and> stored st = stored (sv_store sv)"
    using assms(2-5) by (auto simp: wedged_def split: if_splits)
  then show ?thesis using assms(6) app by (auto simp: commit_event_def held_def)
qed

lemma commit_event_other:
  assumes "svc_inv sv" "ev_session_id ev = sid'" "sid \<noteq> sid'" "commit_event ev rest sid' rt sv = (res, sv')"
  shows "held sid sv' = held sid sv"
proof -
  obtain r st where app: "store_append ev (sv_store sv) = (r, st)" by fastforce
  have "mem.written (sv_store sv)" using assms(1) by (simp add: svc_inv_def)
  from store_append_cases [OF this app] have "stored st sid = stored (sv_store sv) sid"
    using assms(2,3) by (auto split: if_splits)
  then show ?thesis using assms(3,4) app by (auto simp: commit_event_def held_def split: option.splits sum.splits)
qed

lemma commits_wedged:
  assumes "commits sid' sv sv'" "svc_inv sv" "wedged sid sv"
  shows "held sid sv' = held sid sv"
proof -
  from assms(1) obtain rt ev rest where c: "sv_sessions sv sid' = Some rt" "ev_session_id ev = sid'"
    "ev_seq ev = Suc (sn_last_seq (sr_snapshot rt))" "core sv' = core (snd (commit_event ev rest sid' rt sv))"
    unfolding commits_def by blast
  have "held sid (snd (commit_event ev rest sid' rt sv)) = held sid sv"
  proof (cases "sid = sid'")
    case True
    then show ?thesis using commit_event_wedged [OF assms(2) _ c(1-3) surjective_pairing] assms(3) by blast
  next
    case False
    then show ?thesis using commit_event_other [OF assms(2) c(2) False surjective_pairing] by blast
  qed
  then show ?thesis using held_core [OF c(4)] by simp
qed

lemma create_commit_held:
  assumes "svc_inv sv" "sv_sessions sv sid \<noteq> None"
  shows "held sid (snd (create_commit stamp cmd sv)) = held sid sv"
proof -
  let ?ev = "new_event stamp (ce_session_id cmd) 1 None (Some (ce_command_id cmd)) SessionCreated"
  obtain r st where app: "store_append ?ev (sv_store sv) = (r, st)" by fastforce
  have w: "mem.written (sv_store sv)" using assms(1) by (simp add: svc_inv_def)
  have "stored (sv_store sv) sid \<noteq> []"
    using assms svc_inv_session [OF assms(1), of sid] by (fastforce simp: session_ok_def Let_def)
  then show ?thesis using store_append_cases [OF w app] app
    by (cases "sid = ce_session_id cmd")
      (auto simp: create_commit_def Let_def held_def split: if_splits option.splits sum.splits)
qed

lemma send_event_held: "held sid (send_event sid' i sv) = held sid sv"
  by (auto simp: send_event_def held_def split: option.splits)

lemma svc_step_wedged:
  assumes "svc_inv sv" "wedged sid sv"
  shows "held sid (svc_step a sv) = held sid sv"
  using assms(1)
proof (cases rule: svc_step_cases [where a = a])
  case (create stamp cmd)
  then show ?thesis using create_commit_held [OF assms(1), of sid stamp cmd] assms(2) by (auto simp: wedged_def)
next
  case same
  then show ?thesis by (rule held_core)
next
  case (commits sid')
  then show ?thesis using commits_wedged assms by blast
qed (simp add: send_event_held)

lemma svc_run_wedged:
  "svc_inv sv \<Longrightarrow> wedged sid sv \<Longrightarrow> held sid (svc_run acts sv) = held sid sv"
proof (induction acts arbitrary: sv)
  case (Cons a acts)
  then have "held sid (svc_step a sv) = held sid sv" by (intro svc_step_wedged)
  then show ?case using Cons.IH [of "svc_step a sv"] Cons.prems svc_step_inv wedged_held by simp
qed simp

lemma record_terminal_wedged:
  assumes "svc_inv sv" "wedged sid sv"
  shows "\<exists>e e'. fst (record_terminal_event stamp sid t kind sv) = Inl (SequenceConflict e e')"
proof -
  obtain rt where rt: "sv_sessions sv sid = Some rt" using assms(2) by (auto simp: wedged_def)
  let ?ev = "new_event stamp sid (Suc (sn_last_seq (sr_snapshot rt))) (Some t) None kind"
  obtain res sv' where run: "commit_event ?ev (clear_execution t) sid rt sv = (res, sv')" by fastforce
  then show ?thesis using commit_event_wedged [OF assms rt _ _ run, of sid] rt
    by (auto simp: record_terminal_event_def session_def)
qed

lemma cancel_turn_run:
  assumes "validate_command cmd = None" "sv_sessions sv (ce_session_id cmd) = Some rt"
    "sr_receipts rt (ce_command_id cmd) = None" "ce_expected_seq cmd = None"
    "sr_active_execution rt = Some (ce_payload cmd, h)"
    "commit_event (new_event stamp (ce_session_id cmd) (Suc (sn_last_seq (sr_snapshot rt))) (Some (ce_payload cmd))
       (Some (ce_command_id cmd)) TurnCancelRequested)
       (add_receipt (turn_receipt cmd (ce_payload cmd) (Suc (sn_last_seq (sr_snapshot rt)))))
       (ce_session_id cmd) rt sv = (Some e, sv')"
  shows "cancel_turn stamp cmd sv = (Inl e, sv')"
  using assms by (simp add: cancel_turn_def session_def check_expected_seq_def Let_def)

text \<open>
  C32. A second request to cancel, with its own command identifier, while the first one is being
  carried out: it is refused, but its event stays in the store. From then on, whatever happens,
  neither the stored events nor the snapshot of the session change again: the end of the turn cannot
  be recorded, and the turn stays active for ever.\<close>
theorem second_cancel_wedges_session:
  assumes "sv = svc_run acts service_new" "sv_sessions sv (ce_session_id cmd) = Some rt"
    and "sr_active_execution rt = Some (ce_payload cmd, h)" "sn_active_turn (sr_snapshot rt) = Some (ce_payload cmd)"
    and "sn_turns (sr_snapshot rt) (ce_payload cmd) = Some ts" "ts_status ts = Cancelling"
    and "length (stored (sv_store sv) (ce_session_id cmd)) = sn_last_seq (sr_snapshot rt)"
    and "validate_command cmd = None" "ce_expected_seq cmd = None" "sr_receipts rt (ce_command_id cmd) = None"
    and "sv' = svc_run acts' (snd (cancel_turn stamp cmd sv))"
  shows "fst (cancel_turn stamp cmd sv) = Inl (InvalidTransition ''cannot cancel turn in Cancelling'') \<and>
         map_option sr_snapshot (sv_sessions sv' (ce_session_id cmd)) = Some (sr_snapshot rt) \<and>
         length (stored (sv_store sv') (ce_session_id cmd)) = Suc (sn_last_seq (sr_snapshot rt)) \<and>
         (\<exists>e e'. fst (record_terminal_event stamp' (ce_session_id cmd) (ce_payload cmd) kind sv') =
                 Inl (SequenceConflict e e'))"
proof -
  let ?sid = "ce_session_id cmd"
  let ?ev = "new_event stamp ?sid (Suc (sn_last_seq (sr_snapshot rt))) (Some (ce_payload cmd))
    (Some (ce_command_id cmd)) TurnCancelRequested"
  let ?rest = "add_receipt (turn_receipt cmd (ce_payload cmd) (Suc (sn_last_seq (sr_snapshot rt))))"
  have inv: "svc_inv sv" using assms(1) svc_reach_inv by simp
  have id: "sn_id (sr_snapshot rt) = ?sid"
    using svc_inv_session [OF inv assms(2)] by (simp add: session_ok_def Let_def)
  have refused: "apply_event ?ev (sr_snapshot rt) = Inl (InvalidTransition ''cannot cancel turn in Cancelling'')"
    using assms(4-6) id by (simp add: apply_event_def apply_kind_def active_turn_mut_def)
  obtain r st where app: "store_append ?ev (sv_store sv) = (r, st)" by fastforce
  have "mem.written (sv_store sv)" using inv by (simp add: svc_inv_def)
  from store_append_cases [OF this app] have st: "r = None"
    "stored st = (stored (sv_store sv))(?sid := stored (sv_store sv) ?sid @ [?ev])"
    using assms(7) by (auto split: if_splits)
  have "commit_event ?ev ?rest ?sid rt sv =
    (Some (InvalidTransition ''cannot cancel turn in Cancelling''), sv\<lparr>sv_store := st\<rparr>)"
    using app st(1) refused by (simp add: commit_event_def)
  from cancel_turn_run [OF assms(8,2,10,9,3) this] have run:
    "cancel_turn stamp cmd sv = (Inl (InvalidTransition ''cannot cancel turn in Cancelling''), sv\<lparr>sv_store := st\<rparr>)" .
  have w: "wedged ?sid (sv\<lparr>sv_store := st\<rparr>)" using assms(2,7) st(2) by (simp add: wedged_def)
  have inv1: "svc_inv (sv\<lparr>sv_store := st\<rparr>)" using svc_step_inv [OF inv, of "Cancel stamp cmd"] run by simp
  have held: "held ?sid sv' = held ?sid (sv\<lparr>sv_store := st\<rparr>)" using svc_run_wedged [OF inv1 w] assms(11) run by simp
  have "svc_inv sv'" using svc_run_inv [OF inv1] assms(11) run by simp
  then show ?thesis
    using record_terminal_wedged [OF _ wedged_held [OF w held]] run held assms(2,7) st(2) by (simp add: held_def)
qed

theorem second_cancel_wedges_session_witness:
  "fst (cancel_turn ([], 0) (new_command ''c4'' ''s'' ''t'') (svc_run demo_cancelling service_new)) =
     Inl (InvalidTransition ''cannot cancel turn in Cancelling'') \<and>
   (\<exists>e e'. fst (record_terminal_event ([], 0) ''s'' ''t'' TurnCancelled
       (svc_run [] (snd (cancel_turn ([], 0) (new_command ''c4'' ''s'' ''t'') (svc_run demo_cancelling service_new))))) =
     Inl (SequenceConflict e e'))"
proof -
  let ?cmd = "new_command ''c4'' ''s'' ''t''"
  have sid: "ce_session_id ?cmd = ''s''" "ce_payload ?cmd = ''t''" by (simp_all add: new_command_def)
  from second_cancel_wedges_session [of _ demo_cancelling ?cmd demo_rt 0
      "\<lparr>ts_id = ''t'', ts_input = ''hi'', ts_status = Cancelling, ts_output = None, ts_error = None\<rparr>"
      _ "[]" "([], 0)" "([], 0)" TurnCancelled, OF refl, unfolded sid, OF demo_run(1)] demo_run(2)
  show ?thesis by (simp add: demo_rt_def new_command_def validate_command_def)
qed

end
