(* ===== verification/ForgeSubscribe.thy ===== *)
theory ForgeSubscribe
  imports ForgeService
begin

text \<open>
  Subscriptions to a session's events: what a subscriber receives from the stored history and the
  live channel together, when the events are sent in order, and what it misses when they are not;
  concrete runs of the service that show the properties at work.
\<close>

subsection \<open>What a subscription delivers\<close>

function drain :: "event_subscription \<Rightarrow> forge_event list" where
  "drain sub = (case recv sub of (Inr ev, sub') \<Rightarrow> ev # drain sub' | (Inl _, _) \<Rightarrow> [])"
  by auto
termination by (relation "measure sub_size") (auto dest: recv_smaller [OF sym])

declare drain.simps [simp del]

fun newer :: "nat \<Rightarrow> forge_event list \<Rightarrow> forge_event list" where
  \<comment> \<open>the events of the channel that the subscription does not skip\<close>
  "newer seen [] = []"
| "newer seen (ev # evs) = (if ev_seq ev \<le> seen then newer seen evs else ev # newer (ev_seq ev) evs)"

lemma recv_live_events:
  "recv_live (map LiveEvent evs) seen =
     (case newer seen evs of
        [] \<Rightarrow> (Inl SubscriptionClosed, [])
      | ev # _ \<Rightarrow> (Inr ev, map LiveEvent (tl (dropWhile (\<lambda>e. ev_seq e \<le> seen) evs))))"
  by (induction evs) (auto split: list.splits)

lemma newer_tl: "newer seen evs = ev # rest \<Longrightarrow> rest = newer (ev_seq ev) (tl (dropWhile (\<lambda>e. ev_seq e \<le> seen) evs))"
  by (induction evs) (auto split: if_splits)

lemma drain_live: "drain \<lparr>es_replay = [], es_live = map LiveEvent evs, es_last_seq = seen\<rparr> = newer seen evs"
proof (induction "length evs" arbitrary: evs seen rule: less_induct)
  case less
  show ?case
  proof (cases "newer seen evs")
    case Nil
    then show ?thesis by (simp add: drain.simps [of "\<lparr>es_replay = [], es_live = _, es_last_seq = _\<rparr>"] recv_def recv_live_events)
  next
    case (Cons ev rest)
    let ?evs = "tl (dropWhile (\<lambda>e. ev_seq e \<le> seen) evs)"
    have "evs \<noteq> []" using Cons by auto
    then have "length ?evs < length evs"
      by (metis length_dropWhile_le length_greater_0_conv length_tl less_imp_diff_less diff_less le_less_trans
          less_le_trans zero_less_one le_eq_less_or_eq)
    then have "drain \<lparr>es_replay = [], es_live = map LiveEvent ?evs, es_last_seq = ev_seq ev\<rparr> = newer (ev_seq ev) ?evs"
      by (rule less)
    then show ?thesis using Cons newer_tl [OF Cons]
      by (simp add: drain.simps [of "\<lparr>es_replay = [], es_live = map LiveEvent evs, es_last_seq = _\<rparr>"] recv_def recv_live_events)
  qed
qed

lemma drain_replay:
  "drain \<lparr>es_replay = evs, es_live = live, es_last_seq = seen\<rparr> =
     evs @ drain \<lparr>es_replay = [], es_live = live, es_last_seq = fold (\<lambda>ev n. max n (ev_seq ev)) evs seen\<rparr>"
  by (induction evs arbitrary: seen)
    (simp_all add: drain.simps [of "\<lparr>es_replay = _ # _, es_live = _, es_last_seq = _\<rparr>"] recv_def)

lemma newer_numbered: "numbered m evs \<Longrightarrow> newer seen evs = drop (seen - m) evs"
proof (induction evs arbitrary: m seen)
  case (Cons ev evs)
  show ?case
  proof (cases "seen \<le> m")
    case True
    then show ?thesis using Cons.IH [of "Suc m" "Suc m"] Cons.prems by simp
  next
    case False
    then obtain k where "seen - m = Suc k" "seen - Suc m = k" by (metis Suc_diff_Suc not_le)
    then show ?thesis using Cons.IH [of "Suc m" seen] Cons.prems False by simp
  qed
qed simp

lemma numbered_take: "numbered m evs \<Longrightarrow> numbered m (take k evs)"
  by (induction evs arbitrary: m k) (auto simp: take_Cons split: nat.splits)

lemma numbered_drop: "numbered m evs \<Longrightarrow> k \<le> length evs \<Longrightarrow> numbered (m + k) (drop k evs)"
proof (induction evs arbitrary: m k)
  case (Cons ev evs)
  then show ?case using Cons.IH [of "Suc m" "k - 1"] by (cases k) auto
qed simp

lemma fold_max_numbered:
  "numbered m evs \<Longrightarrow> fold (\<lambda>ev n. max n (ev_seq ev)) evs seen = (if evs = [] then seen else max seen (m + length evs))"
  by (induction evs rule: rev_induct) (auto simp: numbered_snoc)

lemma drain_history_and_live:
  assumes num: "numbered 0 evs" and k: "k \<le> m" "m \<le> length evs" "n \<le> length evs"
  shows "drain \<lparr>es_replay = drop a (take m evs), es_live = map LiveEvent (drop k (take n evs)), es_last_seq = a\<rparr> =
         drop a (take (max m n) evs)"
proof -
  have live: "newer s (drop k (take n evs)) = drop (max k s) (take n evs)" for s
  proof (cases "k \<le> n")
    case True
    then have "numbered k (drop k (take n evs))"
      using numbered_drop [OF numbered_take [OF num], of k n] k by simp
    then show ?thesis using newer_numbered [of k _ s] by (simp add: max_def add.commute)
  qed simp
  show ?thesis
  proof (cases "a < m")
    case True
    have "numbered a (drop a (take m evs))" using numbered_drop [OF numbered_take [OF num], of a m] True k by simp
    then have "fold (\<lambda>ev n. max n (ev_seq ev)) (drop a (take m evs)) a = m"
      using fold_max_numbered [of a "drop a (take m evs)" a] True k by simp
    moreover have "drop a (take m evs) @ drop m (take n evs) = drop a (take (max m n) evs)"
    proof (cases "m \<le> n")
      case le: True
      have "drop a (take n evs) = drop a (take m evs @ drop m (take n evs))"
        using append_take_drop_id [of m "take n evs"] le by (simp add: min_absorb1)
      then show ?thesis using True k le by (simp add: max_def)
    qed (simp add: max_def)
    moreover have "max k m = m" using k by simp
    ultimately show ?thesis
      unfolding drain_replay [of "drop a (take m evs)"] drain_live using live [of m] by simp
  next
    case False
    then have "drop a (take m evs) = []" by simp
    then show ?thesis using drain_live live [of a] k False by (auto simp: max_def)
  qed
qed

subsection \<open>Stored events stay\<close>

definition extends :: "session_id \<Rightarrow> forge_service \<Rightarrow> forge_service \<Rightarrow> bool" where
  "extends sid sv sv' \<longleftrightarrow> (\<exists>ys. stored (sv_store sv') sid = stored (sv_store sv) sid @ ys)"

lemma extends_refl [simp]: "extends sid sv sv"
  by (simp add: extends_def)

lemma extends_trans: "extends sid a b \<Longrightarrow> extends sid b c \<Longrightarrow> extends sid a c"
  by (auto simp: extends_def)

lemma append_extends:
  assumes "svc_inv sv" "store_append ev (sv_store sv) = (r, st)"
  shows "\<exists>ys. stored st sid = stored (sv_store sv) sid @ ys"
proof -
  have "mem.written (sv_store sv)" using assms(1) by (simp add: svc_inv_def)
  from store_append_cases [OF this assms(2)] show ?thesis by (auto split: if_splits)
qed

lemma commit_event_extends:
  "svc_inv sv \<Longrightarrow> extends sid sv (snd (commit_event ev rest sid' rt sv))"
  by (auto simp: commit_event_def extends_def split: prod.splits option.splits sum.splits dest: append_extends)

lemma svc_step_extends:
  assumes "svc_inv sv"
  shows "extends sid sv (svc_step a sv)"
  using assms
proof (cases rule: svc_step_cases [where a = a])
  case same
  then show ?thesis by (simp add: extends_def core_def)
next
  case (commits sid')
  then obtain ev rest rt where "core (svc_step a sv) = core (snd (commit_event ev rest sid' rt sv))"
    unfolding commits_def by blast
  then show ?thesis using commit_event_extends [OF assms, of sid ev rest sid' rt] by (simp add: extends_def core_def)
next
  case (create stamp cmd)
  then show ?thesis
    by (auto simp: create_commit_def Let_def extends_def split: prod.splits option.splits sum.splits
        dest: append_extends [OF assms])
next
  case (send sid' i)
  then show ?thesis by (auto simp: send_event_def extends_def split: option.splits)
qed

lemma svc_run_extends: "svc_inv sv \<Longrightarrow> extends sid sv (svc_run acts sv)"
proof (induction acts arbitrary: sv)
  case (Cons a acts)
  then show ?case using extends_trans [OF svc_step_extends [of sv]] svc_step_inv by (metis fold_simps(2))
qed simp

text \<open>
  C31. A subscription begins when its channel opens; the stored events after number \<^verbatim>\<open>a\<close> are loaded
  later, and the service goes on in between and afterwards. If the events recorded so far have been
  sent in the order of their numbers and the receiver does not lag, the subscriber receives exactly
  the events of the session after number \<^verbatim>\<open>a\<close>, each once and in order: none is missed between the
  history and the channel, none comes twice.\<close>
theorem subscription_exactly_once:
  assumes "sv0 = svc_run acts0 service_new" "sv1 = svc_run acts1 sv0" "sv2 = svc_run acts2 sv1"
    and "sv_sessions sv0 sid = Some rt0" "sv_sessions sv2 sid = Some rt2"
  defines "evs \<equiv> stored (sv_store sv2) sid" and "n \<equiv> sn_last_seq (sr_snapshot rt2)"
  assumes "sr_events rt2 = tl (take n evs)"
  shows "drain (subscribe sid a (map LiveEvent (drop (length (sr_events rt0)) (sr_events rt2))) (sv_store sv1)) =
         drop a (take (max (length (stored (sv_store sv1) sid)) n) evs)"
proof -
  have inv: "svc_inv sv0" "svc_inv sv1" "svc_inv sv2"
    using assms(1-3) svc_reach_inv svc_run_inv by auto
  have w: "mem.written (sv_store sv)" if "svc_inv sv" for sv using that by (simp add: svc_inv_def)
  have num: "numbered 0 evs"
    using mem.contiguous [OF w [OF inv(3)], of sid] load_stored [OF w [OF inv(3)], of sid] by (simp add: evs_def)
  let ?m = "length (stored (sv_store sv1) sid)"
  have ext: "extends sid sv0 sv1" "extends sid sv1 sv2"
    using svc_run_extends inv(1,2) assms(2,3) by auto
  then have m: "stored (sv_store sv1) sid = take ?m evs" "?m \<le> length evs"
    "length (stored (sv_store sv0) sid) \<le> ?m" by (auto simp: extends_def evs_def)
  note ok0 = svc_inv_session [OF inv(1) assms(4)] and ok2 = svc_inv_session [OF inv(3) assms(5), folded evs_def]
  have "size (mset (sr_events rt0 @ sr_outbox rt0)) < length (stored (sv_store sv0) sid)"
    using ok0 by (auto simp: session_ok_def Let_def)
  then have k: "Suc (length (sr_events rt0)) \<le> ?m" using m(3) by simp
  have n: "n \<le> length evs" using ok2 by (simp add: session_ok_def Let_def n_def)
  have "store_load sid a (sv_store sv1) = drop a (take ?m evs)"
    using mem.load_drop [OF w [OF inv(2)], of sid a] load_stored [OF w [OF inv(2)], of sid] m(1) by simp
  moreover have "drop (length (sr_events rt0)) (sr_events rt2) = drop (Suc (length (sr_events rt0))) (take n evs)"
    using assms(8) by (simp add: drop_Suc)
  ultimately show ?thesis using drain_history_and_live [OF num k m(2) n, of a] by (simp add: subscribe_def)
qed

lemma demo_sent:
  "sv_sessions (svc_run (demo_cancelling @ [Send ''s'' 0, Send ''s'' 0]) service_new) ''s'' =
     Some (demo_rt\<lparr>sr_outbox := [], sr_events := sr_outbox demo_rt\<rparr>)"
  "stored (sv_store (svc_run (demo_cancelling @ [Send ''s'' 0, Send ''s'' 0]) service_new)) ''s'' =
     demo_event 1 None (Some ''c1'') SessionCreated # sr_outbox demo_rt"
  by (simp_all add: demo_cancelling_def run_defs demo_rt_def demo_event_def eval_nat_numeral)

theorem subscription_exactly_once_witness:
  "\<exists>live st. drain (subscribe ''s'' 1 live st) = sr_outbox demo_rt"
proof -
  let ?sv0 = "svc_run (take 1 demo_cancelling) service_new"
  let ?sv1 = "svc_run (drop 1 demo_cancelling) ?sv0"
  let ?sv2 = "svc_run [Send ''s'' 0, Send ''s'' 0] ?sv1"
  have sv1: "?sv1 = svc_run demo_cancelling service_new" by (simp add: demo_cancelling_def)
  then have sv2: "?sv2 = svc_run (demo_cancelling @ [Send ''s'' 0, Send ''s'' 0]) service_new" by simp
  obtain rt0 where rt0: "sv_sessions ?sv0 ''s'' = Some rt0"
    by (simp add: demo_cancelling_def run_defs)
  let ?rt2 = "demo_rt\<lparr>sr_outbox := [], sr_events := sr_outbox demo_rt\<rparr>"
  have n: "sn_last_seq (sr_snapshot ?rt2) = 3" by (simp add: demo_rt_def)
  have len: "length (sr_outbox demo_rt) = 2" by (simp add: demo_rt_def)
  have "sr_events ?rt2 = tl (take (sn_last_seq (sr_snapshot ?rt2)) (stored (sv_store ?sv2) ''s''))"
    unfolding sv2 demo_sent n using len by simp
  from subscription_exactly_once [OF refl refl refl rt0 _ this, of 1]
  have "drain (subscribe ''s'' 1 (map LiveEvent (drop (length (sr_events rt0)) (sr_events ?rt2))) (sv_store ?sv1)) =
        drop 1 (take (max (length (stored (sv_store ?sv1) ''s'')) 3) (stored (sv_store ?sv2) ''s''))"
    using sv2 demo_sent(1) n by simp
  moreover have "drop 1 (take (max (length (stored (sv_store ?sv1) ''s'')) 3) (stored (sv_store ?sv2) ''s'')) = sr_outbox demo_rt"
    unfolding sv2 demo_sent(2) unfolding sv1 demo_run using len by simp
  ultimately show ?thesis by metis
qed

lemma reordered_sends_lose_event:
  \<comment> \<open>two calls leave their lock sections in one order and send in the other: event 2 is never delivered\<close>
  "\<exists>rt. sv_sessions (svc_run (demo_cancelling @ [Send ''s'' 1, Send ''s'' 0]) service_new) ''s'' = Some rt \<and>
        sr_events rt = [demo_event 3 (Some ''t'') (Some ''c3'') TurnCancelRequested,
                        demo_event 2 (Some ''t'') (Some ''c2'') (TurnStarted ''hi'')] \<and>
        drain \<lparr>es_replay = [], es_live = map LiveEvent (sr_events rt), es_last_seq = 1\<rparr> =
          [demo_event 3 (Some ''t'') (Some ''c3'') TurnCancelRequested]"
proof -
  have "sv_sessions (svc_run (demo_cancelling @ [Send ''s'' 1, Send ''s'' 0]) service_new) ''s'' =
     Some (demo_rt\<lparr>sr_outbox := [], sr_events := rev (sr_outbox demo_rt)\<rparr>)"
    by (simp add: demo_cancelling_def run_defs demo_rt_def demo_event_def eval_nat_numeral)
  then show ?thesis by (simp add: drain_live demo_rt_def demo_event_def)
qed

end
