(* ===== verification/ForgeTurns.thy ===== *)
theory ForgeTurns
  imports ForgeSubscribe
begin

text \<open>
  A turn from start to end: while every stored event has been applied, each event that the task of the
  active turn records is accepted, and its last one ends the turn.
\<close>

definition settled :: "session_id \<Rightarrow> turn_id \<Rightarrow> forge_service \<Rightarrow> bool" where
  \<comment> \<open>every stored event of the session is applied, and the turn is the active one\<close>
  "settled sid t sv \<longleftrightarrow> svc_inv sv \<and>
     (\<exists>rt. sv_sessions sv sid = Some rt \<and> length (stored (sv_store sv) sid) = sn_last_seq (sr_snapshot rt) \<and>
           sn_active_turn (sr_snapshot rt) = Some t \<and>
           (\<forall>u h. sr_active_execution rt = Some (u, h) \<longrightarrow> u = t))"

lemma settledE:
  assumes "settled sid t sv"
  obtains rt ts where "svc_inv sv" "sv_sessions sv sid = Some rt" "sn_id (sr_snapshot rt) = sid"
    "length (stored (sv_store sv) sid) = sn_last_seq (sr_snapshot rt)" "sn_active_turn (sr_snapshot rt) = Some t"
    "sn_turns (sr_snapshot rt) t = Some ts" "\<not> is_terminal (ts_status ts)"
    "\<forall>u h. sr_active_execution rt = Some (u, h) \<longrightarrow> u = t"
proof -
  from assms obtain rt where rt: "svc_inv sv" "sv_sessions sv sid = Some rt"
    "length (stored (sv_store sv) sid) = sn_last_seq (sr_snapshot rt)" "sn_active_turn (sr_snapshot rt) = Some t"
    "\<forall>u h. sr_active_execution rt = Some (u, h) \<longrightarrow> u = t"
    by (auto simp: settled_def)
  from svc_inv_session [OF rt(1,2)] have id: "sn_id (sr_snapshot rt) = sid" and ok: "snapshot_ok (sr_snapshot rt)"
    by (auto simp: session_ok_def Let_def)
  from ok rt(4) obtain ts where "sn_turns (sr_snapshot rt) t = Some ts" "\<not> is_terminal (ts_status ts)"
    unfolding snapshot_ok_def by blast
  then show thesis using that rt id by blast
qed

lemma commit_accepted:
  assumes "svc_inv sv" "sv_sessions sv sid = Some rt" "length (stored (sv_store sv) sid) = sn_last_seq (sr_snapshot rt)"
    "ev_session_id ev = sid" "ev_seq ev = Suc (sn_last_seq (sr_snapshot rt))" "apply_event ev (sr_snapshot rt) = Inr sn"
  obtains st where "stored st sid = stored (sv_store sv) sid @ [ev]"
    "commit_event ev rest sid rt sv =
       (None, sv\<lparr>sv_store := st, sv_sessions := (sv_sessions sv)(sid \<mapsto>
                rest (rt\<lparr>sr_snapshot := sn, sr_outbox := sr_outbox rt @ [ev]\<rparr>))\<rparr>)"
proof -
  obtain r st where app: "store_append ev (sv_store sv) = (r, st)" by fastforce
  have "mem.written (sv_store sv)" using assms(1) by (simp add: svc_inv_def)
  from store_append_cases [OF this app] have "r = None" "stored st sid = stored (sv_store sv) sid @ [ev]"
    using assms(3-5) by (auto split: if_splits)
  then show thesis using that [of st] app assms(6) by (simp add: commit_event_def)
qed

fun turn_goes_on :: "forge_event_kind \<Rightarrow> bool" where
  \<comment> \<open>the events a running turn's task records before its last one\<close>
  "turn_goes_on (TurnOutputDelta _) = True"
| "turn_goes_on (ToolStarted _) = True"
| "turn_goes_on (ToolCompleted _ _ _) = True"
| "turn_goes_on (ToolCancelled _) = True"
| "turn_goes_on (TurnCleanupStalled _) = True"
| "turn_goes_on _ = False"

lemma observer_goes_on: "observer_kind a = Some kind \<Longrightarrow> turn_goes_on kind"
  by (cases a) auto

lemma apply_goes_on:
  assumes "ev_turn_id ev = Some t" "turn_goes_on (ev_kind ev)" "sn_active_turn s = Some t" "sn_turns s t = Some ts"
    "\<not> is_terminal (ts_status ts)"
  obtains s' where "apply_kind ev s = Inr s'" "sn_active_turn s' = Some t"
  using assms
  by (cases "ev_kind ev")
    (auto simp: apply_kind_def active_turn_activity_def active_turn_mut_def put_turn_def)

lemma record_event_settled:
  assumes "settled sid t sv" "turn_goes_on kind"
  shows "settled sid t (snd (record_event stamp sid (Some t) None kind sv))"
proof -
  from assms(1) obtain rt ts where rt: "svc_inv sv" "sv_sessions sv sid = Some rt" "sn_id (sr_snapshot rt) = sid"
    "length (stored (sv_store sv) sid) = sn_last_seq (sr_snapshot rt)" "sn_active_turn (sr_snapshot rt) = Some t"
    "sn_turns (sr_snapshot rt) t = Some ts" "\<not> is_terminal (ts_status ts)"
    "\<forall>u h. sr_active_execution rt = Some (u, h) \<longrightarrow> u = t" by (rule settledE)
  let ?ev = "new_event stamp sid (Suc (sn_last_seq (sr_snapshot rt))) (Some t) None kind"
  from apply_goes_on [of ?ev t "sr_snapshot rt" ts] assms(2) rt obtain s' where
    "apply_kind ?ev (sr_snapshot rt) = Inr s'" "sn_active_turn s' = Some t" by auto
  then obtain sn where sn: "apply_event ?ev (sr_snapshot rt) = Inr sn" "sn_active_turn sn = Some t"
    "sn_last_seq sn = Suc (sn_last_seq (sr_snapshot rt))"
    using rt(3) by (auto simp: apply_event_def)
  from commit_accepted [OF rt(1,2,4) _ _ sn(1), of "\<lambda>rt. rt"] obtain st where
    "stored st sid = stored (sv_store sv) sid @ [?ev]"
    "commit_event ?ev (\<lambda>rt. rt) sid rt sv =
       (None, sv\<lparr>sv_store := st, sv_sessions := (sv_sessions sv)(sid \<mapsto>
                rt\<lparr>sr_snapshot := sn, sr_outbox := sr_outbox rt @ [?ev]\<rparr>)\<rparr>)" by auto
  then show ?thesis using rt sn svc_step_inv [OF rt(1), of "Record stamp sid (Some t) kind"]
    by (simp add: settled_def record_event_def session_def Let_def)
qed

lemma observe_settled: "settled sid t sv \<Longrightarrow> settled sid t (observe stamp sid t reported sv)"
  by (induction reported arbitrary: sv) (auto simp: record_event_settled observer_goes_on split: option.splits)

fun verdict :: "forge_event_kind \<Rightarrow> turn_status" where
  "verdict (TurnCompleted _) = Completed"
| "verdict (TurnFailed _) = Failed"
| "verdict _ = Cancelled"

lemma apply_ends:
  assumes "ev_turn_id ev = Some t" "ev_kind ev = terminal_kind c result" "sn_active_turn s = Some t"
    "sn_turns s t = Some ts" "\<not> is_terminal (ts_status ts)"
  obtains s' ts' where "apply_kind ev s = Inr s'" "sn_active_turn s' = None" "sn_turns s' t = Some ts'"
    "ts_status ts' = verdict (ev_kind ev)" "sn_status s' = sn_status s"
proof -
  have "ts_status ts \<in> {Running, Cancelling, Unknown}" using assms(5) by (cases "ts_status ts") auto
  then show thesis using assms that
    by (cases c; cases result) (auto simp: apply_kind_def active_turn_mut_def end_turn_def put_turn_def)
qed



end
