(* ===== verification/Spec2Isabelle.thy ===== *)
theory Spec2Isabelle
  imports HeadProps CircuitBreaker ConsistentHash CacheAware TensorRaw Retry LocalCluster ForgeTurns
begin

text \<open>
  A verification library for Pulsing, the actor framework of this repository.
\<close>

end
